(* ===== verification/GatewayPrelude.thy ===== *)
theory GatewayPrelude
  imports Main "HOL-Library.Word" "HOL-Library.AList" "HOL-Library.Sublist"
begin

text \<open>
  Shared ground of the development: Go's bytes, errors and results, little and big endian
  byte order, decimal printing (the \<open>%d\<close> of fmt), Go maps as association lists with
  distinct keys, and the generic lemmas the component theories use.  Nothing here is
  specific to one component of the gateway.
\<close>

unbundle bit_operations_syntax

section \<open>Collections of rewrite rules\<close>

text \<open>
  \<open>wire_defs\<close>: the definitions that read or write bytes; \<open>gomap_simps\<close>: lookups after
  updates of a Go map; \<open>conn_defs\<close>: the connection operations.
\<close>

named_theorems wire_defs
named_theorems gomap_simps
named_theorems conn_defs

section \<open>Basic types\<close>

type_synonym byte = "8 word"
type_synonym bytes = "byte list"

text \<open>Instants and durations are integers of nanoseconds, as \<open>time.Duration\<close> is.\<close>

type_synonym time = int
type_synonym duration = int

abbreviation (input) nanosecond :: duration where "nanosecond \<equiv> 1"
abbreviation millisecond :: duration where "millisecond \<equiv> 1000000"
abbreviation second :: duration where "second \<equiv> 1000000000"
abbreviation minute :: duration where "minute \<equiv> 60000000000"

text \<open>
  Error values.  Sentinel errors of the standard library and of the gateway are
  constructors without arguments, so \<open>=\<close> on this type is the identity comparison
  \<open>err == ErrX\<close> of the source.  \<open>Errorf msg w\<close> is a value made by \<open>fmt.Errorf\<close>: the
  text formatted in front of the wrapped error and the error wrapped with \<open>%w\<close>, if any.
\<close>

datatype go_error =
    EOF
  | ErrUnexpectedEOF
  | ErrClosed                \<comment> \<open>use of closed network connection\<close>
  | ErrTimeout               \<comment> \<open>a \<open>net.Error\<close> whose \<open>Timeout()\<close> is true\<close>
  | ErrIO string             \<comment> \<open>any other error of a connection\<close>
  | ErrCanceled              \<comment> \<open>context.Canceled\<close>
  | ErrDeadlineExceeded      \<comment> \<open>context.DeadlineExceeded\<close>
  | ErrMessageTooLarge
  | ErrWebSocketFrameMask
  | ErrWebSocketFrameType
  | Errorf string "go_error option"

text \<open>\<open>errors.Is\<close>: the chain of wrapped errors holds the target.\<close>

fun errors_Is :: "go_error \<Rightarrow> go_error \<Rightarrow> bool" where
  "errors_Is (Errorf s (Some e)) t \<longleftrightarrow> t = Errorf s (Some e) \<or> errors_Is e t"
| "errors_Is e t \<longleftrightarrow> t = e"

text \<open>Result of a call: a value, an error value, or a run-time panic.\<close>

datatype 'a res = Ok 'a | Err go_error | Panic string

primrec is_ok :: "'a res \<Rightarrow> bool" where
  "is_ok (Ok _) = True" | "is_ok (Err _) = False" | "is_ok (Panic _) = False"

section \<open>Strings as bytes\<close>

text \<open>A Go string is a sequence of bytes; a character stands for one byte.\<close>

definition string_bytes :: "string \<Rightarrow> bytes" where
  "string_bytes s = map (\<lambda>c. of_char c) s"

section \<open>Byte order\<close>

text \<open>
  \<open>le_bytes k w\<close> is what \<open>binary.LittleEndian.PutUint\<close> leaves in \<open>k\<close> bytes; \<open>le_word\<close>
  is \<open>binary.LittleEndian.Uint\<close>: byte \<open>i\<close> shifted left by \<open>8 * i\<close>, all or-ed together.
\<close>

definition le_bytes :: "nat \<Rightarrow> 'a::len word \<Rightarrow> bytes" where
  "le_bytes k w = map (\<lambda>i. ucast (drop_bit (8 * i) w)) [0..<k]"

primrec le_word :: "bytes \<Rightarrow> 'a::len word" where
  "le_word [] = 0"
| "le_word (b # bs) = ucast b OR push_bit 8 (le_word bs)"

definition be_bytes :: "nat \<Rightarrow> 'a::len word \<Rightarrow> bytes" where
  "be_bytes k w = rev (le_bytes k w)"

definition be_word :: "bytes \<Rightarrow> 'a::len word" where
  "be_word bs = le_word (rev bs)"

section \<open>Decimal printing\<close>

text \<open>The verb \<open>%d\<close> of fmt (and \<open>strconv.FormatInt(_, 10)\<close>) on an integer.\<close>

definition digit_char :: "nat \<Rightarrow> char" where
  "digit_char d = char_of (48 + d)"

fun dec_nat :: "nat \<Rightarrow> string" where
  "dec_nat n = (if n < 10 then [digit_char n] else dec_nat (n div 10) @ [digit_char (n mod 10)])"

declare dec_nat.simps [simp del]

definition dec_int :: "int \<Rightarrow> string" where
  "dec_int i = (if i < 0 then ''-'' @ dec_nat (nat (- i)) else dec_nat (nat i))"

section \<open>Go maps\<close>

text \<open>
  A Go map is an association list with distinct keys.  Its order stands for the
  iteration order of \<open>range\<close>, which Go leaves open; results that depend on the order
  are stated as such.
\<close>

type_synonym ('k, 'v) gomap = "('k \<times> 'v) list"

definition gomap_get :: "('k, 'v) gomap \<Rightarrow> 'k \<Rightarrow> 'v option" where
  "gomap_get m k = map_of m k"

definition gomap_put :: "'k \<Rightarrow> 'v \<Rightarrow> ('k, 'v) gomap \<Rightarrow> ('k, 'v) gomap" where
  "gomap_put k v m = AList.update k v m"

definition gomap_del :: "'k \<Rightarrow> ('k, 'v) gomap \<Rightarrow> ('k, 'v) gomap" where
  "gomap_del k m = AList.delete k m"

definition gomap_len :: "('k, 'v) gomap \<Rightarrow> nat" where
  "gomap_len m = length m"

definition gomap_keys :: "('k, 'v) gomap \<Rightarrow> 'k list" where
  "gomap_keys m = map fst m"

definition gomap_ok :: "('k, 'v) gomap \<Rightarrow> bool" where
  "gomap_ok m \<longleftrightarrow> distinct (map fst m)"

section \<open>Go arithmetic\<close>

text \<open>The operator \<open>%\<close> of Go truncates towards zero: the result has the dividend's sign.\<close>

definition go_rem :: "int \<Rightarrow> int \<Rightarrow> int" where
  "go_rem a b = (if a < 0 then - ((- a) mod \<bar>b\<bar>) else a mod \<bar>b\<bar>)"

section \<open>Lemmas on byte order\<close>

lemma length_le_bytes [simp]: "length (le_bytes k w) = k"
  by (simp add: le_bytes_def)

lemma length_be_bytes [simp]: "length (be_bytes k w) = k"
  by (simp add: be_bytes_def)

lemma le_bytes_nth: "i < k \<Longrightarrow> le_bytes k w ! i = ucast (drop_bit (8 * i) w)"
  by (simp add: le_bytes_def)

text \<open>Bit \<open>n\<close> of the decoded word is bit \<open>n mod 8\<close> of byte \<open>n div 8\<close>.\<close>

lemma bit_le_word:
  "bit (le_word bs :: 'a::len word) n \<longleftrightarrow>
     n < LENGTH('a) \<and> n div 8 < length bs \<and> bit (bs ! (n div 8)) (n mod 8)"
proof (induction bs arbitrary: n)
  case Nil
  then show ?case by simp
next
  case (Cons b bs)
  show ?case
  proof (cases "n < 8")
    case True
    then show ?thesis
      by (auto simp: bit_or_iff bit_push_bit_iff bit_unsigned_iff dest: bit_imp_le_length)
  next
    case False
    then obtain m where n: "n = m + 8" by (metis add.commute le_Suc_ex not_less)
    have "\<not> bit b n" using False by (auto dest: bit_imp_le_length)
    moreover have "n div 8 = Suc (m div 8)" "n mod 8 = m mod 8" by (simp_all add: n)
    ultimately show ?thesis
      using Cons.IH [of m] by (auto simp: bit_or_iff bit_push_bit_iff bit_unsigned_iff n)
  qed
qed

lemma le_word_le_bytes [simp]:
  assumes "LENGTH('a) \<le> 8 * k"
  shows "le_word (le_bytes k (w :: 'a::len word)) = w"
proof (rule bit_word_eqI)
  fix n assume n: "n < LENGTH('a)"
  have k: "n div 8 < k" using n assms by simp
  have "bit (le_bytes k w ! (n div 8)) (n mod 8) = bit w n"
    using k by (simp add: le_bytes_nth bit_unsigned_iff bit_drop_bit_eq)
  then show "bit (le_word (le_bytes k w) :: 'a word) n = bit w n"
    using n k by (simp add: bit_le_word)
qed

lemma le_bytes_le_word [simp]:
  assumes "length bs = k" and "8 * k \<le> LENGTH('a)"
  shows "le_bytes k (le_word bs :: 'a::len word) = bs"
proof (rule nth_equalityI)
  show "length (le_bytes k (le_word bs :: 'a word)) = length bs" using assms by simp
next
  fix i assume "i < length (le_bytes k (le_word bs :: 'a word))"
  then have i: "i < k" by simp
  show "le_bytes k (le_word bs :: 'a word) ! i = bs ! i"
  proof (rule bit_word_eqI)
    fix n assume n: "n < LENGTH(8)"
    then have "8 * i + n < LENGTH('a)" using i assms(2) by simp
    then show "bit (le_bytes k (le_word bs :: 'a word) ! i) n = bit (bs ! i) n"
      using i n assms(1)
      by (simp add: le_bytes_nth bit_unsigned_iff bit_drop_bit_eq bit_le_word)
  qed
qed

lemma be_word_be_bytes [simp]:
  "LENGTH('a) \<le> 8 * k \<Longrightarrow> be_word (be_bytes k (w :: 'a::len word)) = w"
  by (simp add: be_word_def be_bytes_def)

lemma be_bytes_be_word [simp]:
  "length bs = k \<Longrightarrow> 8 * k \<le> LENGTH('a) \<Longrightarrow> be_bytes k (be_word bs :: 'a::len word) = bs"
  by (simp add: be_word_def be_bytes_def)

section \<open>Lemmas on decimal printing\<close>

lemma digit_char_inj: "a < 10 \<Longrightarrow> b < 10 \<Longrightarrow> digit_char a = digit_char b \<Longrightarrow> a = b"
proof -
  assume a: "a < 10" and b: "b < 10" and eq: "digit_char a = digit_char b"
  have "of_char (char_of (48 + a) :: char) = (of_char (char_of (48 + b) :: char) :: nat)"
    using eq by (simp add: digit_char_def)
  then show "a = b" using a b by simp
qed

lemma dec_nat_nonempty [simp]: "dec_nat n \<noteq> []"
  by (subst dec_nat.simps) simp

lemma dec_nat_chars: "c \<in> set (dec_nat n) \<Longrightarrow> \<exists>d < 10. c = digit_char d"
proof (induction n rule: dec_nat.induct)
  case (1 n)
  show ?case
  proof (cases "n < 10")
    case True
    with "1.prems" show ?thesis by (subst (asm) dec_nat.simps) auto
  next
    case False
    with "1.prems" consider "c \<in> set (dec_nat (n div 10))" | "c = digit_char (n mod 10)"
      by (subst (asm) dec_nat.simps) auto
    then show ?thesis
    proof cases
      case 1
      with False "1.IH" show ?thesis by blast
    next
      case 2
      then show ?thesis by (intro exI [of _ "n mod 10"]) simp
    qed
  qed
qed

lemma digit_char_neq [simp]:
  "d < 10 \<Longrightarrow> digit_char d \<noteq> CHR '':''" "d < 10 \<Longrightarrow> digit_char d \<noteq> CHR ''-''"
proof -
  have range: "of_char (digit_char d) = (48 + d :: nat)" if "d < 10"
    using that by (simp add: digit_char_def)
  show "digit_char d \<noteq> CHR '':''" if "d < 10"
  proof
    assume "digit_char d = CHR '':''"
    then have "of_char (digit_char d) = (of_char CHR '':'' :: nat)" by simp
    with range [OF that] that show False by simp
  qed
  show "digit_char d \<noteq> CHR ''-''" if "d < 10"
  proof
    assume "digit_char d = CHR ''-''"
    then have "of_char (digit_char d) = (of_char CHR ''-'' :: nat)" by simp
    with range [OF that] that show False by simp
  qed
qed

lemma dec_nat_no_sep [simp]: "CHR '':'' \<notin> set (dec_nat n)" "CHR ''-'' \<notin> set (dec_nat n)"
  by (metis dec_nat_chars digit_char_neq(1), metis dec_nat_chars digit_char_neq(2))

lemma dec_nat_inject: "dec_nat m = dec_nat n \<Longrightarrow> m = n"
proof (induction m arbitrary: n rule: dec_nat.induct)
  case (1 m)
  show ?case
  proof (cases "m < 10"; cases "n < 10")
    assume "m < 10" "n < 10"
    with "1.prems" show ?thesis by (auto simp: dec_nat.simps [of m] dec_nat.simps [of n] dest: digit_char_inj)
  next
    assume "m < 10" "\<not> n < 10"
    with "1.prems" show ?thesis
      by (auto simp: dec_nat.simps [of m] dec_nat.simps [of n] Cons_eq_append_conv)
  next
    assume "\<not> m < 10" "n < 10"
    with "1.prems" show ?thesis
      by (auto simp: dec_nat.simps [of m] dec_nat.simps [of n] append_eq_Cons_conv)
  next
    assume m: "\<not> m < 10" and n: "\<not> n < 10"
    with "1.prems" have "dec_nat (m div 10) = dec_nat (n div 10)"
      and d: "digit_char (m mod 10) = digit_char (n mod 10)"
      by (auto simp: dec_nat.simps [of m] dec_nat.simps [of n])
    then have "m div 10 = n div 10" using "1.IH" m by blast
    moreover have "m mod 10 = n mod 10" using d by (intro digit_char_inj) simp_all
    ultimately show ?thesis by (metis div_mult_mod_eq)
  qed
qed

lemma dec_int_no_sep [simp]: "CHR '':'' \<notin> set (dec_int i)"
  by (simp add: dec_int_def)

lemma dec_int_nonempty [simp]: "dec_int i \<noteq> []"
  by (simp add: dec_int_def)

lemma dec_int_inject [simp]: "dec_int i = dec_int j \<longleftrightarrow> i = j"
proof
  assume eq: "dec_int i = dec_int j"
  have *: "CHR ''-'' \<in> set (dec_int k) \<longleftrightarrow> k < 0" for k
    by (simp add: dec_int_def)
  have "i < 0 \<longleftrightarrow> j < 0" using * [of i] * [of j] eq by simp
  then show "i = j" using eq
    by (auto simp: dec_int_def dest!: dec_nat_inject split: if_splits)
qed simp

text \<open>Two fields printed with \<open>%d:%d\<close> determine each other: the colon is in neither.\<close>

lemma append_sep_inject:
  assumes "xs @ c # ys = xs' @ c # ys'" and "c \<notin> set xs" and "c \<notin> set xs'"
  shows "xs = xs' \<and> ys = ys'"
  using assms
proof (induction xs arbitrary: xs')
  case Nil
  then show ?case by (cases xs') auto
next
  case (Cons x xs)
  then show ?case by (cases xs') auto
qed

section \<open>Lemmas on Go maps\<close>

lemma gomap_get_empty [simp, gomap_simps]: "gomap_get [] k = None"
  by (simp add: gomap_get_def)

lemma gomap_get_put [simp, gomap_simps]:
  "gomap_get (gomap_put k v m) k' = (if k' = k then Some v else gomap_get m k')"
  by (simp add: gomap_get_def gomap_put_def update_conv')

lemma gomap_get_del [simp, gomap_simps]:
  "gomap_get (gomap_del k m) k' = (if k' = k then None else gomap_get m k')"
  by (simp add: gomap_get_def gomap_del_def delete_conv')

lemma gomap_ok_empty [simp]: "gomap_ok []"
  by (simp add: gomap_ok_def)

lemma gomap_ok_put [simp]: "gomap_ok m \<Longrightarrow> gomap_ok (gomap_put k v m)"
  by (simp add: gomap_ok_def gomap_put_def distinct_update)

lemma gomap_ok_del [simp]: "gomap_ok m \<Longrightarrow> gomap_ok (gomap_del k m)"
  by (simp add: gomap_ok_def gomap_del_def distinct_delete)

lemma gomap_get_in: "gomap_ok m \<Longrightarrow> gomap_get m k = Some v \<longleftrightarrow> (k, v) \<in> set m"
  by (simp add: gomap_ok_def gomap_get_def)

lemma gomap_get_None: "gomap_get m k = None \<longleftrightarrow> k \<notin> fst ` set m"
  by (simp add: gomap_get_def map_of_eq_None_iff)

lemma gomap_ok_filter [simp]: "gomap_ok m \<Longrightarrow> gomap_ok (filter P m)"
  by (induction m) (auto simp: gomap_ok_def)

lemma gomap_get_filter:
  "gomap_ok m \<Longrightarrow> gomap_get (filter P m) k =
     (case gomap_get m k of None \<Rightarrow> None | Some v \<Rightarrow> if P (k, v) then Some v else None)"
  by (induction m) (auto simp: gomap_ok_def gomap_get_def map_of_eq_None_iff
      split: option.splits dest: map_of_SomeD)

lemma gomap_len_card: "gomap_ok m \<Longrightarrow> gomap_len m = card (dom (gomap_get m))"
proof -
  assume "gomap_ok m"
  then have "card (fst ` set m) = length m"
    by (simp add: gomap_ok_def distinct_card flip: set_map)
  moreover have "dom (gomap_get m) = fst ` set m"
    by (simp add: gomap_get_def [abs_def] dom_map_of_conv_image_fst)
  ultimately show ?thesis by (simp add: gomap_len_def)
qed

section \<open>Other generic lemmas\<close>

lemma go_rem_nonneg: "0 \<le> a \<Longrightarrow> 0 < b \<Longrightarrow> go_rem a b = a mod b"
  by (simp add: go_rem_def)

lemma go_rem_bounds:
  assumes "0 < b"
  shows "- b < go_rem a b \<and> go_rem a b < b"
proof -
  have mod: "0 \<le> x mod b" "x mod b < b" for x using assms by simp_all
  show ?thesis
  proof (cases "a < 0")
    case True
    then have "go_rem a b = - ((- a) mod b)" using assms by (simp add: go_rem_def)
    with mod [of "- a"] assms show ?thesis by (intro conjI; linarith)
  next
    case False
    then have "go_rem a b = a mod b" using assms by (simp add: go_rem_def)
    with mod [of a] assms show ?thesis by (intro conjI; linarith)
  qed
qed

end
