(* ===== verification/Streams.thy ===== *)
theory Streams
  imports GatewayPrelude
begin

text \<open>
  Byte streams: network connections as the peer's segments still to come and the bytes
  written so far, \<open>io.ReadFull\<close> of the standard library, and \<open>bufio.Reader\<close>.
  The interfaces \<open>io.Reader\<close> and \<open>io.Writer\<close>, which the protocol code is written
  against, are the locales \<open>byte_reader\<close> and \<open>byte_writer\<close>; a connection and a
  buffered reader over any reader are shown to satisfy them.
\<close>

section \<open>Readers and writers\<close>

text \<open>
  The result of \<open>Read(p)\<close> for a non-empty \<open>p\<close>: at least one byte, an error, or a panic of
  the implementation.  (No reader of the gateway returns a zero count with a nil error,
  which the contract of \<open>io.Reader\<close> discourages.)
\<close>

datatype rd_result = Got byte bytes | Failed go_error | Panicked string

type_synonym 'r rd = "'r \<Rightarrow> nat \<Rightarrow> rd_result \<times> 'r"

text \<open>How a stream ends: with an error value, or with a panic of the reader.\<close>

datatype stop = Stops go_error | Crashes string

primrec stop_result :: "stop \<Rightarrow> rd_result" where
  "stop_result (Stops e) = Failed e"
| "stop_result (Crashes m) = Panicked m"

text \<open>What \<open>io.ReadFull\<close> returns when the stream ends after the bytes \<open>got\<close>, too few of them.\<close>

primrec short_read :: "bytes \<Rightarrow> stop \<Rightarrow> 'a res" where
  "short_read got (Stops e) = Err (if got \<noteq> [] \<and> e = EOF then ErrUnexpectedEOF else e)"
| "short_read got (Crashes m) = Panic m"

lemma short_read_not_ok [simp]: "short_read got s \<noteq> Ok x" "Ok x \<noteq> short_read got s" "\<not> is_ok (short_read got s)"
  by (cases s; simp)+

text \<open>A writer returns the error of \<open>Write(p)\<close>, if any, and its next state.\<close>

type_synonym 'w wr = "'w \<Rightarrow> bytes \<Rightarrow> go_error option \<times> 'w"

text \<open>
  \<open>io.ReadFull\<close>: read until \<open>need\<close> bytes have arrived.  An EOF after some bytes becomes
  \<open>ErrUnexpectedEOF\<close>; any other error is returned as it is.
\<close>

function ReadFull_loop :: "'r rd \<Rightarrow> 'r \<Rightarrow> nat \<Rightarrow> bytes \<Rightarrow> bytes res \<times> 'r" where
  "ReadFull_loop rd r need acc =
     (if need = 0 then (Ok acc, r)
      else case rd r need of
        (Got b bs, r') \<Rightarrow> ReadFull_loop rd r' (need - Suc (length bs)) (acc @ b # bs)
      | (Failed e, r') \<Rightarrow> (Err (if acc \<noteq> [] \<and> e = EOF then ErrUnexpectedEOF else e), r')
      | (Panicked m, r') \<Rightarrow> (Panic m, r'))"
  by pat_completeness auto
termination
  by (relation "measure (\<lambda>(rd, r, need, acc). need)") auto

declare ReadFull_loop.simps [simp del]

definition ReadFull :: "'r rd \<Rightarrow> 'r \<Rightarrow> nat \<Rightarrow> bytes res \<times> 'r" where
  "ReadFull rd r n = ReadFull_loop rd r n []"

section \<open>Network connections\<close>

text \<open>
  \<open>cin\<close> holds the segments the peer will deliver, \<open>cend\<close> the error after the last of
  them (EOF for an orderly close, a timeout for a silent peer), \<open>cout\<close> the bytes written,
  \<open>croom\<close> how many more bytes the transport takes before writing fails (\<open>None\<close>: all).
\<close>

record conn =
  cin :: "bytes list"
  cend :: go_error
  cout :: bytes
  croom :: "nat option"
  cclosed :: bool

definition conn_Read :: "conn rd" where
  [conn_defs]: "conn_Read c n =
     (if cclosed c then (Failed ErrClosed, c)
      else case dropWhile (\<lambda>s. s = []) (cin c) of
        [] \<Rightarrow> (Failed (cend c), c\<lparr>cin := []\<rparr>)
      | s # ss \<Rightarrow> (case take n s of
            [] \<Rightarrow> (Failed (cend c), c)
          | b # bs \<Rightarrow> (Got b bs, c\<lparr>cin := drop n s # ss\<rparr>)))"

definition conn_Write :: "conn wr" where
  [conn_defs]: "conn_Write c p =
     (if cclosed c then (Some ErrClosed, c)
      else case croom c of
        None \<Rightarrow> (None, c\<lparr>cout := cout c @ p\<rparr>)
      | Some k \<Rightarrow>
          if length p \<le> k then (None, c\<lparr>cout := cout c @ p, croom := Some (k - length p)\<rparr>)
          else (Some (ErrIO ''write''), c\<lparr>cout := cout c @ take k p, croom := Some 0\<rparr>))"

definition conn_Close :: "conn \<Rightarrow> go_error option \<times> conn" where
  [conn_defs]: "conn_Close c = (if cclosed c then (Some ErrClosed, c) else (None, c\<lparr>cclosed := True\<rparr>))"

text \<open>What a reader of the connection will still see, and how the stream then ends.\<close>

definition conn_content :: "conn \<Rightarrow> bytes" where
  "conn_content c = (if cclosed c then [] else concat (cin c))"

definition conn_ending :: "conn \<Rightarrow> stop" where
  "conn_ending c = Stops (if cclosed c then ErrClosed else cend c)"

section \<open>Buffered readers\<close>

text \<open>
  \<open>bufio.Reader\<close> with the default buffer of 4096 bytes: buffered bytes first; with an
  empty buffer one read of the source, into the caller's slice when that is at least as
  large as the buffer.
\<close>

record 'r bufio =
  bf_buf :: bytes
  bf_rd :: 'r

abbreviation bufio_size :: nat where "bufio_size \<equiv> 4096"

definition bufio_NewReader :: "'r \<Rightarrow> 'r bufio" where
  "bufio_NewReader r = \<lparr>bf_buf = [], bf_rd = r\<rparr>"

definition bufio_Read :: "'r rd \<Rightarrow> 'r bufio rd" where
  "bufio_Read rd b n =
     (case bf_buf b of
        x # xs \<Rightarrow> (Got x (take (n - 1) xs), b\<lparr>bf_buf := drop (n - 1) xs\<rparr>)
      | [] \<Rightarrow>
          if bufio_size \<le> n then (case rd (bf_rd b) n of (res, r') \<Rightarrow> (res, b\<lparr>bf_rd := r'\<rparr>))
          else (case rd (bf_rd b) bufio_size of
              (Got x xs, r') \<Rightarrow> (Got x (take (n - 1) xs), b\<lparr>bf_buf := drop (n - 1) xs, bf_rd := r'\<rparr>)
            | (res, r') \<Rightarrow> (res, b\<lparr>bf_rd := r'\<rparr>)))"

text \<open>\<open>bufio.Reader.ReadByte\<close> is a one-byte read of the buffered reader \<open>rd\<close>.\<close>

definition ReadByte :: "'r rd \<Rightarrow> 'r \<Rightarrow> byte res \<times> 'r" where
  "ReadByte rd r =
     (case rd r 1 of
        (Got x _, r') \<Rightarrow> (Ok x, r')
      | (Failed e, r') \<Rightarrow> (Err e, r')
      | (Panicked m, r') \<Rightarrow> (Panic m, r'))"

section \<open>Sequencing calls that may fail\<close>

text \<open>\<open>if err != nil { return ..., err }\<close> after a call, with the state threaded through.\<close>

definition rs_bind :: "'a res \<times> 's \<Rightarrow> ('a \<Rightarrow> 's \<Rightarrow> 'b res \<times> 's) \<Rightarrow> 'b res \<times> 's" where
  "rs_bind m f =
     (case m of (Ok a, s) \<Rightarrow> f a s | (Err e, s) \<Rightarrow> (Err e, s) | (Panic p, s) \<Rightarrow> (Panic p, s))"

lemma rs_bind_simps [simp]:
  "rs_bind (Ok a, s) f = f a s" "rs_bind (Err e, s) f = (Err e, s)" "rs_bind (Panic p, s) f = (Panic p, s)"
  by (simp_all add: rs_bind_def)

section \<open>The interface io.Reader\<close>

text \<open>
  \<open>content r\<close> is the byte stream still to come and \<open>ending r\<close> how it ends; how the stream is cut into reads is left open.
\<close>

locale byte_reader =
  fixes rd :: "'r rd"
    and content :: "'r \<Rightarrow> bytes"
    and ending :: "'r \<Rightarrow> stop"
  assumes read_got: "0 < n \<Longrightarrow> content r \<noteq> [] \<Longrightarrow>
      \<exists>b bs r'. rd r n = (Got b bs, r') \<and> length bs < n \<and>
        content r = b # bs @ content r' \<and> ending r' = ending r"
    and read_end: "0 < n \<Longrightarrow> content r = [] \<Longrightarrow>
      \<exists>r'. rd r n = (stop_result (ending r), r')"
begin

lemma ReadFull_loop_ok:
  "n \<le> length (content r) \<Longrightarrow>
     \<exists>r'. ReadFull_loop rd r n acc = (Ok (acc @ take n (content r)), r') \<and>
       content r' = drop n (content r) \<and> ending r' = ending r"
proof (induction n arbitrary: r acc rule: less_induct)
  case (less n)
  show ?case
  proof (cases "n = 0")
    case True
    then show ?thesis by (simp add: ReadFull_loop.simps)
  next
    case False
    with less.prems have "content r \<noteq> []" by auto
    with False obtain b bs r' where step: "rd r n = (Got b bs, r')" "length bs < n"
      "content r = b # bs @ content r'" "ending r' = ending r"
      using read_got [of n r] by blast
    let ?m = "n - Suc (length bs)"
    have "?m < n" "?m \<le> length (content r')" using step(2,3) less.prems by auto
    from less.IH [OF this, of "acc @ b # bs"] obtain r'' where
      "ReadFull_loop rd r' ?m (acc @ b # bs) = (Ok ((acc @ b # bs) @ take ?m (content r')), r'')"
      "content r'' = drop ?m (content r')" "ending r'' = ending r'" by blast
    moreover have "take n (content r) = b # bs @ take ?m (content r')"
      "drop n (content r) = drop ?m (content r')"
      using step(2,3) by (auto simp: take_Cons' drop_Cons')
    ultimately show ?thesis
      using False step(1,4) by (simp add: ReadFull_loop.simps [of rd r n])
  qed
qed

lemma ReadFull_loop_short:
  "length (content r) < n \<Longrightarrow>
     \<exists>r'. ReadFull_loop rd r n acc = (short_read (acc @ content r) (ending r), r')"
proof (induction n arbitrary: r acc rule: less_induct)
  case (less n)
  then have n: "0 < n" by auto
  show ?case
  proof (cases "content r = []")
    case True
    with n read_end [of n r] obtain r' where "rd r n = (stop_result (ending r), r')" by blast
    with n True show ?thesis by (cases "ending r") (simp_all add: ReadFull_loop.simps [of rd r n])
  next
    case False
    with n obtain b bs r' where step: "rd r n = (Got b bs, r')" "length bs < n"
      "content r = b # bs @ content r'" "ending r' = ending r"
      using read_got [of n r] by blast
    let ?m = "n - Suc (length bs)"
    have "?m < n" "length (content r') < ?m" using step(2,3) less.prems by auto
    from less.IH [OF this, of "acc @ b # bs"] step n show ?thesis
      by (auto simp: ReadFull_loop.simps [of rd r n])
  qed
qed

theorem ReadFull_ok:
  "n \<le> length (content r) \<Longrightarrow>
     \<exists>r'. ReadFull rd r n = (Ok (take n (content r)), r') \<and>
       content r' = drop n (content r) \<and> ending r' = ending r"
  using ReadFull_loop_ok [of n r "[]"] by (simp add: ReadFull_def)

theorem ReadFull_short:
  "length (content r) < n \<Longrightarrow> \<exists>r'. ReadFull rd r n = (short_read (content r) (ending r), r')"
  using ReadFull_loop_short [of r n "[]"] by (simp add: ReadFull_def)

lemma ReadFull_inv:
  assumes "ReadFull rd r n = (Ok bs, r')"
  shows "content r = bs @ content r'" and "length bs = n" and "ending r' = ending r"
proof -
  have "n \<le> length (content r)"
    using ReadFull_short [of r n] assms by (cases "ending r") (auto simp: not_less [symmetric])
  from ReadFull_ok [OF this] assms this
  show "content r = bs @ content r'" "length bs = n" "ending r' = ending r" by auto
qed

lemma ReadByte_ok:
  "content r = b # s \<Longrightarrow> \<exists>r'. ReadByte rd r = (Ok b, r') \<and> content r' = s \<and> ending r' = ending r"
  using read_got [of 1 r] by (fastforce simp: ReadByte_def)

lemma ReadByte_end:
  "content r = [] \<Longrightarrow> \<exists>r'. ReadByte rd r = (short_read [] (ending r), r')"
  using read_end [of 1 r] by (cases "ending r") (auto simp: ReadByte_def)

text \<open>Buffering keeps the stream: a \<open>bufio.Reader\<close> over a reader is a reader.\<close>

lemma bufio_is_reader:
  "byte_reader (bufio_Read rd) (\<lambda>b. bf_buf b @ content (bf_rd b)) (\<lambda>b. ending (bf_rd b))"
proof
  fix n :: nat and b :: "'r bufio"
  assume n: "0 < n" and ne: "bf_buf b @ content (bf_rd b) \<noteq> []"
  show "\<exists>x xs b'. bufio_Read rd b n = (Got x xs, b') \<and> length xs < n \<and>
      bf_buf b @ content (bf_rd b) = x # xs @ bf_buf b' @ content (bf_rd b') \<and>
      ending (bf_rd b') = ending (bf_rd b)"
  proof (cases "bf_buf b")
    case (Cons x xs)
    have "length (take (n - 1) xs) < n" using n by auto
    then show ?thesis using Cons by (auto simp: bufio_Read_def simp flip: append_assoc)
  next
    case Nil
    with ne have c: "content (bf_rd b) \<noteq> []" by simp
    show ?thesis
    proof (cases "bufio_size \<le> n")
      case True
      with n c obtain x xs r' where "rd (bf_rd b) n = (Got x xs, r')" "length xs < n"
        "content (bf_rd b) = x # xs @ content r'" "ending r' = ending (bf_rd b)"
        using read_got [of n "bf_rd b"] by blast
      with True Nil show ?thesis by (auto simp: bufio_Read_def)
    next
      case False
      with c obtain x xs r' where "rd (bf_rd b) bufio_size = (Got x xs, r')"
        "content (bf_rd b) = x # xs @ content r'" "ending r' = ending (bf_rd b)"
        using read_got [of bufio_size "bf_rd b"] by auto
      moreover have "length (take (n - 1) xs) < n" using n by auto
      ultimately show ?thesis
        using False Nil by (auto simp: bufio_Read_def simp flip: append_assoc)
    qed
  qed
next
  fix n :: nat and b :: "'r bufio"
  assume n: "0 < n" and e: "bf_buf b @ content (bf_rd b) = []"
  then show "\<exists>b'. bufio_Read rd b n = (stop_result (ending (bf_rd b)), b')"
    using read_end [of n "bf_rd b"] read_end [of bufio_size "bf_rd b"]
    by (cases "ending (bf_rd b)") (auto simp: bufio_Read_def)
qed

end

section \<open>The interface io.Writer\<close>

text \<open>A write that succeeds sends all its bytes, one that fails at most a prefix of them.\<close>

locale byte_writer =
  fixes wr :: "'w wr"
    and sent :: "'w \<Rightarrow> bytes"
  assumes write_ok: "wr w p = (None, w') \<Longrightarrow> sent w' = sent w @ p"
    and write_err: "wr w p = (Some e, w') \<Longrightarrow> \<exists>q. prefix q p \<and> sent w' = sent w @ q"

section \<open>Connections satisfy both interfaces\<close>

lemma dropWhile_concat: "concat (dropWhile (\<lambda>s. s = []) ss) = concat ss"
  by (induction ss) auto

lemma dropWhile_nonempty: "dropWhile (\<lambda>s. s = []) ss = s # rest \<Longrightarrow> s \<noteq> []"
  using hd_dropWhile [of "\<lambda>s. s = []" ss] by auto

interpretation conn_rd: byte_reader conn_Read conn_content conn_ending
proof
  fix n :: nat and c :: conn
  assume n: "0 < n" and ne: "conn_content c \<noteq> []"
  then obtain s ss where d: "dropWhile (\<lambda>s. s = []) (cin c) = s # ss"
    by (metis conn_content_def concat.simps(1) dropWhile_concat neq_Nil_conv)
  have s: "s \<noteq> []" by (rule dropWhile_nonempty [OF d])
  with n obtain b bs where t: "take n s = b # bs" by (cases n; cases s) auto
  then have "length (b # bs) \<le> n" and split: "s = b # bs @ drop n s"
    by (metis length_take min.cobounded2) (metis append_Cons append_take_drop_id t)
  moreover have "concat (cin c) = s @ concat ss" using dropWhile_concat [of "cin c"] d by simp
  ultimately show "\<exists>b bs c'. conn_Read c n = (Got b bs, c') \<and> length bs < n \<and>
      conn_content c = b # bs @ conn_content c' \<and> conn_ending c' = conn_ending c"
    using ne d t by (auto simp: conn_Read_def conn_content_def conn_ending_def split: if_splits)
next
  fix n :: nat and c :: conn
  assume n: "0 < n" and e: "conn_content c = []"
  show "\<exists>c'. conn_Read c n = (stop_result (conn_ending c), c')"
  proof (cases "dropWhile (\<lambda>s. s = []) (cin c)")
    case Nil
    then show ?thesis using e
      by (cases "cclosed c") (auto simp: conn_Read_def conn_content_def conn_ending_def
          simp del: dropWhile_eq_Nil_conv)
  next
    case (Cons s ss)
    then show ?thesis using e dropWhile_nonempty [OF Cons] dropWhile_concat [of "cin c"]
      by (auto simp: conn_Read_def conn_content_def conn_ending_def split: if_splits)
  qed
qed

interpretation sniff_rd: byte_reader "bufio_Read conn_Read"
    "\<lambda>b. bf_buf b @ conn_content (bf_rd b)" "\<lambda>b. conn_ending (bf_rd b)"
  by (rule conn_rd.bufio_is_reader)

interpretation conn_wr: byte_writer conn_Write cout
proof
  fix w w' :: conn and p :: bytes and e
  show "conn_Write w p = (None, w') \<Longrightarrow> cout w' = cout w @ p"
    by (auto simp: conn_Write_def split: if_splits option.splits)
  show "conn_Write w p = (Some e, w') \<Longrightarrow> \<exists>q. prefix q p \<and> cout w' = cout w @ q"
    by (auto simp: conn_Write_def take_is_prefix split: if_splits option.splits)
qed

lemma conn_Write_open:
  "\<not> cclosed c \<Longrightarrow> croom c = None \<Longrightarrow> conn_Write c p = (None, c\<lparr>cout := cout c @ p\<rparr>)"
  by (simp add: conn_Write_def)

end
