(* ===== verification/BufferPool.thy ===== *)
theory BufferPool
  imports GatewayPrelude
begin

text \<open>
  The buffer pool of \<open>internal/buffer/pool.go\<close>.  A buffer is represented by its capacity:
  every user fills the slice it cuts from a buffer before reading it, so the old contents
  are never seen.  \<open>sync.Pool\<close> may hand out any stored buffer or make a new one; the
  argument \<open>i\<close> of \<open>buffer_Get\<close> is that choice (a miss when it names no stored buffer).
\<close>

type_synonym buffer_pool = "nat list"

text \<open>A slice: its bytes and the capacity of the array behind it.\<close>

record slice =
  sl_data :: bytes
  sl_cap :: nat

abbreviation buffer_size :: nat where "buffer_size \<equiv> 8192"

definition buffer_New :: nat where
  "buffer_New = buffer_size"

definition buffer_Get :: "nat \<Rightarrow> buffer_pool \<Rightarrow> nat \<times> buffer_pool" where
  "buffer_Get i p =
     (if i < length p then (p ! i, take i p @ drop (Suc i) p) else (buffer_New, p))"

definition buffer_Put :: "nat \<Rightarrow> buffer_pool \<Rightarrow> buffer_pool" where
  "buffer_Put cap p = (if buffer_size \<le> cap then cap # p else p)"

text \<open>Every stored buffer has its full length, at least 8 KiB.\<close>

definition pool_ok :: "buffer_pool \<Rightarrow> bool" where
  "pool_ok p \<longleftrightarrow> (\<forall>c \<in> set p. buffer_size \<le> c)"

lemma pool_ok_empty [simp]: "pool_ok []"
  by (simp add: pool_ok_def)

lemma pool_ok_subset: "pool_ok p \<Longrightarrow> set q \<subseteq> set p \<Longrightarrow> pool_ok q"
  unfolding pool_ok_def by blast

lemma buffer_Get_cap:
  assumes "pool_ok p" and "buffer_Get i p = (c, p')"
  shows "buffer_size \<le> c" and "pool_ok p'"
proof -
  show "buffer_size \<le> c"
    using assms by (auto simp: buffer_Get_def buffer_New_def pool_ok_def split: if_splits)
  have "set p' \<subseteq> set p"
    using assms(2) set_take_subset [of i p] set_drop_subset [of "Suc i" p]
    by (auto simp: buffer_Get_def split: if_splits)
  with assms(1) show "pool_ok p'" by (rule pool_ok_subset)
qed

lemma pool_ok_Put [simp]: "pool_ok p \<Longrightarrow> pool_ok (buffer_Put c p)"
  by (simp add: buffer_Put_def pool_ok_def)

end
