(* ===== verification/Packet.thy ===== *)
theory Packet
  imports Streams BufferPool
begin

text \<open>
  The wire formats of \<open>internal/protocol/packet.go\<close> and \<open>server_packet.go\<close>: the client
  message header, the server message header and the gate header in its short and extended
  forms, with the routines that read and write them.  Readers and writers are parameters,
  as \<open>io.Reader\<close> and \<open>io.Writer\<close> are in the source.
\<close>

section \<open>Headers\<close>

abbreviation ClientMessageHeaderSize :: nat where "ClientMessageHeaderSize \<equiv> 8"
abbreviation ServerMessageHeaderSize :: nat where "ServerMessageHeaderSize \<equiv> 4 + 4 + 4 + 8"
abbreviation GateMsgHeaderSize :: nat where "GateMsgHeaderSize \<equiv> 1 + 8"
abbreviation GateMsgHeaderExtendedSize :: nat where "GateMsgHeaderExtendedSize \<equiv> 1 + 8 + 16 + 8"

record ClientMessageHeader =
  cmh_Length :: "16 word"
  cmh_MessageID :: "16 word"
  cmh_ServerID :: "32 word"

definition decode_client_header :: "bytes \<Rightarrow> ClientMessageHeader" where
  "decode_client_header buf =
     \<lparr>cmh_Length = le_word (take 2 buf),
      cmh_MessageID = le_word (take 2 (drop 2 buf)),
      cmh_ServerID = le_word (take 4 (drop 4 buf))\<rparr>"

definition ParseClientMessageHeader :: "'r rd \<Rightarrow> 'r \<Rightarrow> ClientMessageHeader res \<times> 'r" where
  "ParseClientMessageHeader rd r =
     (case ReadFull rd r ClientMessageHeaderSize of
        (Ok buf, r') \<Rightarrow> (Ok (decode_client_header buf), r')
      | (Err e, r') \<Rightarrow> (Err e, r')
      | (Panic m, r') \<Rightarrow> (Panic m, r'))"

definition client_header_bytes :: "ClientMessageHeader \<Rightarrow> bytes" where
  "client_header_bytes h =
     le_bytes 2 (cmh_Length h) @ le_bytes 2 (cmh_MessageID h) @ le_bytes 4 (cmh_ServerID h)"

definition WriteClientMessageHeader :: "'w wr \<Rightarrow> 'w \<Rightarrow> ClientMessageHeader \<Rightarrow> go_error option \<times> 'w" where
  "WriteClientMessageHeader wr w h = wr w (client_header_bytes h)"

definition ExtractServerIDInfo :: "32 word \<Rightarrow> bool \<times> 16 word \<times> 8 word \<times> 8 word" where
  "ExtractServerIDInfo serverID =
     ((serverID AND 0x80000000) \<noteq> 0,
      ucast (drop_bit 16 serverID AND 0x7FFF),
      ucast (drop_bit 8 serverID AND 0xFF),
      ucast (serverID AND 0xFF))"

record ServerMessageHeader =
  smh_Length :: "32 word"
  smh_Type :: "32 word"
  smh_ServerID :: "32 word"
  smh_ObjectID :: "64 word"

text \<open>Four writes in sequence; the first that fails ends the call.\<close>

primrec write_all :: "'w wr \<Rightarrow> 'w \<Rightarrow> bytes list \<Rightarrow> go_error option \<times> 'w" where
  "write_all wr w [] = (None, w)"
| "write_all wr w (p # ps) =
     (case wr w p of (None, w') \<Rightarrow> write_all wr w' ps | (Some e, w') \<Rightarrow> (Some e, w'))"

definition WriteServerMessageHeader :: "'w wr \<Rightarrow> 'w \<Rightarrow> ServerMessageHeader \<Rightarrow> go_error option \<times> 'w" where
  "WriteServerMessageHeader wr w h =
     write_all wr w [le_bytes 4 (smh_Length h), le_bytes 4 (smh_Type h),
                     le_bytes 4 (smh_ServerID h), le_bytes 8 (smh_ObjectID h)]"

record GateMsgHeader =
  gmh_OpCode :: byte
  gmh_SessionID :: "64 word"
  gmh_TraceID :: bytes   \<comment> \<open>16 bytes\<close>
  gmh_SpanID :: bytes    \<comment> \<open>8 bytes\<close>

definition HasTraceContext :: "GateMsgHeader \<Rightarrow> bool" where
  "HasTraceContext h = list_ex (\<lambda>b. b \<noteq> 0) (gmh_TraceID h)"

definition WriteGateMsgHeader :: "'w wr \<Rightarrow> 'w \<Rightarrow> GateMsgHeader \<Rightarrow> go_error option \<times> 'w" where
  "WriteGateMsgHeader wr w h =
     write_all wr w
       ([[gmh_OpCode h], le_bytes 8 (gmh_SessionID h)] @
        (if HasTraceContext h then [gmh_TraceID h, gmh_SpanID h] else []))"

section \<open>Reading a client packet\<close>

definition tooLarge :: "16 word \<Rightarrow> int \<Rightarrow> go_error" where
  "tooLarge len maxMessageSize =
     Errorf (''message size exceeds maximum allowed: '' @ dec_nat (unat len) @ '' bytes (max: '' @
             dec_int maxMessageSize @ '')'') (Some ErrMessageTooLarge)"

text \<open>
  Reading into a fresh or a pooled buffer.  \<open>pooled\<close> is the capacity of the pooled buffer
  the slice was cut from; cutting past its capacity panics.
\<close>

definition read_into ::
  "'r rd \<Rightarrow> 'r \<Rightarrow> nat \<Rightarrow> nat option \<Rightarrow> buffer_pool \<Rightarrow> slice res \<times> 'r \<times> buffer_pool" where
  "read_into rd r n pooled p =
     (case pooled of
        Some c \<Rightarrow>
          if c < n then (Panic ''slice bounds out of range'', r, p)
          else (case ReadFull rd r n of
              (Ok bs, r') \<Rightarrow> (Ok \<lparr>sl_data = bs, sl_cap = c\<rparr>, r', p)
            | (Err e, r') \<Rightarrow> (Err e, r', buffer_Put c p)
            | (Panic m, r') \<Rightarrow> (Panic m, r', p))
      | None \<Rightarrow>
          (case ReadFull rd r n of
              (Ok bs, r') \<Rightarrow> (Ok \<lparr>sl_data = bs, sl_cap = n\<rparr>, r', p)
            | (Err e, r') \<Rightarrow> (Err e, r', p)
            | (Panic m, r') \<Rightarrow> (Panic m, r', p)))"

definition ReadFullPacket ::
  "'r rd \<Rightarrow> 'r \<Rightarrow> int \<Rightarrow> nat \<Rightarrow> buffer_pool \<Rightarrow>
     (ClientMessageHeader \<times> slice option) res \<times> 'r \<times> buffer_pool" where
  "ReadFullPacket rd r maxMessageSize i p =
     (case ParseClientMessageHeader rd r of
        (Err e, r') \<Rightarrow> (Err e, r', p)
      | (Panic m, r') \<Rightarrow> (Panic m, r', p)
      | (Ok header, r') \<Rightarrow>
          let n = unat (cmh_Length header) in
          if 0 < maxMessageSize \<and> maxMessageSize < int n
          then (Err (tooLarge (cmh_Length header) maxMessageSize), r', p)
          else if n = 0 then (Ok (header, None), r', p)
          else
            let (pooled, p') =
              (if n \<le> buffer_size then (case buffer_Get i p of (c, q) \<Rightarrow> (Some c, q)) else (None, p))
            in (case read_into rd r' n pooled p' of
                  (Ok data, r'', p'') \<Rightarrow> (Ok (header, Some data), r'', p'')
                | (Err e, r'', p'') \<Rightarrow> (Err e, r'', p'')
                | (Panic m, r'', p'') \<Rightarrow> (Panic m, r'', p'')))"

section \<open>Writing a message to the backend\<close>

text \<open>\<open>hex.DecodeString\<close>: pairs of hexadecimal digits, an error for anything else.\<close>

definition hex_digit :: "char \<Rightarrow> byte option" where
  "hex_digit c =
     (let n = of_char c :: nat in
      if 48 \<le> n \<and> n \<le> 57 then Some (of_nat (n - 48))
      else if 97 \<le> n \<and> n \<le> 102 then Some (of_nat (n - 87))
      else if 65 \<le> n \<and> n \<le> 70 then Some (of_nat (n - 55))
      else None)"

fun hex_DecodeString :: "string \<Rightarrow> bytes option" where
  "hex_DecodeString [] = Some []"
| "hex_DecodeString [_] = None"
| "hex_DecodeString (a # b # s) =
     (case (hex_digit a, hex_digit b, hex_DecodeString s) of
        (Some x, Some y, Some bs) \<Rightarrow> Some ((push_bit 4 x OR y) # bs)
      | _ \<Rightarrow> None)"

type_synonym trace_map = "(string, string) gomap"

text \<open>
  The id stored under \<open>k\<close>, when it is present, of the given length in hex digits and
  well-formed; otherwise the array keeps its zeros.
\<close>

definition trace_field :: "trace_map \<Rightarrow> string \<Rightarrow> nat \<Rightarrow> bytes" where
  "trace_field tc k sz =
     (case gomap_get tc k of
        None \<Rightarrow> replicate sz 0
      | Some s \<Rightarrow>
          if s \<noteq> [] \<and> length s = 2 * sz then
            (case hex_DecodeString s of
               Some decoded \<Rightarrow> if length decoded = sz then decoded else replicate sz 0
             | None \<Rightarrow> replicate sz 0)
          else replicate sz 0)"

definition gate_header :: "64 word \<Rightarrow> trace_map option list \<Rightarrow> GateMsgHeader" where
  "gate_header sessionID traceContext =
     (case traceContext of
        Some tc # _ \<Rightarrow>
          \<lparr>gmh_OpCode = 1, gmh_SessionID = sessionID,
           gmh_TraceID = trace_field tc ''trace_id'' 16, gmh_SpanID = trace_field tc ''span_id'' 8\<rparr>
      | _ \<Rightarrow>
          \<lparr>gmh_OpCode = 1, gmh_SessionID = sessionID,
           gmh_TraceID = replicate 16 0, gmh_SpanID = replicate 8 0\<rparr>)"

definition WriteServerMessage ::
  "'w wr \<Rightarrow> 'w \<Rightarrow> 32 word \<Rightarrow> 64 word \<Rightarrow> bytes \<Rightarrow> trace_map option list \<Rightarrow> go_error option \<times> 'w" where
  "WriteServerMessage wr w messageType sessionID messageData traceContext =
     (let gateHeader = gate_header sessionID traceContext;
          headerSize = (if HasTraceContext gateHeader then GateMsgHeaderExtendedSize else GateMsgHeaderSize);
          totalLength = headerSize + length messageData;
          serverHeader = \<lparr>smh_Length = of_nat totalLength, smh_Type = messageType,
                          smh_ServerID = 0, smh_ObjectID = sessionID\<rparr>
      in case WriteServerMessageHeader wr w serverHeader of
           (Some e, w') \<Rightarrow> (Some e, w')
         | (None, w') \<Rightarrow>
             (case WriteGateMsgHeader wr w' gateHeader of
                (Some e, w'') \<Rightarrow> (Some e, w'')
              | (None, w'') \<Rightarrow>
                  if messageData \<noteq> [] then wr w'' messageData else (None, w'')))"

section \<open>Reading messages of the backend\<close>

definition ReadServerMessageHeader :: "'r rd \<Rightarrow> 'r \<Rightarrow> ServerMessageHeader res \<times> 'r" where
  "ReadServerMessageHeader rd r =
     (case ReadFull rd r ServerMessageHeaderSize of
        (Ok buf, r') \<Rightarrow>
          (Ok \<lparr>smh_Length = le_word (take 4 buf), smh_Type = le_word (take 4 (drop 4 buf)),
               smh_ServerID = le_word (take 4 (drop 8 buf)),
               smh_ObjectID = le_word (take 8 (drop 12 buf))\<rparr>, r')
      | (Err e, r') \<Rightarrow> (Err e, r')
      | (Panic m, r') \<Rightarrow> (Panic m, r'))"

definition ReadGateMsgHeader :: "'r rd \<Rightarrow> 'r \<Rightarrow> GateMsgHeader res \<times> 'r" where
  "ReadGateMsgHeader rd r =
     (case ReadFull rd r GateMsgHeaderSize of
        (Ok buf, r') \<Rightarrow>
          (Ok \<lparr>gmh_OpCode = hd buf, gmh_SessionID = le_word (take 8 (drop 1 buf)),
               gmh_TraceID = replicate 16 0, gmh_SpanID = replicate 8 0\<rparr>, r')
      | (Err e, r') \<Rightarrow> (Err e, r')
      | (Panic m, r') \<Rightarrow> (Panic m, r'))"

definition ReadGateMsgHeaderExtended :: "'r rd \<Rightarrow> 'r \<Rightarrow> GateMsgHeader res \<times> 'r" where
  "ReadGateMsgHeaderExtended rd r =
     (case ReadFull rd r GateMsgHeaderExtendedSize of
        (Ok buf, r') \<Rightarrow>
          (Ok \<lparr>gmh_OpCode = hd buf, gmh_SessionID = le_word (take 8 (drop 1 buf)),
               gmh_TraceID = take 16 (drop 9 buf), gmh_SpanID = take 8 (drop 25 buf)\<rparr>, r')
      | (Err e, r') \<Rightarrow> (Err e, r')
      | (Panic m, r') \<Rightarrow> (Panic m, r'))"

section \<open>Reference functions\<close>

text \<open>The packet at the front of a byte stream, as a function of the bytes alone.\<close>

definition parse_packet ::
  "int \<Rightarrow> bytes \<Rightarrow> stop \<Rightarrow> (ClientMessageHeader \<times> bytes) res" where
  "parse_packet maxMessageSize s ending =
     (if length s < 8 then short_read s ending
      else let h = decode_client_header (take 8 s); n = unat (cmh_Length h); body = drop 8 s in
        if 0 < maxMessageSize \<and> maxMessageSize < int n then Err (tooLarge (cmh_Length h) maxMessageSize)
        else if length body < n then short_read body ending
        else Ok (h, take n body))"

text \<open>The payload of a slice that may be nil.\<close>

definition payload :: "slice option \<Rightarrow> bytes" where
  "payload s = (case s of None \<Rightarrow> [] | Some d \<Rightarrow> sl_data d)"

text \<open>What a backend sees for one message: server header, gate header, data.\<close>

definition server_message_bytes :: "32 word \<Rightarrow> GateMsgHeader \<Rightarrow> bytes \<Rightarrow> bytes" where
  "server_message_bytes messageType g messageData =
     (let gb = gmh_OpCode g # le_bytes 8 (gmh_SessionID g) @
                 (if HasTraceContext g then gmh_TraceID g @ gmh_SpanID g else [])
      in le_bytes 4 (of_nat (length gb + length messageData) :: 32 word) @ le_bytes 4 messageType @
         le_bytes 4 (0 :: 32 word) @ le_bytes 8 (gmh_SessionID g) @ gb @ messageData)"

text \<open>The server id with the given parts: \<open>worldId.serverType.instID\<close> and the zip flag.\<close>

definition make_server_id :: "bool \<Rightarrow> 16 word \<Rightarrow> 8 word \<Rightarrow> 8 word \<Rightarrow> 32 word" where
  "make_server_id isZip worldID serverType instID =
     (if isZip then 0x80000000 else 0) OR push_bit 16 (ucast worldID) OR
     push_bit 8 (ucast serverType) OR ucast instID"

section \<open>Reading over any reader\<close>

lemma decode_client_header_bytes [simp]:
  "decode_client_header (client_header_bytes h @ rest) = h"
  by (simp add: decode_client_header_def client_header_bytes_def)

lemma decode_client_header_bytes' [simp]: "decode_client_header (client_header_bytes h) = h"
  using decode_client_header_bytes [of h "[]"] by simp

lemma length_client_header_bytes [simp]: "length (client_header_bytes h) = 8"
  by (simp add: client_header_bytes_def)

lemma client_header_bytes_decode:
  assumes "length buf = 8"
  shows "client_header_bytes (decode_client_header buf) = buf"
proof -
  have "take 2 buf @ take 2 (drop 2 buf) @ take 4 (drop 4 buf) = buf"
  proof -
    have "take 4 (drop 4 buf) = drop 4 buf" using assms by simp
    moreover have "take 2 (drop 2 buf) @ drop 4 buf = drop 2 buf"
      by (metis append_take_drop_id drop_drop numeral_Bit0)
    ultimately show ?thesis by simp
  qed
  then show ?thesis
    using assms by (simp add: client_header_bytes_def decode_client_header_def)
qed

context byte_reader
begin

text \<open>The outcome of reading a packet is a function of the stream alone.\<close>

lemma ParseClientMessageHeader_ok:
  assumes "8 \<le> length (content r)"
  shows "\<exists>r'. ParseClientMessageHeader rd r = (Ok (decode_client_header (take 8 (content r))), r') \<and>
     content r' = drop 8 (content r) \<and> ending r' = ending r"
  using ReadFull_ok [OF assms] by (auto simp: ParseClientMessageHeader_def)

lemma ParseClientMessageHeader_short:
  assumes "length (content r) < 8"
  shows "\<exists>r'. ParseClientMessageHeader rd r =
     (short_read (content r) (ending r), r')"
  using ReadFull_short [OF assms] by (cases "ending r") (auto simp: ParseClientMessageHeader_def)

lemma read_into_ok:
  assumes "n \<le> length (content r)" and "pred_option ((\<le>) n) pooled"
  shows "\<exists>c r'. read_into rd r n pooled p = (Ok \<lparr>sl_data = take n (content r), sl_cap = c\<rparr>, r', p) \<and>
     content r' = drop n (content r) \<and> ending r' = ending r"
  using ReadFull_ok [OF assms(1)] assms(2)
  by (cases pooled) (fastforce simp: read_into_def)+

lemma read_into_short:
  assumes "length (content r) < n" and "pred_option ((\<le>) n) pooled" and "pool_ok p"
  shows "\<exists>r' p'. read_into rd r n pooled p =
     (short_read (content r) (ending r), r', p') \<and> pool_ok p'"
  using ReadFull_short [OF assms(1)] assms(2,3)
  by (cases pooled; cases "ending r") (fastforce simp: read_into_def)+

lemma ReadFullPacket_ok:
  assumes parse: "parse_packet maxMessageSize (content r) (ending r) = Ok (h, body)"
    and pool: "pool_ok p"
  shows "\<exists>d r' p'. ReadFullPacket rd r maxMessageSize i p = (Ok (h, d), r', p') \<and>
     payload d = body \<and> content r = client_header_bytes h @ body @ content r' \<and>
     ending r' = ending r \<and> pool_ok p'"
proof -
  let ?s = "content r" let ?h = "decode_client_header (take 8 ?s)" let ?n = "unat (cmh_Length ?h)"
  from parse have len: "8 \<le> length ?s" and h: "h = ?h" and body: "body = take ?n (drop 8 ?s)"
    and enough: "?n \<le> length (drop 8 ?s)" and fits: "\<not> (0 < maxMessageSize \<and> maxMessageSize < int ?n)"
    by (auto simp: parse_packet_def Let_def split: if_splits)
  from ParseClientMessageHeader_ok [OF len] obtain r1 where
    r1: "ParseClientMessageHeader rd r = (Ok ?h, r1)" "content r1 = drop 8 ?s" "ending r1 = ending r"
    by blast
  have hb: "client_header_bytes ?h = take 8 ?s" using len by (simp add: client_header_bytes_decode)
  define g where "g = (if ?n \<le> buffer_size then (case buffer_Get i p of (c, q) \<Rightarrow> (Some c, q)) else (None, p))"
  obtain pooled q where g: "g = (pooled, q)" by (cases g)
  have q: "pool_ok q" "pred_option ((\<le>) ?n) pooled"
    using g pool buffer_Get_cap [OF pool, of i]
    by (auto simp: g_def split: if_splits prod.splits)
  have enough1: "?n \<le> length (content r1)" using enough r1(2) by simp
  from read_into_ok [OF enough1 q(2), where p = q] obtain c r2 where
    r2: "read_into rd r1 ?n pooled q = (Ok \<lparr>sl_data = body, sl_cap = c\<rparr>, r2, q)"
      "content r2 = drop ?n (drop 8 ?s)" "ending r2 = ending r"
    using r1(2,3) body by auto
  show ?thesis
  proof (cases "?n = 0")
    case True
    have "body = []" using True body by simp
    moreover have "content r = client_header_bytes h @ content r1"
      using hb h r1(2) by (simp only: append_take_drop_id)
    moreover have "ReadFullPacket rd r maxMessageSize i p = (Ok (h, None), r1, p)"
      using True r1(1) fits h by (simp add: ReadFullPacket_def Let_def)
    ultimately show ?thesis using r1(3) pool by (simp add: payload_def)
  next
    case False
    have "content r = client_header_bytes h @ body @ content r2"
      using hb h body r2(2) by (simp only: append_take_drop_id)
    moreover have "ReadFullPacket rd r maxMessageSize i p = (Ok (h, Some \<lparr>sl_data = body, sl_cap = c\<rparr>), r2, q)"
      using False r1(1) fits h r2(1) by (simp add: ReadFullPacket_def Let_def g_def [symmetric] g)
    ultimately show ?thesis using r2(3) q(1) by (simp add: payload_def)
  qed
qed

lemma ReadFullPacket_fail:
  assumes parse: "\<not> is_ok (parse_packet maxMessageSize (content r) (ending r))"
    and pool: "pool_ok p"
  shows "\<exists>r' p' res. ReadFullPacket rd r maxMessageSize i p = (res, r', p') \<and> pool_ok p' \<and>
     (case parse_packet maxMessageSize (content r) (ending r) of
        Ok _ \<Rightarrow> False | Err e \<Rightarrow> res = Err e | Panic m \<Rightarrow> res = Panic m)"
proof (cases "length (content r) < 8")
  case True
  from ParseClientMessageHeader_short [OF True] True pool show ?thesis
    by (cases "ending r") (auto simp: ReadFullPacket_def parse_packet_def)
next
  case False
  let ?s = "content r" let ?h = "decode_client_header (take 8 ?s)" let ?n = "unat (cmh_Length ?h)"
  from False obtain r1 where
    r1: "ParseClientMessageHeader rd r = (Ok ?h, r1)" "content r1 = drop 8 ?s" "ending r1 = ending r"
    using ParseClientMessageHeader_ok [of r] by auto
  show ?thesis
  proof (cases "0 < maxMessageSize \<and> maxMessageSize < int ?n")
    case True
    with r1 False pool show ?thesis
      by (auto simp: ReadFullPacket_def parse_packet_def Let_def)
  next
    case fits: False
    with parse False have short: "length (content r1) < ?n"
      using r1(2) by (auto simp: parse_packet_def Let_def split: if_splits)
    define g where "g = (if ?n \<le> buffer_size then (case buffer_Get i p of (c, q) \<Rightarrow> (Some c, q)) else (None, p))"
    obtain pooled q where g: "g = (pooled, q)" by (cases g)
    have q: "pool_ok q" "pred_option ((\<le>) ?n) pooled"
      using g pool buffer_Get_cap [OF pool, of i]
      by (auto simp: g_def split: if_splits prod.splits)
    from read_into_short [OF short q(2) q(1)] obtain r2 p2 where
      r2: "read_into rd r1 ?n pooled q = (short_read (content r1) (ending r), r2, p2)" "pool_ok p2"
      using r1(3) by auto
    have "?n \<noteq> 0" using short by auto
    then have "ReadFullPacket rd r maxMessageSize i p = (short_read (content r1) (ending r), r2, p2)"
      using r1(1) fits r2(1)
      by (cases "0 < maxMessageSize"; cases "ending r") (simp_all add: ReadFullPacket_def Let_def g_def [symmetric] g)
    moreover have "parse_packet maxMessageSize ?s (ending r) = short_read (content r1) (ending r)"
      using fits False short r1(2) by (cases "0 < maxMessageSize") (simp_all add: parse_packet_def Let_def)
    ultimately show ?thesis using r2(2) by (cases "ending r") auto
  qed
qed

text \<open>Both outcomes in one statement, for the properties.\<close>

lemma ReadFullPacket_refines:
  assumes pool: "pool_ok p"
  shows "\<exists>res r' p'. ReadFullPacket rd r maxMessageSize i p = (res, r', p') \<and> pool_ok p' \<and>
     (case parse_packet maxMessageSize (content r) (ending r) of
        Ok (h, body) \<Rightarrow> \<exists>d. res = Ok (h, d) \<and> payload d = body \<and>
          content r = client_header_bytes h @ body @ content r' \<and> ending r' = ending r
      | Err e \<Rightarrow> res = Err e
      | Panic m \<Rightarrow> res = Panic m)"
proof (cases "parse_packet maxMessageSize (content r) (ending r)")
  case (Ok hb)
  obtain h body where hb: "hb = (h, body)" by (cases hb)
  with Ok have "parse_packet maxMessageSize (content r) (ending r) = Ok (h, body)" by simp
  from ReadFullPacket_ok [OF this pool, of i] Ok hb show ?thesis
    by (elim exE conjE) (intro exI conjI, assumption+, simp)
next
  case (Err e)
  with ReadFullPacket_fail [OF _ pool, of maxMessageSize r i] show ?thesis by auto
next
  case (Panic m)
  with ReadFullPacket_fail [OF _ pool, of maxMessageSize r i] show ?thesis by auto
qed

end

section \<open>Reading a message of the other side\<close>

lemma sint_of_nat_32: "n < 2 ^ 31 \<Longrightarrow> sint (of_nat n :: 32 word) = int n"
  by (simp add: signed_of_nat signed_take_bit_int_eq_self)

context byte_reader
begin

lemma ReadFull_prefix:
  assumes "content r = xs @ rest" and "length xs = n"
  shows "\<exists>r'. ReadFull rd r n = (Ok xs, r') \<and> content r' = rest \<and> ending r' = ending r"
  using ReadFull_ok [of n r] assms by simp

lemma ReadServerMessageHeader_bytes:
  assumes "content r = le_bytes 4 l @ le_bytes 4 t @ le_bytes 4 s @ le_bytes 8 ob @ rest"
  shows "\<exists>r'. ReadServerMessageHeader rd r =
     (Ok \<lparr>smh_Length = l, smh_Type = t, smh_ServerID = s, smh_ObjectID = ob\<rparr>, r') \<and>
     content r' = rest \<and> ending r' = ending r"
proof -
  have "content r = (le_bytes 4 l @ le_bytes 4 t @ le_bytes 4 s @ le_bytes 8 ob) @ rest"
    using assms by simp
  from ReadFull_prefix [OF this, of 20] show ?thesis
    by (auto simp: ReadServerMessageHeader_def)
qed

lemma ReadGateMsgHeader_bytes:
  assumes "content r = b # le_bytes 8 sid @ rest"
  shows "\<exists>r'. ReadGateMsgHeader rd r =
     (Ok \<lparr>gmh_OpCode = b, gmh_SessionID = sid, gmh_TraceID = replicate 16 0, gmh_SpanID = replicate 8 0\<rparr>, r') \<and>
     content r' = rest \<and> ending r' = ending r"
proof -
  have "content r = (b # le_bytes 8 sid) @ rest" using assms by simp
  from ReadFull_prefix [OF this, of 9] show ?thesis
    by (auto simp: ReadGateMsgHeader_def)
qed

lemma ReadGateMsgHeaderExtended_bytes:
  assumes "content r = b # le_bytes 8 sid @ tid @ span @ rest" and "length tid = 16" and "length span = 8"
  shows "\<exists>r'. ReadGateMsgHeaderExtended rd r =
     (Ok \<lparr>gmh_OpCode = b, gmh_SessionID = sid, gmh_TraceID = tid, gmh_SpanID = span\<rparr>, r') \<and>
     content r' = rest \<and> ending r' = ending r"
proof -
  have "content r = (b # le_bytes 8 sid @ tid @ span) @ rest" using assms by simp
  from ReadFull_prefix [OF this, of 33] assms(2,3) show ?thesis
    by (auto simp: ReadGateMsgHeaderExtended_def)
qed

lemma server_message_read:
  assumes c: "content r = server_message_bytes t g d @ rest"
    and len: "length (gmh_TraceID g) = 16" "length (gmh_SpanID g) = 8"
    and small: "length d < 2 ^ 31 - 33"
  shows "\<exists>r1 r2 h. ReadServerMessageHeader rd r = (Ok h, r1) \<and>
     smh_Type h = t \<and> smh_ServerID h = 0 \<and> smh_ObjectID h = gmh_SessionID g \<and>
     (if HasTraceContext g
      then ReadGateMsgHeaderExtended rd r1 = (Ok g, r2) \<and> sint (smh_Length h) = 33 + int (length d)
      else ReadGateMsgHeader rd r1 =
          (Ok (g\<lparr>gmh_TraceID := replicate 16 0, gmh_SpanID := replicate 8 0\<rparr>), r2) \<and>
        sint (smh_Length h) = 9 + int (length d)) \<and>
     content r2 = d @ rest"
proof -
  obtain op sid tid sp where g: "g = \<lparr>gmh_OpCode = op, gmh_SessionID = sid, gmh_TraceID = tid, gmh_SpanID = sp\<rparr>"
    by (cases g)
  let ?n = "if HasTraceContext g then 33 else 9 :: nat"
  have n: "sint (of_nat (?n + length d) :: 32 word) = int ?n + int (length d)"
    using small by (subst sint_of_nat_32) auto
  have "content r = le_bytes 4 (of_nat (?n + length d) :: 32 word) @ le_bytes 4 t @ le_bytes 4 (0 :: 32 word) @
      le_bytes 8 sid @ op # le_bytes 8 sid @ (if HasTraceContext g then tid @ sp else []) @ d @ rest"
    using c len by (simp add: server_message_bytes_def Let_def g)
  from ReadServerMessageHeader_bytes [OF this] obtain r1 where
    r1: "ReadServerMessageHeader rd r = (Ok \<lparr>smh_Length = of_nat (?n + length d), smh_Type = t,
        smh_ServerID = 0, smh_ObjectID = sid\<rparr>, r1)"
      "content r1 = op # le_bytes 8 sid @ (if HasTraceContext g then tid @ sp else []) @ d @ rest" by blast
  show ?thesis
  proof (cases "HasTraceContext g")
    case True
    with r1(2) len obtain r2 where "ReadGateMsgHeaderExtended rd r1 = (Ok g, r2)" "content r2 = d @ rest"
      using ReadGateMsgHeaderExtended_bytes [of r1 op sid tid sp "d @ rest"] g by auto
    with True r1(1) n show ?thesis by (auto simp: g)
  next
    case False
    with r1(2) obtain r2 where "ReadGateMsgHeader rd r1 =
        (Ok (g\<lparr>gmh_TraceID := replicate 16 0, gmh_SpanID := replicate 8 0\<rparr>), r2)" "content r2 = d @ rest"
      using ReadGateMsgHeader_bytes [of r1 op sid "d @ rest"] g by auto
    with False r1(1) n show ?thesis by (auto simp: g)
  qed
qed

end

section \<open>Writing over any writer\<close>

lemma write_all_append:
  "write_all wr w (xs @ ys) =
     (case write_all wr w xs of (None, w') \<Rightarrow> write_all wr w' ys | (Some e, w') \<Rightarrow> (Some e, w'))"
  by (induction xs arbitrary: w) (auto split: prod.splits option.splits)

lemma trace_field_length [simp]: "length (trace_field tc k n) = n"
  by (simp add: trace_field_def split: option.splits)

lemma gate_header_simps [simp]:
  "gmh_OpCode (gate_header sid tcs) = 1" "gmh_SessionID (gate_header sid tcs) = sid"
  "length (gmh_TraceID (gate_header sid tcs)) = 16" "length (gmh_SpanID (gate_header sid tcs)) = 8"
  by (simp_all add: gate_header_def split: list.splits option.splits)

text \<open>The pieces \<open>WriteServerMessage\<close> writes, in order.\<close>

definition server_message_pieces :: "32 word \<Rightarrow> GateMsgHeader \<Rightarrow> bytes \<Rightarrow> bytes list" where
  "server_message_pieces messageType g d =
     [le_bytes 4 (of_nat ((if HasTraceContext g then 33 else 9) + length d) :: 32 word),
      le_bytes 4 messageType, le_bytes 4 (0 :: 32 word), le_bytes 8 (gmh_SessionID g),
      [gmh_OpCode g], le_bytes 8 (gmh_SessionID g)] @
     (if HasTraceContext g then [gmh_TraceID g, gmh_SpanID g] else []) @ (if d \<noteq> [] then [d] else [])"

lemma WriteServerMessage_pieces:
  "WriteServerMessage wr w messageType sid d tcs =
     write_all wr w (server_message_pieces messageType (gate_header sid tcs) d)"
  by (auto simp: WriteServerMessage_def WriteServerMessageHeader_def WriteGateMsgHeader_def Let_def
      server_message_pieces_def write_all_append split: prod.splits option.splits)

lemma concat_server_message_pieces:
  assumes "length (gmh_TraceID g) = 16" and "length (gmh_SpanID g) = 8"
  shows "concat (server_message_pieces messageType g d) = server_message_bytes messageType g d"
  using assms by (simp add: server_message_pieces_def server_message_bytes_def Let_def)

context byte_writer
begin

lemma write_all_ok: "write_all wr w ps = (None, w') \<Longrightarrow> sent w' = sent w @ concat ps"
  by (induction ps arbitrary: w) (auto dest: write_ok split: prod.splits option.splits)

lemma write_all_err:
  "write_all wr w ps = (Some e, w') \<Longrightarrow> \<exists>q. prefix q (concat ps) \<and> sent w' = sent w @ q"
proof (induction ps arbitrary: w)
  case Nil
  then show ?case by simp
next
  case (Cons p ps)
  show ?case
  proof (cases "wr w p")
    case (Pair err w1)
    show ?thesis
    proof (cases err)
      case None
      with Pair have w1: "sent w1 = sent w @ p" by (auto dest: write_ok)
      from None Pair Cons.prems have "write_all wr w1 ps = (Some e, w')" by simp
      from Cons.IH [OF this] w1 show ?thesis
        by (auto intro: exI [of _ "p @ _"])
    next
      case (Some e')
      with Pair Cons.prems write_err [of w p e' w1] show ?thesis
        by (auto intro: prefix_prefix)
    qed
  qed
qed

lemma WriteServerMessage_ok:
  "WriteServerMessage wr w messageType sid d tcs = (None, w') \<Longrightarrow>
     sent w' = sent w @ server_message_bytes messageType (gate_header sid tcs) d"
  by (auto simp: WriteServerMessage_pieces concat_server_message_pieces dest!: write_all_ok)

lemma WriteServerMessage_err:
  "WriteServerMessage wr w messageType sid d tcs = (Some e, w') \<Longrightarrow>
     \<exists>q. prefix q (server_message_bytes messageType (gate_header sid tcs) d) \<and> sent w' = sent w @ q"
  by (auto simp: WriteServerMessage_pieces concat_server_message_pieces dest!: write_all_err)

end

section \<open>The bits of a server id\<close>

lemma bit_top: "bit (0x80000000 :: int) n \<longleftrightarrow> n = 31"
proof -
  have "(0x80000000 :: int) = 2 ^ 31" by simp
  then show ?thesis by (simp only: bit_exp_iff) auto
qed

lemma bit_make_server_id:
  "bit (make_server_id z w t i) n \<longleftrightarrow>
     n < 32 \<and> (n = 31 \<and> z \<or> 16 \<le> n \<and> bit w (n - 16) \<or> 8 \<le> n \<and> bit t (n - 8) \<or> bit i n)"
  unfolding make_server_id_def
  by (cases z) (auto simp: bit_top bit_or_iff bit_push_bit_iff bit_unsigned_iff dest: bit_imp_le_length)

lemma top_bit_test: "(s AND 0x80000000 :: 32 word) \<noteq> 0 \<longleftrightarrow> bit s 31"
proof -
  have "s AND 0x80000000 = (if bit s 31 then 0x80000000 else 0)"
    by (rule bit_word_eqI) (auto simp: bit_and_iff bit_top)
  then show ?thesis by simp
qed

lemma mask15: "(0x7FFF :: 32 word) = mask 15" by (simp add: mask_eq_exp_minus_1)

lemma mask8: "(0xFF :: 32 word) = mask 8" by (simp add: mask_eq_exp_minus_1)

lemma ExtractServerIDInfo_parts:
  "ExtractServerIDInfo s = (bit s 31, ucast (take_bit 15 (drop_bit 16 s)), ucast (drop_bit 8 s), ucast s)"
  unfolding ExtractServerIDInfo_def top_bit_test mask15 mask8
  by (auto intro!: bit_word_eqI simp: bit_and_iff bit_mask_iff bit_unsigned_iff bit_take_bit_iff bit_drop_bit_eq)

lemma small_world: "unat (w :: 16 word) < 2 ^ 15 \<longleftrightarrow> \<not> bit w 15"
proof -
  have "unat w < 2 ^ 16" using unsigned_less [of w] by simp
  then have q: "unat w div 2 ^ 15 = 0 \<or> unat w div 2 ^ 15 = 1" by auto
  have "bit w 15 \<longleftrightarrow> odd (unat w div 2 ^ 15)"
    using bit_unsigned_iff [of w 15, where ?'a = nat] by (simp add: bit_iff_odd [of "unat w"])
  moreover have "unat w < 2 ^ 15 \<longleftrightarrow> unat w div 2 ^ 15 = 0" by (simp add: div_eq_0_iff)
  ultimately show ?thesis using q by auto
qed

section \<open>Properties\<close>

text \<open>
  C5. Whatever way the peer's bytes are cut into segments, and whichever pooled buffer is
  used, reading one packet through the buffered connection gives exactly the packet that
  stands at the front of the byte stream: the same header, the same body, the stream
  advanced past it; a stream that is too short or a declared length over the limit gives
  the error of the reference parser; no run panics and the buffer pool stays well formed.
\<close>

theorem ReadFullPacket_spec:
  assumes "pool_ok p"
  shows "\<exists>res r' p'. ReadFullPacket (bufio_Read conn_Read) r maxMessageSize i p = (res, r', p') \<and>
     pool_ok p' \<and>
     (case parse_packet maxMessageSize (bf_buf r @ conn_content (bf_rd r)) (conn_ending (bf_rd r)) of
        Ok (h, body) \<Rightarrow> \<exists>d. res = Ok (h, d) \<and> payload d = body \<and>
          bf_buf r @ conn_content (bf_rd r) =
            client_header_bytes h @ body @ bf_buf r' @ conn_content (bf_rd r')
      | Err e \<Rightarrow> res = Err e
      | Panic m \<Rightarrow> False)"
proof -
  let ?s = "bf_buf r @ conn_content (bf_rd r)"
  have "parse_packet maxMessageSize ?s (conn_ending (bf_rd r)) \<noteq> Panic m" for m
    by (simp add: parse_packet_def conn_ending_def Let_def)
  with sniff_rd.ReadFullPacket_refines [OF assms, of r maxMessageSize i] show ?thesis
    by (fastforce split: res.splits)
qed

text \<open>A packet of three bytes that arrives in three segments.\<close>

definition sample_conn :: conn where
  "sample_conn = \<lparr>cin = [[3, 0, 7], [0, 2, 10, 1, 0, 97], [98, 99]], cend = EOF, cout = [],
     croom = None, cclosed = False\<rparr>"

theorem ReadFullPacket_spec_witness:
  "\<exists>d r' p'. ReadFullPacket (bufio_Read conn_Read) (bufio_NewReader sample_conn) 1024 0 [] =
       (Ok (\<lparr>cmh_Length = 3, cmh_MessageID = 7, cmh_ServerID = 0x10A02\<rparr>, d), r', p') \<and>
     payload d = [97, 98, 99]"
proof -
  have ok: "pool_ok []" by simp
  have parse: "parse_packet 1024 (bf_buf (bufio_NewReader sample_conn) @ conn_content (bf_rd (bufio_NewReader sample_conn)))
      (conn_ending (bf_rd (bufio_NewReader sample_conn))) =
      Ok (\<lparr>cmh_Length = 3, cmh_MessageID = 7, cmh_ServerID = 0x10A02\<rparr>, [97, 98, 99])"
    by code_simp
  from ReadFullPacket_spec [OF ok, of "bufio_NewReader sample_conn" 1024 0] show ?thesis
    unfolding parse by auto
qed

text \<open>
  C6. A message the gateway writes to a backend without error is decoded by the backend's
  own reading routines to the same type, session and data: the server header announces
  exactly the gate header and the data that follow, the gate header is the short form
  without and the extended form with a trace id, and the data come last.
\<close>

theorem WriteServerMessage_roundtrip:
  assumes "WriteServerMessage conn_Write w messageType sid d tcs = (None, w')"
    and "length d < 2 ^ 31 - 33"
    and "conn_content c = drop (length (cout w)) (cout w') @ rest"
  shows "\<exists>c1 c2 h. ReadServerMessageHeader conn_Read c = (Ok h, c1) \<and>
     smh_Type h = messageType \<and> smh_ServerID h = 0 \<and> smh_ObjectID h = sid \<and>
     (if HasTraceContext (gate_header sid tcs)
      then ReadGateMsgHeaderExtended conn_Read c1 = (Ok (gate_header sid tcs), c2) \<and>
        sint (smh_Length h) = 33 + int (length d)
      else ReadGateMsgHeader conn_Read c1 =
          (Ok ((gate_header sid tcs)\<lparr>gmh_TraceID := replicate 16 0, gmh_SpanID := replicate 8 0\<rparr>), c2) \<and>
        sint (smh_Length h) = 9 + int (length d)) \<and>
     conn_content c2 = d @ rest"
proof -
  have "conn_content c = server_message_bytes messageType (gate_header sid tcs) d @ rest"
    using conn_wr.WriteServerMessage_ok [OF assms(1)] assms(3) by simp
  from conn_rd.server_message_read [OF this _ _ assms(2)] show ?thesis by simp
qed

text \<open>A message with a trace id, written to an open connection and read back.\<close>

definition sample_trace :: trace_map where
  "sample_trace = [(''trace_id'', ''0123456789abcdef0123456789ABCDEF''), (''span_id'', ''00000000000000ff'')]"

definition sample_backend :: conn where
  "sample_backend = \<lparr>cin = [], cend = EOF, cout = [], croom = None, cclosed = False\<rparr>"

theorem WriteServerMessage_roundtrip_witness:
  "\<exists>w' c1 c2 h. WriteServerMessage conn_Write sample_backend 7 5 [97, 98] [Some sample_trace] = (None, w') \<and>
     ReadServerMessageHeader conn_Read (sample_backend\<lparr>cin := [cout w']\<rparr>) = (Ok h, c1) \<and>
     ReadGateMsgHeaderExtended conn_Read c1 = (Ok (gate_header 5 [Some sample_trace]), c2) \<and>
     conn_content c2 = [97, 98] \<and> sint (smh_Length h) = 35"
proof -
  obtain e w' where w': "WriteServerMessage conn_Write sample_backend 7 5 [97, 98] [Some sample_trace] = (e, w')"
    by fastforce
  moreover have "fst (WriteServerMessage conn_Write sample_backend 7 5 [97, 98] [Some sample_trace]) = None"
    by code_simp
  ultimately have ok: "WriteServerMessage conn_Write sample_backend 7 5 [97, 98] [Some sample_trace] = (None, w')"
    by simp
  have tc: "HasTraceContext (gate_header 5 [Some sample_trace])" by code_simp
  have "conn_content (sample_backend\<lparr>cin := [cout w']\<rparr>) = drop (length (cout sample_backend)) (cout w') @ []"
    by (simp add: conn_content_def sample_backend_def)
  from WriteServerMessage_roundtrip [OF ok _ this] tc ok show ?thesis by auto
qed

text \<open>
  Extracting the routing fields inverts packing them: every server id is the packing
  of its own parts, and the parts of a packed id are those that were packed, provided the
  world id fits its 15 bits.
\<close>

theorem ExtractServerIDInfo_roundtrip:
  "(case ExtractServerIDInfo s of (z, w, t, i) \<Rightarrow> make_server_id z w t i = s \<and> unat w < 2 ^ 15) \<and>
   (unat w' < 2 ^ 15 \<longrightarrow> ExtractServerIDInfo (make_server_id z' w' t' i') = (z', w', t', i'))"
proof (intro conjI impI)
  have "make_server_id (bit s 31) (ucast (take_bit 15 (drop_bit 16 s))) (ucast (drop_bit 8 s)) (ucast s) = s"
  proof (rule bit_word_eqI)
    fix n assume n: "n < LENGTH(32)"
    then consider "n < 8" | "8 \<le> n" "n < 16" | "16 \<le> n" "n < 31" | "n = 31" by force
    then show "bit (make_server_id (bit s 31) (ucast (take_bit 15 (drop_bit 16 s))) (ucast (drop_bit 8 s)) (ucast s)) n = bit s n"
      by cases (auto simp: bit_make_server_id bit_unsigned_iff bit_take_bit_iff bit_drop_bit_eq)
  qed
  then show "case ExtractServerIDInfo s of (z, w, t, i) \<Rightarrow> make_server_id z w t i = s \<and> unat w < 2 ^ 15"
    unfolding ExtractServerIDInfo_parts small_world
    by (auto simp: bit_unsigned_iff bit_take_bit_iff)
next
  assume w: "unat w' < 2 ^ 15"
  have "bit (make_server_id z' w' t' i') 31 = z'"
    using w [unfolded small_world] by (auto simp: bit_make_server_id dest: bit_imp_le_length)
  moreover have "ucast (take_bit 15 (drop_bit 16 (make_server_id z' w' t' i'))) = w'"
  proof (rule bit_word_eqI)
    fix n assume "n < LENGTH(16)"
    then consider "n < 15" | "n = 15" by force
    then show "bit (ucast (take_bit 15 (drop_bit 16 (make_server_id z' w' t' i'))) :: 16 word) n = bit w' n"
      using w [unfolded small_world]
      by cases (auto simp: bit_unsigned_iff bit_take_bit_iff bit_drop_bit_eq bit_make_server_id
          dest: bit_imp_le_length)
  qed
  moreover have "ucast (drop_bit 8 (make_server_id z' w' t' i')) = t'"
    by (rule bit_word_eqI) (auto simp: bit_unsigned_iff bit_drop_bit_eq bit_make_server_id dest: bit_imp_le_length)
  moreover have "ucast (make_server_id z' w' t' i') = i'"
    by (rule bit_word_eqI) (auto simp: bit_unsigned_iff bit_make_server_id)
  ultimately show "ExtractServerIDInfo (make_server_id z' w' t' i') = (z', w', t', i')"
    unfolding ExtractServerIDInfo_parts by simp
qed

theorem ExtractServerIDInfo_roundtrip_witness:
  "ExtractServerIDInfo (make_server_id True 1 10 2) = (True, 1, 10, 2) \<and>
   make_server_id True 1 10 2 = 0x80010A02"
proof
  have "unat (1 :: 16 word) < 2 ^ 15" by simp
  with ExtractServerIDInfo_roundtrip [of 0 1 True 10 2]
  show "ExtractServerIDInfo (make_server_id True 1 10 2) = (True, 1, 10, 2)" by blast
  show "make_server_id True 1 10 2 = 0x80010A02" by (simp add: make_server_id_def)
qed

end
