(* ===== verification/WebSocket.thy ===== *)
theory WebSocket
  imports Packet
begin

text \<open>
  The WebSocket adapter of \<open>internal/protocol/websocket_conn.go\<close>: decoding of the masked
  frames of a client into a byte stream, reassembly of fragments, answers to control
  frames, and encoding of the server's frames.  Frame reading is written against any
  reader; the adapter itself owns a connection and the buffered reader of the handshake.
\<close>

section \<open>Opcodes and frames\<close>

abbreviation (input) wsOpcodeContinuation :: byte where "wsOpcodeContinuation \<equiv> 0"
abbreviation (input) wsOpcodeText :: byte where "wsOpcodeText \<equiv> 1"
abbreviation (input) wsOpcodeBinary :: byte where "wsOpcodeBinary \<equiv> 2"
abbreviation (input) wsOpcodeClose :: byte where "wsOpcodeClose \<equiv> 8"
abbreviation (input) wsOpcodePing :: byte where "wsOpcodePing \<equiv> 9"
abbreviation (input) wsOpcodePong :: byte where "wsOpcodePong \<equiv> 10"

record wsFrame =
  ws_fin :: bool
  ws_opcode :: byte
  ws_payload :: bytes

text \<open>The largest length \<open>make\<close> accepts on a 64-bit platform; beyond it, and below 0, it panics.\<close>

abbreviation maxAlloc :: int where "maxAlloc \<equiv> 2 ^ 48"

definition unmask :: "bytes \<Rightarrow> bytes \<Rightarrow> bytes" where
  "unmask key p = map (\<lambda>i. p ! i XOR key ! (i mod 4)) [0..<length p]"

section \<open>Reading a frame\<close>

text \<open>The length field: 7 bits, or 16 or 64 further bits; the last is read as a signed int.\<close>

definition readPayloadLen :: "'r rd \<Rightarrow> byte \<Rightarrow> 'r \<Rightarrow> int res \<times> 'r" where
  "readPayloadLen rd len7 r =
     (if len7 = 126 then
        rs_bind (ReadFull rd r 2) (\<lambda>buf r'. (Ok (uint (be_word buf :: 16 word)), r'))
      else if len7 = 127 then
        rs_bind (ReadFull rd r 8) (\<lambda>buf r'. (Ok (sint (be_word buf :: 64 word)), r'))
      else (Ok (uint len7), r))"

definition readFrame :: "'r rd \<Rightarrow> int \<Rightarrow> 'r \<Rightarrow> wsFrame res \<times> 'r" where
  "readFrame rd maxPayload r =
     rs_bind (ReadByte rd r) (\<lambda>h1 r1.
     rs_bind (ReadByte rd r1) (\<lambda>h2 r2.
     if (h2 AND 0x80) = 0 then (Err ErrWebSocketFrameMask, r2)
     else
       rs_bind (readPayloadLen rd (h2 AND 0x7F) r2) (\<lambda>payloadLen r3.
       if 0 < maxPayload \<and> maxPayload < payloadLen then (Err ErrMessageTooLarge, r3)
       else
         rs_bind (ReadFull rd r3 4) (\<lambda>maskKey r4.
         if payloadLen < 0 \<or> maxAlloc < payloadLen then (Panic ''makeslice: len out of range'', r4)
         else
           rs_bind (ReadFull rd r4 (nat payloadLen)) (\<lambda>payload r5.
           (Ok \<lparr>ws_fin = ((h1 AND 0x80) \<noteq> 0), ws_opcode = h1 AND 0x0F,
                ws_payload = unmask maskKey payload\<rparr>, r5))))))"

section \<open>Writing a frame\<close>

definition frame_header :: "byte \<Rightarrow> nat \<Rightarrow> bool \<Rightarrow> bytes" where
  "frame_header opcode payloadLen fin =
     (opcode OR (if fin then 0x80 else 0)) #
     (if payloadLen \<le> 125 then [of_nat payloadLen]
      else if payloadLen \<le> 65535 then 126 # be_bytes 2 (of_nat payloadLen :: 16 word)
      else 127 # be_bytes 8 (of_nat payloadLen :: 64 word))"

definition writeFrame :: "conn \<Rightarrow> byte \<Rightarrow> bytes \<Rightarrow> bool \<Rightarrow> go_error option \<times> conn" where
  "writeFrame c opcode p fin =
     (case conn_Write c (frame_header opcode (length p) fin) of
        (Some e, c') \<Rightarrow> (Some e, c')
      | (None, c') \<Rightarrow> if 0 < length p then conn_Write c' p else (None, c'))"

definition writeControlFrame :: "conn \<Rightarrow> byte \<Rightarrow> bytes \<Rightarrow> go_error option \<times> conn" where
  "writeControlFrame c opcode p = writeFrame c opcode (take 125 p) True"

section \<open>The adapter\<close>

text \<open>The buffered reader \<open>ws_reader\<close> reads the connection the adapter writes to.\<close>

record WebSocketConn =
  ws_reader :: "conn bufio"
  ws_maxPayload :: int
  ws_pending :: bytes
  ws_fragmentBuf :: bytes
  ws_closeOnce :: bool

definition NewWebSocketConn :: "conn bufio \<Rightarrow> int \<Rightarrow> WebSocketConn" where
  "NewWebSocketConn reader maxPayload =
     \<lparr>ws_reader = reader, ws_maxPayload = maxPayload, ws_pending = [], ws_fragmentBuf = [],
      ws_closeOnce = False\<rparr>"

abbreviation ws_conn :: "WebSocketConn \<Rightarrow> conn" where
  "ws_conn w \<equiv> bf_rd (ws_reader w)"

definition ws_set_conn :: "conn \<Rightarrow> WebSocketConn \<Rightarrow> WebSocketConn" where
  "ws_set_conn c w = w\<lparr>ws_reader := (ws_reader w)\<lparr>bf_rd := c\<rparr>\<rparr>"

definition ws_control :: "WebSocketConn \<Rightarrow> byte \<Rightarrow> bytes \<Rightarrow> WebSocketConn" where
  "ws_control w opcode p = ws_set_conn (snd (writeControlFrame (ws_conn w) opcode p)) w"

text \<open>The bytes of the stream under the adapter that are still to come.\<close>

definition ws_raw :: "WebSocketConn \<Rightarrow> bytes" where
  "ws_raw w = bf_buf (ws_reader w) @ conn_content (ws_conn w)"

abbreviation sniff_read :: "conn bufio rd" where "sniff_read \<equiv> bufio_Read conn_Read"

section \<open>A frame consumes bytes\<close>

context byte_reader
begin

lemma readPayloadLen_inv:
  assumes "readPayloadLen rd l r = (Ok n, r')"
  shows "\<exists>x. content r = x @ content r'"
  using assms ReadFull_inv(1) [of r]
  by (auto simp: readPayloadLen_def rs_bind_def split: if_splits prod.splits res.splits)

lemma ReadByte_inv:
  assumes "ReadByte rd r = (Ok b, r')"
  shows "content r = b # content r'" and "ending r' = ending r"
proof -
  have "content r \<noteq> []" using assms ReadByte_end [of r] by auto
  then obtain c s where "content r = c # s" by (cases "content r") auto
  with ReadByte_ok [of r] assms show "content r = b # content r'" "ending r' = ending r" by auto
qed

lemma readFrame_consumes:
  assumes "readFrame rd maxPayload r = (Ok f, r')"
  shows "length (content r') + 2 \<le> length (content r)"
proof -
  from assms obtain h1 r1 h2 r2 n r3 k r4 p where
    "ReadByte rd r = (Ok h1, r1)" "ReadByte rd r1 = (Ok h2, r2)"
    "readPayloadLen rd (h2 AND 0x7F) r2 = (Ok n, r3)"
    "ReadFull rd r3 4 = (Ok k, r4)" "ReadFull rd r4 (nat n) = (Ok p, r')"
    by (auto simp: readFrame_def rs_bind_def split: prod.splits res.splits if_splits)
  note steps = this
  from ReadByte_inv(1) [OF steps(1)] ReadByte_inv(1) [OF steps(2)]
    readPayloadLen_inv [OF steps(3)] ReadFull_inv(1) [OF steps(4)] ReadFull_inv(1) [OF steps(5)]
  show ?thesis by auto
qed

end

lemma writeFrame_conn:
  assumes "writeFrame c opcode p fin = (e, c')"
  shows "conn_content c' = conn_content c" "conn_ending c' = conn_ending c"
  using assms
  by (auto simp: writeFrame_def conn_Write_def conn_content_def conn_ending_def
      split: if_splits option.splits prod.splits)

lemma ws_control_raw [simp]: "ws_raw (ws_control w opcode p) = ws_raw w"
  using writeFrame_conn [of "ws_conn w" opcode "take 125 p" True]
  by (cases "writeFrame (ws_conn w) opcode (take 125 p) True")
    (auto simp: ws_raw_def ws_control_def ws_set_conn_def writeControlFrame_def)

section \<open>The payload stream\<close>

text \<open>
  \<open>nextDataPayload\<close>: frames are read until one completes a message.  Control frames are
  answered (best effort) and skipped, unknown opcodes ignored.
\<close>

function nextDataPayload :: "WebSocketConn \<Rightarrow> bytes res \<times> WebSocketConn" where
  "nextDataPayload w =
     (case readFrame sniff_read (ws_maxPayload w) (ws_reader w) of
        (Err e, b) \<Rightarrow> (Err e, w\<lparr>ws_reader := b\<rparr>)
      | (Panic m, b) \<Rightarrow> (Panic m, w\<lparr>ws_reader := b\<rparr>)
      | (Ok frame, b) \<Rightarrow>
          let w = w\<lparr>ws_reader := b\<rparr> in
          if ws_opcode frame = wsOpcodeBinary then
            if ws_fin frame then (Ok (ws_payload frame), w)
            else nextDataPayload (w\<lparr>ws_fragmentBuf := ws_fragmentBuf w @ ws_payload frame\<rparr>)
          else if ws_opcode frame = wsOpcodeContinuation then
            if ws_fragmentBuf w = [] then (Err ErrWebSocketFrameType, w)
            else let buf = ws_fragmentBuf w @ ws_payload frame in
              if ws_fin frame then (Ok buf, w\<lparr>ws_fragmentBuf := []\<rparr>)
              else nextDataPayload (w\<lparr>ws_fragmentBuf := buf\<rparr>)
          else if ws_opcode frame = wsOpcodePing then
            nextDataPayload (ws_control w wsOpcodePong (ws_payload frame))
          else if ws_opcode frame = wsOpcodePong then nextDataPayload w
          else if ws_opcode frame = wsOpcodeClose then
            (Err EOF, ws_control w wsOpcodeClose (ws_payload frame))
          else if ws_opcode frame = wsOpcodeText then (Err ErrWebSocketFrameType, w)
          else nextDataPayload w)"
  by pat_completeness auto

lemma readFrame_measure:
  "(Ok f, b') = readFrame sniff_read n (ws_reader w) \<Longrightarrow> length (ws_raw (w\<lparr>ws_reader := b'\<rparr>)) < length (ws_raw w)"
  using sniff_rd.readFrame_consumes [of n "ws_reader w" f b'] by (simp add: ws_raw_def)

lemma ws_raw_update [simp]: "ws_raw (w\<lparr>ws_fragmentBuf := x\<rparr>) = ws_raw w" "ws_raw (w\<lparr>ws_pending := y\<rparr>) = ws_raw w"
  by (simp_all add: ws_raw_def)

termination nextDataPayload
proof (relation "measure (length \<circ> ws_raw)")
qed (auto dest: readFrame_measure simp: Let_def)

declare nextDataPayload.simps [simp del]

section \<open>The stream a client's frames carry\<close>

text \<open>The frame at the front of a byte stream, with the rest of the stream.\<close>

definition parse_frame :: "int \<Rightarrow> bytes \<Rightarrow> stop \<Rightarrow> (wsFrame \<times> bytes) res" where
  "parse_frame maxPayload s ending =
     (case s of
        h1 # h2 # t \<Rightarrow>
          if (h2 AND 0x80) = 0 then Err ErrWebSocketFrameMask
          else
            let l = h2 AND 0x7F;
                k = (if l = 126 then 2 else if l = 127 then 8 else 0);
                n = (if l = 126 then uint (be_word (take 2 t) :: 16 word)
                     else if l = 127 then sint (be_word (take 8 t) :: 64 word) else uint l)
            in if length t < k then short_read t ending
               else if 0 < maxPayload \<and> maxPayload < n then Err ErrMessageTooLarge
               else if length (drop k t) < 4 then short_read (drop k t) ending
               else if n < 0 \<or> maxAlloc < n then Panic ''makeslice: len out of range''
               else
                 let body = drop 4 (drop k t) in
                 if length body < nat n then short_read body ending
                 else Ok (\<lparr>ws_fin = ((h1 AND 0x80) \<noteq> 0), ws_opcode = h1 AND 0x0F,
                           ws_payload = unmask (take 4 (drop k t)) (take (nat n) body)\<rparr>, drop (nat n) body)
      | _ \<Rightarrow> short_read [] ending)"

text \<open>
  Parsers in the shape of the reading code: what a sequence of reads makes of a stream, with
  the rest of it.
\<close>

type_synonym 'a parser = "bytes \<Rightarrow> stop \<Rightarrow> ('a \<times> bytes) res"

definition p_bytes :: "nat \<Rightarrow> bytes parser" where
  "p_bytes n s e = (if length s < n then short_read s e else Ok (take n s, drop n s))"

definition p_byte :: "byte parser" where
  "p_byte s e = (case s of [] \<Rightarrow> short_read [] e | b # t \<Rightarrow> Ok (b, t))"

definition p_return :: "'a res \<Rightarrow> 'a parser" where
  "p_return x s e = (case x of Ok a \<Rightarrow> Ok (a, s) | Err err \<Rightarrow> Err err | Panic m \<Rightarrow> Panic m)"

definition p_bind :: "'a parser \<Rightarrow> ('a \<Rightarrow> 'b parser) \<Rightarrow> 'b parser" where
  "p_bind p q s e = (case p s e of Ok (a, rest) \<Rightarrow> q a rest e | Err err \<Rightarrow> Err err | Panic m \<Rightarrow> Panic m)"

definition len_parser :: "byte \<Rightarrow> int parser" where
  "len_parser l =
     (if l = 126 then p_bind (p_bytes 2) (\<lambda>buf. p_return (Ok (uint (be_word buf :: 16 word))))
      else if l = 127 then p_bind (p_bytes 8) (\<lambda>buf. p_return (Ok (sint (be_word buf :: 64 word))))
      else p_return (Ok (uint l)))"

definition frame_parser :: "int \<Rightarrow> wsFrame parser" where
  "frame_parser maxPayload =
     p_bind p_byte (\<lambda>h1. p_bind p_byte (\<lambda>h2.
       if (h2 AND 0x80) = 0 then p_return (Err ErrWebSocketFrameMask)
       else p_bind (len_parser (h2 AND 0x7F)) (\<lambda>n.
         if 0 < maxPayload \<and> maxPayload < n then p_return (Err ErrMessageTooLarge)
         else p_bind (p_bytes 4) (\<lambda>key.
           if n < 0 \<or> maxAlloc < n then p_return (Panic ''makeslice: len out of range'')
           else p_bind (p_bytes (nat n)) (\<lambda>p.
             p_return (Ok \<lparr>ws_fin = ((h1 AND 0x80) \<noteq> 0), ws_opcode = h1 AND 0x0F, ws_payload = unmask key p\<rparr>))))))"

lemma short_read_case [simp]:
  "(case short_read s e of Ok x \<Rightarrow> f x | Err err \<Rightarrow> Err err | Panic m \<Rightarrow> Panic m) = short_read s e"
  by (cases e) simp_all

lemma len_parser_at:
  "p_bind (len_parser l) q s e =
     (let k = (if l = 126 then 2 else if l = 127 then 8 else 0);
          n = (if l = 126 then uint (be_word (take 2 s) :: 16 word)
               else if l = 127 then sint (be_word (take 8 s) :: 64 word) else uint l)
      in if length s < k then short_read s e else q n (drop k s) e)"
  by (simp add: len_parser_def p_bind_def p_bytes_def p_return_def Let_def)

lemma parse_frame_parser: "parse_frame maxPayload = frame_parser maxPayload"
proof (intro ext)
  fix s e
  show "parse_frame maxPayload s e = frame_parser maxPayload s e"
  proof (cases "\<exists>h1 h2 t. s = h1 # h2 # t")
    case True
    then obtain h1 h2 t where s: "s = h1 # h2 # t" by blast
    have "frame_parser maxPayload s e =
        (if (h2 AND 0x80) = 0 then Err ErrWebSocketFrameMask
         else p_bind (len_parser (h2 AND 0x7F)) (\<lambda>n.
         if 0 < maxPayload \<and> maxPayload < n then p_return (Err ErrMessageTooLarge)
         else p_bind (p_bytes 4) (\<lambda>key.
           if n < 0 \<or> maxAlloc < n then p_return (Panic ''makeslice: len out of range'')
           else p_bind (p_bytes (nat n)) (\<lambda>p.
             p_return (Ok \<lparr>ws_fin = ((h1 AND 0x80) \<noteq> 0), ws_opcode = h1 AND 0x0F, ws_payload = unmask key p\<rparr>)))) t e)"
      by (simp add: s frame_parser_def p_bind_def [of p_byte] p_byte_def p_return_def)
    then show ?thesis unfolding len_parser_at Let_def
      by (simp add: s parse_frame_def p_bind_def p_bytes_def p_return_def Let_def)
  next
    case False
    then show ?thesis by (auto simp: parse_frame_def frame_parser_def p_bind_def p_byte_def split: list.splits)
  qed
qed

context byte_reader
begin

text \<open>A read and its parser: the same result, and the reader left with the rest.\<close>

definition refines :: "'c res \<times> 'r \<Rightarrow> 'r \<Rightarrow> 'c parser \<Rightarrow> bool" where
  "refines m r p \<longleftrightarrow>
     (case p (content r) (ending r) of
        Ok (a, rest) \<Rightarrow> fst m = Ok a \<and> content (snd m) = rest \<and> ending (snd m) = ending r
      | Err err \<Rightarrow> fst m = Err err
      | Panic s \<Rightarrow> fst m = Panic s)"

lemma refines_bytes: "refines (ReadFull rd r n) r (p_bytes n)"
  using ReadFull_ok [of n r] ReadFull_short [of r n]
  by (cases "ending r") (auto simp: refines_def p_bytes_def not_less)

lemma refines_byte: "refines (ReadByte rd r) r p_byte"
  using ReadByte_ok [of r] ReadByte_end [of r]
  by (cases "ending r"; cases "content r") (force simp: refines_def p_byte_def)+

lemma refines_return: "refines (x, r) r (p_return x)"
  by (cases x) (simp_all add: refines_def p_return_def)

lemma refines_bind:
  assumes "refines m r p" and "\<And>a r'. refines (f a r') r' (q a)"
  shows "refines (rs_bind m f) r (p_bind p q)"
proof (cases "p (content r) (ending r)")
  case (Ok x)
  obtain a rest where x: "x = (a, rest)" by (cases x)
  then obtain r' where "m = (Ok a, r')" "content r' = rest" "ending r' = ending r"
    using assms(1) Ok by (cases m) (simp add: refines_def)
  then show ?thesis using assms(2) [of a r'] Ok x by (simp add: refines_def p_bind_def split: res.splits prod.splits)
qed (use assms(1) in \<open>cases m; simp add: refines_def p_bind_def\<close>)+

lemma refines_if: "(b \<Longrightarrow> refines m r p) \<Longrightarrow> (\<not> b \<Longrightarrow> refines m' r q) \<Longrightarrow> refines (if b then m else m') r (if b then p else q)"
  by simp

lemmas refines_intros = refines_bind refines_if refines_bytes refines_byte refines_return

lemma refines_len: "refines (readPayloadLen rd l r) r (len_parser l)"
  unfolding readPayloadLen_def len_parser_def by (intro refines_intros)

text \<open>Reading a frame is parsing it off the front of the stream.\<close>

lemma readFrame_refines:
  "\<exists>res r'. readFrame rd maxPayload r = (res, r') \<and>
     (case parse_frame maxPayload (content r) (ending r) of
        Ok (f, rest) \<Rightarrow> res = Ok f \<and> content r' = rest \<and> ending r' = ending r
      | Err e \<Rightarrow> res = Err e
      | Panic m \<Rightarrow> res = Panic m)"
proof -
  have "refines (readFrame rd maxPayload r) r (parse_frame maxPayload)"
    unfolding readFrame_def parse_frame_parser frame_parser_def by (intro refines_intros refines_len)
  then show ?thesis by (cases "readFrame rd maxPayload r") (auto simp: refines_def split: res.splits)
qed

end

lemma parse_frame_shorter: "parse_frame n s ending = Ok (f, rest) \<Longrightarrow> length rest < length s"
  by (auto simp: parse_frame_def Let_def split: list.splits if_splits)

text \<open>
  The bytes all the frames of a stream carry, and how that stream ends: with the error of
  the first bad frame, with EOF at a close frame, or as the stream under it ends.
\<close>

function ws_stream :: "int \<Rightarrow> bytes \<Rightarrow> bytes \<Rightarrow> stop \<Rightarrow> bytes \<times> stop" where
  "ws_stream n frag s ending =
     (case parse_frame n s ending of
        Err e \<Rightarrow> ([], Stops e)
      | Panic m \<Rightarrow> ([], Crashes m)
      | Ok (f, rest) \<Rightarrow>
          if ws_opcode f = wsOpcodeBinary then
            if ws_fin f then apfst (append (ws_payload f)) (ws_stream n frag rest ending)
            else ws_stream n (frag @ ws_payload f) rest ending
          else if ws_opcode f = wsOpcodeContinuation then
            if frag = [] then ([], Stops ErrWebSocketFrameType)
            else if ws_fin f then apfst (append (frag @ ws_payload f)) (ws_stream n [] rest ending)
            else ws_stream n (frag @ ws_payload f) rest ending
          else if ws_opcode f = wsOpcodeClose then ([], Stops EOF)
          else if ws_opcode f = wsOpcodeText then ([], Stops ErrWebSocketFrameType)
          else ws_stream n frag rest ending)"
  by pat_completeness auto

termination ws_stream
  by (relation "measure (\<lambda>(n, frag, s, ending). length s)") (auto dest: parse_frame_shorter)

declare ws_stream.simps [simp del]

definition ws_rest :: "WebSocketConn \<Rightarrow> bytes \<times> stop" where
  "ws_rest w = ws_stream (ws_maxPayload w) (ws_fragmentBuf w) (ws_raw w) (conn_ending (ws_conn w))"

definition ws_content :: "WebSocketConn \<Rightarrow> bytes" where
  "ws_content w = ws_pending w @ fst (ws_rest w)"

definition ws_ending :: "WebSocketConn \<Rightarrow> stop" where
  "ws_ending w = snd (ws_rest w)"

lemma ws_control_fields [simp]:
  "ws_maxPayload (ws_control w opc p) = ws_maxPayload w" "ws_pending (ws_control w opc p) = ws_pending w"
  "ws_fragmentBuf (ws_control w opc p) = ws_fragmentBuf w"
  "conn_ending (ws_conn (ws_control w opc p)) = conn_ending (ws_conn w)"
  using writeFrame_conn [of "ws_conn w" opc "take 125 p" True]
  by (cases "writeFrame (ws_conn w) opc (take 125 p) True";
      simp add: ws_control_def ws_set_conn_def writeControlFrame_def)+

text \<open>What follows, one frame at a time.\<close>

lemma ws_rest_frame:
  assumes "parse_frame (ws_maxPayload w) (ws_raw w) (conn_ending (ws_conn w)) = Ok (f, rest)"
    and "ws_raw (w\<lparr>ws_reader := b\<rparr>) = rest" and "conn_ending (bf_rd b) = conn_ending (ws_conn w)" and "w' = w\<lparr>ws_reader := b\<rparr>"
  shows "ws_rest w = (if ws_opcode f = wsOpcodeBinary then
            if ws_fin f then apfst (append (ws_payload f)) (ws_rest w')
            else ws_rest (w'\<lparr>ws_fragmentBuf := ws_fragmentBuf w @ ws_payload f\<rparr>)
          else if ws_opcode f = wsOpcodeContinuation then
            if ws_fragmentBuf w = [] then ([], Stops ErrWebSocketFrameType)
            else if ws_fin f then apfst (append (ws_fragmentBuf w @ ws_payload f)) (ws_rest (w'\<lparr>ws_fragmentBuf := []\<rparr>))
            else ws_rest (w'\<lparr>ws_fragmentBuf := ws_fragmentBuf w @ ws_payload f\<rparr>)
          else if ws_opcode f = wsOpcodeClose then ([], Stops EOF)
          else if ws_opcode f = wsOpcodeText then ([], Stops ErrWebSocketFrameType)
          else ws_rest w')"
  unfolding ws_rest_def by (subst ws_stream.simps) (simp add: assms)

lemma ws_rest_stops:
  "parse_frame (ws_maxPayload w) (ws_raw w) (conn_ending (ws_conn w)) = Err e \<Longrightarrow> ws_rest w = ([], Stops e)"
  "parse_frame (ws_maxPayload w) (ws_raw w) (conn_ending (ws_conn w)) = Panic m \<Longrightarrow> ws_rest w = ([], Crashes m)"
  by (simp_all add: ws_rest_def ws_stream.simps [of _ _ "ws_raw w"])

text \<open>One payload more, or the end of the stream.\<close>

lemma nextDataPayload_refines:
  "case nextDataPayload w of
     (Ok p, w') \<Rightarrow> ws_rest w = apfst (append p) (ws_rest w') \<and> ws_pending w' = ws_pending w
   | (Err e, w') \<Rightarrow> ws_rest w = ([], Stops e)
   | (Panic m, w') \<Rightarrow> ws_rest w = ([], Crashes m)"
proof (induction w rule: nextDataPayload.induct)
  case (1 w)
  obtain res b where rf: "readFrame sniff_read (ws_maxPayload w) (ws_reader w) = (res, b)" by fastforce
  have ref: "case parse_frame (ws_maxPayload w) (ws_raw w) (conn_ending (ws_conn w)) of
        Ok (f, rest) \<Rightarrow> res = Ok f \<and> ws_raw (w\<lparr>ws_reader := b\<rparr>) = rest \<and> conn_ending (bf_rd b) = conn_ending (ws_conn w)
      | Err e \<Rightarrow> res = Err e
      | Panic m \<Rightarrow> res = Panic m"
    using sniff_rd.readFrame_refines [of "ws_maxPayload w" "ws_reader w"] rf by (simp add: ws_raw_def cong: res.case_cong)
  show ?case
  proof (cases "parse_frame (ws_maxPayload w) (ws_raw w) (conn_ending (ws_conn w))")
    case (Ok fr)
    then obtain f rest where p: "parse_frame (ws_maxPayload w) (ws_raw w) (conn_ending (ws_conn w)) = Ok (f, rest)" by (cases fr) simp
    with ref rf have b: "readFrame sniff_read (ws_maxPayload w) (ws_reader w) = (Ok f, b)"
      "ws_raw (w\<lparr>ws_reader := b\<rparr>) = rest" "conn_ending (bf_rd b) = conn_ending (ws_conn w)" by auto
    show ?thesis
      using "1.IH" [OF b(1) [symmetric] refl refl] b(1) ws_rest_frame [OF p b(2,3) refl]
      by (subst nextDataPayload.simps) (auto simp: Let_def ws_rest_def split: res.splits prod.splits)
  qed (use ref rf in \<open>simp_all add: nextDataPayload.simps [of w] ws_rest_stops\<close>)
qed

section \<open>The adapter as a reader and a writer\<close>

lemma nextDataPayload_consumes:
  "nextDataPayload w = (Ok p, w') \<Longrightarrow> length (ws_raw w') < length (ws_raw w)"
proof (induction w rule: nextDataPayload.induct)
  case (1 w)
  show ?case
  proof (cases "readFrame sniff_read (ws_maxPayload w) (ws_reader w)")
    case (Pair res b)
    show ?thesis
    proof (cases res)
      case (Ok f)
      with Pair have rf: "(Ok f, b) = readFrame sniff_read (ws_maxPayload w) (ws_reader w)" by simp
      note shorter = readFrame_measure [OF rf]
      show ?thesis
        using "1.prems" "1.IH" [OF rf refl refl] shorter
        by (subst (asm) nextDataPayload.simps)
          (auto simp: rf [symmetric] Let_def split: if_splits dest: less_trans)
    qed (use Pair "1.prems" in \<open>simp_all add: nextDataPayload.simps [of w]\<close>)
  qed
qed

text \<open>The loop at the head of \<open>Read\<close>: fetch payloads until one is not empty.\<close>

function ws_fill :: "WebSocketConn \<Rightarrow> unit res \<times> WebSocketConn" where
  "ws_fill w =
     (if ws_pending w \<noteq> [] then (Ok (), w)
      else case nextDataPayload w of
        (Ok p, w') \<Rightarrow> ws_fill (w'\<lparr>ws_pending := p\<rparr>)
      | (Err e, w') \<Rightarrow> (Err e, w')
      | (Panic m, w') \<Rightarrow> (Panic m, w'))"
  by pat_completeness auto

termination ws_fill
  by (relation "measure (length \<circ> ws_raw)") (auto dest: nextDataPayload_consumes [OF sym])

declare ws_fill.simps [simp del]

definition ws_Read :: "WebSocketConn rd" where
  "ws_Read w n =
     (case ws_fill w of
        (Err e, w') \<Rightarrow> (Failed e, w')
      | (Panic m, w') \<Rightarrow> (Panicked m, w')
      | (Ok _, w') \<Rightarrow>
          (case ws_pending w' of
             b # p \<Rightarrow> (Got b (take (n - 1) p), w'\<lparr>ws_pending := drop (n - 1) p\<rparr>)
           | [] \<Rightarrow> (Failed EOF, w')))"

definition ws_Write :: "WebSocketConn wr" where
  "ws_Write w p =
     (case writeFrame (ws_conn w) wsOpcodeBinary p True of (e, c) \<Rightarrow> (e, ws_set_conn c w))"

definition ws_Close :: "WebSocketConn \<Rightarrow> go_error option \<times> WebSocketConn" where
  "ws_Close w =
     (let w1 = (if ws_closeOnce w then w else (ws_control w wsOpcodeClose [])\<lparr>ws_closeOnce := True\<rparr>)
      in case conn_Close (ws_conn w1) of (e, c) \<Rightarrow> (e, ws_set_conn c w1))"

lemma ws_rest_pending [simp]: "ws_rest (w\<lparr>ws_pending := x\<rparr>) = ws_rest w"
  by (simp add: ws_rest_def)

lemma ws_fill_refines:
  "case ws_fill w of
     (Ok _, w') \<Rightarrow> ws_pending w' \<noteq> [] \<and> ws_content w' = ws_content w \<and> ws_ending w' = ws_ending w
   | (Err e, w') \<Rightarrow> ws_content w = [] \<and> ws_ending w = Stops e
   | (Panic m, w') \<Rightarrow> ws_content w = [] \<and> ws_ending w = Crashes m"
proof (induction w rule: ws_fill.induct)
  case (1 w)
  show ?case
  proof (cases "ws_pending w = []")
    case True
    obtain res w' where n: "nextDataPayload w = (res, w')" by (cases "nextDataPayload w")
    from nextDataPayload_refines [of w] n True show ?thesis
      using "1.IH" [OF _ n [symmetric]]
      by (cases res) (auto simp: ws_fill.simps [of w] ws_content_def ws_ending_def split: prod.splits res.splits)
  next
    case False
    then show ?thesis by (simp add: ws_fill.simps [of w])
  qed
qed

interpretation ws_rd: byte_reader ws_Read ws_content ws_ending
proof
  fix n :: nat and w :: WebSocketConn
  assume n: "0 < n" and ne: "ws_content w \<noteq> []"
  obtain res w1 where f: "ws_fill w = (res, w1)" by (cases "ws_fill w")
  with ws_fill_refines [of w] ne have res: "res = Ok ()" and w1: "ws_pending w1 \<noteq> []"
    "ws_content w1 = ws_content w" "ws_ending w1 = ws_ending w" by (auto split: res.splits)
  then obtain b p where p: "ws_pending w1 = b # p" by (cases "ws_pending w1") auto
  have "length (take (n - 1) p) < n" using n by auto
  then show "\<exists>b bs w'. ws_Read w n = (Got b bs, w') \<and> length bs < n \<and>
      ws_content w = b # bs @ ws_content w' \<and> ws_ending w' = ws_ending w"
    using f res w1 p by (auto simp: ws_Read_def ws_content_def ws_ending_def simp flip: append_assoc)
next
  fix n :: nat and w :: WebSocketConn
  assume "0 < n" and e: "ws_content w = []"
  then show "\<exists>w'. ws_Read w n = (stop_result (ws_ending w), w')"
    using ws_fill_refines [of w]
    by (cases "ws_fill w"; cases "fst (ws_fill w)") (auto simp: ws_Read_def ws_content_def)
qed

interpretation sniff_ws_rd: byte_reader "bufio_Read ws_Read"
    "\<lambda>b. bf_buf b @ ws_content (bf_rd b)" "\<lambda>b. ws_ending (bf_rd b)"
  by (rule ws_rd.bufio_is_reader)

section \<open>Frames a client sends\<close>

text \<open>A frame as RFC 6455 has a client send it: masked, with the shortest length field.\<close>

definition client_frame :: "bool \<Rightarrow> byte \<Rightarrow> bytes \<Rightarrow> bytes \<Rightarrow> bytes" where
  "client_frame fin opcode key p =
     (let n = length p in
      ((if fin then 0x80 else 0) OR opcode) #
      (if n \<le> 125 then [0x80 OR of_nat n]
       else if n \<le> 65535 then 0xFE # be_bytes 2 (of_nat n :: 16 word)
       else 0xFF # be_bytes 8 (of_nat n :: 64 word)) @ key @ unmask key p)"

lemma unmask_unmask [simp]: "unmask key (unmask key p) = p"
  by (auto intro!: nth_equalityI simp: unmask_def xor.assoc)

lemma length_unmask [simp]: "length (unmask key p) = length p"
  by (simp add: unmask_def)

lemma opcode_bits:
  assumes "opc AND 0x0F = (opc :: byte)"
  shows "((if fin then 0x80 else 0) OR opc) AND 0x0F = opc"
    and "((if fin then 0x80 else 0) OR opc) AND 0x80 = (if fin then 0x80 else 0)"
proof -
  have z: "opc AND 0x80 = 0"
    by (subst assms [symmetric]) (simp add: and.assoc)
  show "((if fin then 0x80 else 0) OR opc) AND 0x0F = opc" using assms by (simp add: word_ao_dist)
  show "((if fin then 0x80 else 0) OR opc) AND 0x80 = (if fin then 0x80 else 0)" using z by (simp add: word_ao_dist)
qed

lemma short_length_bits:
  assumes "n \<le> 125"
  shows "(0x80 OR of_nat n :: byte) AND 0x7F = of_nat n" and "(0x80 OR of_nat n :: byte) AND 0x80 \<noteq> 0"
    and "uint (of_nat n :: byte) = int n"
proof -
  have m: "(0x7F :: byte) = mask 7" by (simp add: mask_eq_exp_minus_1)
  have t: "take_bit 7 (of_nat n :: byte) = of_nat n"
    using assms by (simp add: take_bit_of_nat take_bit_nat_eq_self)
  show "(0x80 OR of_nat n :: byte) AND 0x7F = of_nat n"
    using t by (simp add: word_ao_dist m take_bit_eq_mask flip: take_bit_eq_mask)
  show "(0x80 OR of_nat n :: byte) AND 0x80 \<noteq> 0" by (simp add: word_ao_dist)
  show "uint (of_nat n :: byte) = int n"
    using assms by (simp add: unsigned_of_nat take_bit_nat_eq_self)
qed

lemma sint_of_nat_64: "n < 2 ^ 63 \<Longrightarrow> sint (of_nat n :: 64 word) = int n"
  by (simp add: signed_of_nat signed_take_bit_int_eq_self)

lemma parse_frame_client:
  assumes "length key = 4" and "opc AND 0x0F = opc"
    and "n \<le> 0 \<or> int (length p) \<le> n" and "int (length p) \<le> maxAlloc"
  shows "parse_frame n (client_frame fin opc key p @ rest) ending =
     Ok (\<lparr>ws_fin = fin, ws_opcode = opc, ws_payload = p\<rparr>, rest)"
proof -
  note ob = opcode_bits [OF assms(2), of fin]
  let ?l = "length p"
  consider "?l \<le> 125" | "\<not> ?l \<le> 125" "?l \<le> 65535" | "\<not> ?l \<le> 125" "\<not> ?l \<le> 65535" by blast
  then show ?thesis
  proof cases
    case 1
    note lb = short_length_bits [OF 1]
    have ne: "(of_nat ?l :: byte) \<noteq> 126" "(of_nat ?l :: byte) \<noteq> 127"
      using lb(3) 1 by (auto simp: word_uint_eq_iff)
    from 1 ob lb ne assms(1,3) show ?thesis
      by (auto simp: parse_frame_def client_frame_def Let_def)
  next
    case 2
    then have "uint (of_nat ?l :: 16 word) = int ?l"
      by (simp add: unsigned_of_nat take_bit_nat_eq_self)
    with 2 ob assms(1,3) show ?thesis
      by (auto simp: parse_frame_def client_frame_def Let_def)
  next
    case 3
    have "sint (of_nat ?l :: 64 word) = int ?l"
      using assms(4) by (intro sint_of_nat_64) simp
    with 3 ob assms(1,3,4) show ?thesis
      by (auto simp: parse_frame_def client_frame_def Let_def)
  qed
qed

text \<open>
  What a client may send between two messages without changing the stream: pings, pongs
  and frames with an unknown opcode.
\<close>

definition ignorable :: "byte \<Rightarrow> bool" where
  "ignorable opc \<longleftrightarrow> opc AND 0x0F = opc \<and> opc \<notin> {0, 1, 2, 8}"

text \<open>The frames of one message cut into the given pieces: binary first, continuations after.\<close>

fun message_frames :: "byte \<Rightarrow> bytes \<Rightarrow> bytes list \<Rightarrow> bytes" where
  "message_frames opc key [] = []"
| "message_frames opc key [p] = client_frame True opc key p"
| "message_frames opc key (p # ps) = client_frame False opc key p @ message_frames 0 key ps"

definition piece_ok :: "int \<Rightarrow> bytes \<Rightarrow> bool" where
  "piece_ok n p \<longleftrightarrow> (n \<le> 0 \<or> int (length p) \<le> n) \<and> int (length p) \<le> maxAlloc"

lemma ws_stream_continuation:
  assumes "length key = 4" and "frag \<noteq> []" and "ps \<noteq> []" and "list_all (piece_ok n) ps"
  shows "ws_stream n frag (message_frames 0 key ps @ rest) ending =
     apfst (append (frag @ concat ps)) (ws_stream n [] rest ending)"
  using assms
proof (induction "0 :: byte" key ps arbitrary: frag rule: message_frames.induct)
  case (2 key p)
  then show ?case
    by (subst ws_stream.simps) (simp add: parse_frame_client piece_ok_def)
next
  case (3 key p q qs)
  then show ?case
    by (subst ws_stream.simps) (simp add: parse_frame_client piece_ok_def)
qed simp

text \<open>
  A message the adapter accepts: at least one piece, each within the limit, and the first
  of several pieces not empty.
\<close>

definition message_ok :: "int \<Rightarrow> bytes list \<Rightarrow> bool" where
  "message_ok n ps \<longleftrightarrow> ps \<noteq> [] \<and> list_all (piece_ok n) ps \<and> (1 < length ps \<longrightarrow> hd ps \<noteq> [])"

lemma ws_stream_message:
  assumes "length key = 4" and "message_ok n ps"
  shows "ws_stream n [] (message_frames 2 key ps @ rest) ending =
     apfst (append (concat ps)) (ws_stream n [] rest ending)"
proof (cases ps)
  case Nil
  with assms show ?thesis by (simp add: message_ok_def)
next
  case (Cons p qs)
  show ?thesis
  proof (cases qs)
    case Nil
    with Cons assms show ?thesis
      by (subst ws_stream.simps) (simp add: parse_frame_client message_ok_def piece_ok_def)
  next
    case (Cons q qs')
    with \<open>ps = p # qs\<close> assms have "p \<noteq> []" "qs \<noteq> []" "list_all (piece_ok n) qs" "piece_ok n p"
      by (auto simp: message_ok_def)
    with ws_stream_continuation [OF assms(1) this(1,2,3)] \<open>ps = p # qs\<close> Cons assms(1) show ?thesis
      by (subst ws_stream.simps) (simp add: parse_frame_client piece_ok_def)
  qed
qed

lemma ws_stream_messages:
  assumes "length key = 4" and "list_all (message_ok n) msgs"
  shows "ws_stream n [] (concat (map (message_frames 2 key) msgs) @ rest) ending =
     apfst (append (concat (map concat msgs))) (ws_stream n [] rest ending)"
  using assms(2) by (induction msgs) (simp_all add: ws_stream_message [OF assms(1)] prod.expand)

lemma ws_stream_Nil: "ws_stream n frag [] (Stops e) = ([], Stops e)"
  by (simp add: ws_stream.simps [of n frag] parse_frame_def)

text \<open>A packet read through the adapter is the packet of the messages' contents.\<close>

lemma packet_of_messages:
  assumes "ws_raw w = concat (map (message_frames 2 key) msgs)"
    and "length key = 4" and "list_all (message_ok (ws_maxPayload w)) msgs"
    and "ws_pending w = []" and "ws_fragmentBuf w = []" and "pool_ok p"
  shows "\<exists>res w' p'. ReadFullPacket ws_Read w maxMessageSize i p = (res, w', p') \<and> pool_ok p' \<and>
     (case parse_packet maxMessageSize (concat (map concat msgs)) (conn_ending (ws_conn w)) of
        Ok (h, body) \<Rightarrow> \<exists>d. res = Ok (h, d) \<and> payload d = body
      | Err e \<Rightarrow> res = Err e
      | Panic m \<Rightarrow> False)"
proof -
  obtain e where e: "conn_ending (ws_conn w) = Stops e" by (simp add: conn_ending_def)
  have "ws_rest w = (concat (map concat msgs), Stops e)"
    using ws_stream_messages [OF assms(2,3), of "[]" "Stops e"] assms(1,5)
    by (simp add: ws_rest_def e ws_stream_Nil)
  then have c: "ws_content w = concat (map concat msgs)" "ws_ending w = conn_ending (ws_conn w)"
    using assms(4) e by (simp_all add: ws_content_def ws_ending_def)
  have "parse_packet maxMessageSize (concat (map concat msgs)) (conn_ending (ws_conn w)) \<noteq> Panic m" for m
    by (simp add: e parse_packet_def Let_def)
  with ws_rd.ReadFullPacket_refines [OF assms(6), of w maxMessageSize i] show ?thesis
    unfolding c by (fastforce split: res.splits)
qed

section \<open>Properties\<close>


text \<open>A packet in two fragments of a masked message.\<close>

definition sample_pieces :: "bytes list" where
  "sample_pieces = [[2, 0, 7, 0], [0, 10, 1, 0, 97, 98]]"

definition sample_ws :: WebSocketConn where
  "sample_ws = NewWebSocketConn (bufio_NewReader
     \<lparr>cin = [message_frames 2 [1, 2, 3, 4] sample_pieces], cend = EOF, cout = [], croom = None,
      cclosed = False\<rparr>) 1024"


text \<open>
  C13. Exactly which client bytes make the frame reader panic, under a positive payload
  limit: a masked frame with the 64-bit length form whose length has its top bit set (it
  is read as a negative number, passes the limit check and reaches the allocation), once
  the length and the masking key have arrived.
\<close>

theorem readFrame_panic_iff:
  assumes "0 < maxPayload" and "maxPayload \<le> maxAlloc"
  shows "(\<exists>m b'. readFrame sniff_read maxPayload b = (Panic m, b')) \<longleftrightarrow>
     (\<exists>h1 h2 t. bf_buf b @ conn_content (bf_rd b) = h1 # h2 # t \<and> (h2 AND 0x80) \<noteq> 0 \<and>
        (h2 AND 0x7F) = 127 \<and> 12 \<le> length t \<and> bit (be_word (take 8 t) :: 64 word) 63)"
proof -
  let ?s = "bf_buf b @ conn_content (bf_rd b)"
  have neg: "sint (x :: 64 word) < 0 \<longleftrightarrow> bit x 63" for x
    using bit_last_iff [of x] by simp
  obtain e where e: "conn_ending (bf_rd b) = Stops e" by (simp add: conn_ending_def)
  have "(\<exists>m b'. readFrame sniff_read maxPayload b = (Panic m, b')) \<longleftrightarrow>
      (\<exists>m. parse_frame maxPayload ?s (conn_ending (bf_rd b)) = Panic m)"
    using sniff_rd.readFrame_refines [of maxPayload b]
    by (cases "parse_frame maxPayload ?s (conn_ending (bf_rd b))") auto
  also have "\<dots> \<longleftrightarrow> (\<exists>h1 h2 t. ?s = h1 # h2 # t \<and> (h2 AND 0x80) \<noteq> 0 \<and>
        (h2 AND 0x7F) = 127 \<and> 12 \<le> length t \<and> sint (be_word (take 8 t) :: 64 word) < 0)"
    using assms by (auto simp: parse_frame_def e Let_def split: list.splits if_splits)
  finally show ?thesis unfolding neg .
qed

text \<open>Fourteen bytes from a client are enough.\<close>

definition crash_frame :: bytes where
  "crash_frame = [0x82, 0xFF, 0x80, 0, 0, 0, 0, 0, 0, 0, 1, 2, 3, 4]"

theorem readFrame_panic_iff_witness:
  "\<exists>m b'. readFrame sniff_read 1048576 (bufio_NewReader \<lparr>cin = [crash_frame], cend = EOF, cout = [],
     croom = None, cclosed = False\<rparr>) = (Panic m, b')"
proof -
  let ?b = "bufio_NewReader \<lparr>cin = [crash_frame], cend = EOF, cout = [], croom = None, cclosed = False\<rparr>"
  have s: "bf_buf ?b @ conn_content (bf_rd ?b) =
      0x82 # 0xFF # [0x80, 0, 0, 0, 0, 0, 0, 0, 1, 2, 3, 4]"
    by (simp add: bufio_NewReader_def conn_content_def crash_frame_def)
  have "bit (be_word (take 8 [0x80, 0, 0, 0, 0, 0, 0, 0, 1, 2, 3, 4]) :: 64 word) 63" by code_simp
  moreover have "(0xFF AND 0x80 :: byte) \<noteq> 0" "(0xFF AND 0x7F :: byte) = 127" by simp_all
  moreover have "(12 :: nat) \<le> length ([0x80, 0, 0, 0, 0, 0, 0, 0, 1, 2, 3, 4] :: bytes)" by simp
  ultimately have "\<exists>h1 h2 t. bf_buf ?b @ conn_content (bf_rd ?b) = h1 # h2 # t \<and> (h2 AND 0x80) \<noteq> 0 \<and>
      (h2 AND 0x7F) = 127 \<and> 12 \<le> length t \<and> bit (be_word (take 8 t) :: 64 word) 63"
    using s by blast
  with readFrame_panic_iff [of 1048576 ?b] show ?thesis by simp
qed

text \<open>
  A frame of the server as a client decodes it: unmasked, any of the three length forms.
\<close>

definition decode_server_frame :: "bytes \<Rightarrow> (wsFrame \<times> bytes) option" where
  "decode_server_frame s =
     (case s of
        h1 # h2 # t \<Rightarrow>
          if (h2 AND 0x80) \<noteq> 0 then None
          else
            let k = (if h2 = 126 then 2 else if h2 = 127 then 8 else 0);
                n = (if h2 = 126 then unat (be_word (take 2 t) :: 16 word)
                     else if h2 = 127 then unat (be_word (take 8 t) :: 64 word) else unat h2);
                body = drop k t
            in if length t < k \<or> length body < n then None
               else Some (\<lparr>ws_fin = ((h1 AND 0x80) \<noteq> 0), ws_opcode = h1 AND 0x0F,
                           ws_payload = take n body\<rparr>, drop n body)
      | _ \<Rightarrow> None)"

lemma decode_frame_header:
  assumes "opc AND 0x0F = opc" and "length p < 2 ^ 64"
  shows "decode_server_frame (frame_header opc (length p) fin @ p @ rest) =
     Some (\<lparr>ws_fin = fin, ws_opcode = opc, ws_payload = p\<rparr>, rest)"
proof -
  note ob = opcode_bits [OF assms(1), of fin, unfolded or.commute [of _ opc]]
  let ?l = "length p"
  consider "?l \<le> 125" | "\<not> ?l \<le> 125" "?l \<le> 65535" | "\<not> ?l \<le> 125" "\<not> ?l \<le> 65535" by blast
  then show ?thesis
  proof cases
    case 1
    have u: "unat (of_nat ?l :: byte) = ?l" using 1 by (simp add: unsigned_of_nat take_bit_nat_eq_self)
    have m: "(of_nat ?l :: byte) AND 0x80 = 0"
    proof -
      have "of_nat ?l AND 0x80 = ((0x80 OR of_nat ?l :: byte) AND 0x7F) AND 0x80"
        using short_length_bits(1) [OF 1] by simp
      also have "\<dots> = (0x80 OR of_nat ?l :: byte) AND (0x7F AND 0x80)" by (simp only: and.assoc)
      finally show ?thesis by simp
    qed
    have ne: "(of_nat ?l :: byte) \<noteq> 126" "(of_nat ?l :: byte) \<noteq> 127"
      using u 1 by (auto simp: word_unat_eq_iff)
    from 1 ob u m ne show ?thesis
      by (auto simp: decode_server_frame_def frame_header_def Let_def)
  next
    case 2
    then have "unat (of_nat ?l :: 16 word) = ?l"
      by (simp add: unsigned_of_nat take_bit_nat_eq_self)
    with 2 ob show ?thesis
      by (auto simp: decode_server_frame_def frame_header_def Let_def)
  next
    case 3
    then have "unat (of_nat ?l :: 64 word) = ?l"
      using assms(2) by (simp add: unsigned_of_nat take_bit_nat_eq_self)
    with 3 ob show ?thesis
      by (auto simp: decode_server_frame_def frame_header_def Let_def)
  qed
qed

text \<open>
  C12. Whatever the gateway sends to a WebSocket client reaches it intact: a write that
  succeeds appends exactly one frame to the connection, and decoding that frame as a
  client does gives a final binary frame with the same payload, for every payload length.
\<close>

theorem ws_Write_roundtrip:
  assumes "ws_Write w p = (None, w')" and "length p < 2 ^ 64"
  shows "\<exists>f. cout (ws_conn w') = cout (ws_conn w) @ f \<and>
     decode_server_frame (f @ rest) =
       Some (\<lparr>ws_fin = True, ws_opcode = wsOpcodeBinary, ws_payload = p\<rparr>, rest)"
proof -
  let ?h = "frame_header wsOpcodeBinary (length p) True"
  from assms(1) have "writeFrame (ws_conn w) wsOpcodeBinary p True = (None, ws_conn w')"
    by (auto simp: ws_Write_def ws_set_conn_def split: prod.splits)
  then obtain c where c: "conn_Write (ws_conn w) ?h = (None, c)"
    "(if 0 < length p then conn_Write c p else (None, c)) = (None, ws_conn w')"
    by (auto simp: writeFrame_def split: prod.splits option.splits)
  from conn_wr.write_ok [OF c(1)] have "cout c = cout (ws_conn w) @ ?h" .
  moreover have "cout (ws_conn w') = cout c @ p"
    using c(2) by (auto dest: conn_wr.write_ok split: if_splits)
  ultimately show ?thesis
    using decode_frame_header [of wsOpcodeBinary p True rest] assms(2)
    by (intro exI [of _ "?h @ p"]) simp
qed

theorem ws_Write_roundtrip_witness:
  "\<exists>w' f. ws_Write sample_ws [97, 98] = (None, w') \<and> cout (ws_conn w') = cout (ws_conn sample_ws) @ f \<and>
     decode_server_frame f = Some (\<lparr>ws_fin = True, ws_opcode = 2, ws_payload = [97, 98]\<rparr>, [])"
proof -
  obtain e w' where w: "ws_Write sample_ws [97, 98] = (e, w')" by fastforce
  moreover have "fst (ws_Write sample_ws [97, 98]) = None" by code_simp
  ultimately have ok: "ws_Write sample_ws [97, 98] = (None, w')" by simp
  from ws_Write_roundtrip [OF ok, of "[]"] ok show ?thesis by auto
qed

end
