(* ===== verification/RateLimit.thy ===== *)
theory RateLimit
  imports GatewayPrelude
begin

text \<open>
  The two admission limiters of \<open>internal/ratelimit\<close>: the global connection limiter, whose
  \<open>Allow\<close> is a compare-and-swap loop, modelled down to its atomic steps so that any
  interleaving of goroutines is a run; and the per-address limiter, whose methods hold its
  mutex and are functions of the state and of the clock readings they take.
\<close>

section \<open>The global limiter\<close>

record Limiter =
  maxConns :: int
  current :: int

definition NewLimiter :: "int \<Rightarrow> Limiter" where
  "NewLimiter n = \<lparr>maxConns = n, current = 0\<rparr>"

text \<open>\<open>Allow\<close> with no other goroutine in between.\<close>

definition Limiter_Allow :: "Limiter \<Rightarrow> bool \<times> Limiter" where
  "Limiter_Allow l =
     (if maxConns l \<le> current l then (False, l) else (True, l\<lparr>current := current l + 1\<rparr>))"

definition Limiter_Release :: "Limiter \<Rightarrow> Limiter" where
  "Limiter_Release l = l\<lparr>current := current l - 1\<rparr>"

definition Limiter_Current :: "Limiter \<Rightarrow> int" where
  "Limiter_Current l = current l"

definition Limiter_Max :: "Limiter \<Rightarrow> int" where
  "Limiter_Max l = maxConns l"

text \<open>
  Goroutines and the limiter.  A goroutine is outside, has loaded a value in \<open>Allow\<close>,
  holds a slot, or was turned away.  Each step is one atomic operation.
\<close>

datatype lim_pc = Outside | Loaded int | Holding | Rejected

record lim_sys =
  lim :: Limiter
  pcs :: "nat \<Rightarrow> lim_pc"

inductive lim_step :: "lim_sys \<Rightarrow> lim_sys \<Rightarrow> bool" where
  load: "pcs s t = Outside \<Longrightarrow> lim_step s (s\<lparr>pcs := (pcs s)(t := Loaded (current (lim s)))\<rparr>)"
| reject: "pcs s t = Loaded c \<Longrightarrow> maxConns (lim s) \<le> c \<Longrightarrow>
     lim_step s (s\<lparr>pcs := (pcs s)(t := Rejected)\<rparr>)"
| swap: "pcs s t = Loaded c \<Longrightarrow> c < maxConns (lim s) \<Longrightarrow> current (lim s) = c \<Longrightarrow>
     lim_step s (s\<lparr>lim := (lim s)\<lparr>current := c + 1\<rparr>, pcs := (pcs s)(t := Holding)\<rparr>)"
| retry: "pcs s t = Loaded c \<Longrightarrow> c < maxConns (lim s) \<Longrightarrow> current (lim s) \<noteq> c \<Longrightarrow>
     lim_step s (s\<lparr>pcs := (pcs s)(t := Outside)\<rparr>)"
| release: "pcs s t = Holding \<Longrightarrow>
     lim_step s (s\<lparr>lim := Limiter_Release (lim s), pcs := (pcs s)(t := Outside)\<rparr>)"

definition lim_init :: "int \<Rightarrow> lim_sys" where
  "lim_init n = \<lparr>lim = NewLimiter n, pcs = (\<lambda>_. Outside)\<rparr>"

inductive lim_reachable :: "int \<Rightarrow> lim_sys \<Rightarrow> bool" for n where
  lim_start: "lim_reachable n (lim_init n)"
| lim_next: "lim_reachable n s \<Longrightarrow> lim_step s s' \<Longrightarrow> lim_reachable n s'"

definition holders :: "lim_sys \<Rightarrow> nat set" where
  "holders s = {t. pcs s t = Holding}"

section \<open>The limiter per address\<close>

record rateTracker =
  connections :: "time list"
  window :: duration

record IPLimiter =
  maxConnsPerIP :: int
  rateLimit :: int
  ipConns :: "(string, int) gomap"
  ipRates :: "(string, rateTracker) gomap"
  lastCleanup :: time

definition NewIPLimiter :: "int \<Rightarrow> int \<Rightarrow> time \<Rightarrow> IPLimiter" where
  "NewIPLimiter m r now =
     \<lparr>maxConnsPerIP = m, rateLimit = r, ipConns = [], ipRates = [], lastCleanup = now\<rparr>"

text \<open>Reading a missing key of a map of integers gives 0.\<close>

definition conn_count :: "IPLimiter \<Rightarrow> string \<Rightarrow> int" where
  "conn_count l ip = (case gomap_get (ipConns l) ip of None \<Rightarrow> 0 | Some c \<Rightarrow> c)"

text \<open>\<open>make([]time.Time, 0, l.rateLimit)\<close> panics for a negative capacity.\<close>

definition getOrCreateRateTracker :: "IPLimiter \<Rightarrow> string \<Rightarrow> rateTracker res \<times> IPLimiter" where
  "getOrCreateRateTracker l ip =
     (case gomap_get (ipRates l) ip of
        Some rate \<Rightarrow> (Ok rate, l)
      | None \<Rightarrow>
          if rateLimit l < 0 then (Panic ''makeslice: cap out of range'', l)
          else let rate = \<lparr>connections = [], window = second\<rparr>
            in (Ok rate, l\<lparr>ipRates := gomap_put ip rate (ipRates l)\<rparr>))"

definition ip_cleanup :: "IPLimiter \<Rightarrow> IPLimiter" where
  "ip_cleanup l =
     l\<lparr>ipConns := filter (\<lambda>(ip, count). count \<noteq> 0) (ipConns l),
       ipRates := filter (\<lambda>(ip, r). gomap_get (ipConns l) ip \<noteq> Some 0) (ipRates l)\<rparr>"

text \<open>
  The compaction loop of \<open>Allow\<close>: timestamps after the cut-off are moved to the front of
  the same array, which is then cut.
\<close>

function compact_loop :: "time \<Rightarrow> nat \<Rightarrow> nat \<Rightarrow> time list \<Rightarrow> time list" where
  "compact_loop cutoff i valid a =
     (if i < length a then
        (if cutoff < a ! i then compact_loop cutoff (Suc i) (Suc valid) (a[valid := a ! i])
         else compact_loop cutoff (Suc i) valid a)
      else take valid a)"
  by pat_completeness auto
termination
  by (relation "measure (\<lambda>(cutoff, i, valid, a). length a - i)") auto

declare compact_loop.simps [simp del]

text \<open>
  \<open>Allow\<close>.  It reads the clock up to three times: \<open>t0\<close> for the cleanup test, \<open>t1\<close> when a
  cleanup was made, and \<open>now\<close>.
\<close>

record clock3 =
  ck_t0 :: time
  ck_t1 :: time
  ck_now :: time

definition IPLimiter_Allow :: "clock3 \<Rightarrow> string \<Rightarrow> IPLimiter \<Rightarrow> bool res \<times> IPLimiter" where
  "IPLimiter_Allow clk ip l0 =
     (let l = (if 5 * minute < ck_t0 clk - lastCleanup l0 then (ip_cleanup l0)\<lparr>lastCleanup := ck_t1 clk\<rparr> else l0)
      in if maxConnsPerIP l \<le> conn_count l ip then (Ok False, l)
         else case getOrCreateRateTracker l ip of
           (Err e, l1) \<Rightarrow> (Err e, l1)
         | (Panic m, l1) \<Rightarrow> (Panic m, l1)
         | (Ok rate, l1) \<Rightarrow>
             let kept = compact_loop (ck_now clk - second) 0 0 (connections rate);
                 l2 = l1\<lparr>ipRates := gomap_put ip (rate\<lparr>connections := kept\<rparr>) (ipRates l1)\<rparr>
             in if rateLimit l \<le> int (length kept) then (Ok False, l2)
                else (Ok True, l1\<lparr>ipRates := gomap_put ip (rate\<lparr>connections := kept @ [ck_now clk]\<rparr>) (ipRates l1),
                                  ipConns := gomap_put ip (conn_count l ip + 1) (ipConns l1)\<rparr>))"

definition IPLimiter_Release :: "string \<Rightarrow> IPLimiter \<Rightarrow> IPLimiter" where
  "IPLimiter_Release ip l =
     (case gomap_get (ipConns l) ip of
        Some count \<Rightarrow>
          if 0 < count then
            if count - 1 = 0 then l\<lparr>ipConns := gomap_del ip (gomap_put ip (count - 1) (ipConns l))\<rparr>
            else l\<lparr>ipConns := gomap_put ip (count - 1) (ipConns l)\<rparr>
          else l
      | None \<Rightarrow> l)"

definition GetStats :: "string \<Rightarrow> IPLimiter \<Rightarrow> int \<times> int" where
  "GetStats ip l =
     (conn_count l ip,
      case gomap_get (ipRates l) ip of None \<Rightarrow> 0 | Some rate \<Rightarrow> int (length (connections rate)))"

text \<open>A history of the limiter: calls in the order they take the mutex.\<close>

datatype ip_call = CallAllow clock3 string | CallRelease string

text \<open>What the callers see of a history: the admissions with their time, and the releases.\<close>

datatype ip_event = Admitted time string | Freed string

fun ip_run :: "IPLimiter \<Rightarrow> ip_call list \<Rightarrow> IPLimiter \<times> ip_event list" where
  "ip_run l [] = (l, [])"
| "ip_run l (CallAllow clk ip # es) =
     (case IPLimiter_Allow clk ip l of
        (res, l') \<Rightarrow> apsnd (append (if res = Ok True then [Admitted (ck_now clk) ip] else [])) (ip_run l' es))"
| "ip_run l (CallRelease ip # es) = apsnd (Cons (Freed ip)) (ip_run (IPLimiter_Release ip l) es)"

text \<open>
  The reference: connections of an address that are open after a sequence of events, the
  times of its admissions, and the clock readings of a history.
\<close>

fun outstanding :: "string \<Rightarrow> int \<Rightarrow> ip_event list \<Rightarrow> int" where
  "outstanding ip n [] = n"
| "outstanding ip n (Admitted t ip' # es) = outstanding ip (if ip' = ip then n + 1 else n) es"
| "outstanding ip n (Freed ip' # es) = outstanding ip (if ip' = ip then max 0 (n - 1) else n) es"

fun admissions :: "string \<Rightarrow> ip_event list \<Rightarrow> time list" where
  "admissions ip [] = []"
| "admissions ip (Admitted t ip' # es) = (if ip' = ip then [t] else []) @ admissions ip es"
| "admissions ip (Freed ip' # es) = admissions ip es"

fun call_times :: "ip_call list \<Rightarrow> time list" where
  "call_times [] = []"
| "call_times (CallAllow clk ip # es) = ck_now clk # call_times es"
| "call_times (CallRelease ip # es) = call_times es"

text \<open>The admissions in the second that ends at \<open>t\<close>.\<close>

definition in_window :: "time \<Rightarrow> time list \<Rightarrow> time list" where
  "in_window t ts = filter (\<lambda>x. t - second < x \<and> x \<le> t) ts"

section \<open>The global limiter never over-admits\<close>

inductive_cases lim_stepE: "lim_step s s'"

definition lim_inv :: "int \<Rightarrow> lim_sys \<Rightarrow> bool" where
  "lim_inv n s \<longleftrightarrow> maxConns (lim s) = n \<and> finite (holders s) \<and>
     current (lim s) = int (card (holders s)) \<and> (current (lim s) \<le> n \<or> current (lim s) = 0)"

lemma holders_update:
  "holders (s\<lparr>pcs := (pcs s)(t := x)\<rparr>) = (if x = Holding then insert t (holders s) else holders s - {t})"
  "holders (s\<lparr>lim := l, pcs := (pcs s)(t := x)\<rparr>) = (if x = Holding then insert t (holders s) else holders s - {t})"
  by (auto simp: holders_def)

lemma lim_step_inv: "lim_step s s' \<Longrightarrow> lim_inv n s \<Longrightarrow> lim_inv n s'"
proof (induction rule: lim_step.induct)
  case (release s t)
  then have "t \<in> holders s" by (simp add: holders_def)
  moreover from this have "0 < card (holders s)" using release.prems by (auto simp: lim_inv_def card_gt_0_iff)
  ultimately show ?case using release.prems
    by (auto simp: lim_inv_def holders_update Limiter_Release_def card_Diff_singleton)
qed (auto simp: lim_inv_def holders_update, auto simp: holders_def)

lemma lim_reachable_inv: "lim_reachable n s \<Longrightarrow> lim_inv n s"
proof (induction rule: lim_reachable.induct)
  case lim_start
  then show ?case by (simp add: lim_inv_def lim_init_def NewLimiter_def holders_def)
next
  case (lim_next s s')
  then show ?case by (blast intro: lim_step_inv)
qed

text \<open>
  C20. In every interleaving of goroutines calling \<open>Allow\<close> and \<open>Release\<close>, the counter is
  the number of goroutines that hold a slot, that number never exceeds the limit, and the
  counter is back at zero when nobody holds a slot.
\<close>

theorem Limiter_never_exceeds:
  assumes "lim_reachable n s" and "0 \<le> n"
  shows "current (lim s) = int (card (holders s)) \<and> int (card (holders s)) \<le> n \<and>
     (holders s = {} \<longrightarrow> Limiter_Current (lim s) = 0)"
  using lim_reachable_inv [OF assms(1)] assms(2) by (auto simp: lim_inv_def Limiter_Current_def)

theorem Limiter_never_exceeds_witness:
  "\<exists>s. lim_reachable 1 s \<and> holders s = {7} \<and> int (card (holders s)) \<le> 1"
proof -
  let ?s1 = "(lim_init 1)\<lparr>pcs := (pcs (lim_init 1))(7 := Loaded 0)\<rparr>"
  let ?s2 = "?s1\<lparr>lim := (lim ?s1)\<lparr>current := 1\<rparr>, pcs := (pcs ?s1)(7 := Holding)\<rparr>"
  have "lim_step (lim_init 1) ?s1"
    using lim_step.load [of "lim_init 1" 7] by (simp add: lim_init_def NewLimiter_def)
  then have 1: "lim_reachable 1 ?s1" by (rule lim_next [OF lim_start])
  have "lim_step ?s1 ?s2"
    using lim_step.swap [of ?s1 7 0] by (simp add: lim_init_def NewLimiter_def)
  with 1 have 2: "lim_reachable 1 ?s2" by (rule lim_next)
  have h: "holders ?s2 = {7}" by (auto simp: holders_def lim_init_def)
  from Limiter_never_exceeds [OF 2] h 2 show ?thesis by (intro exI [of _ ?s2]) simp
qed

section \<open>The limiter per address\<close>

lemma compact_loop_filter:
  "valid \<le> i \<Longrightarrow> i \<le> length a \<Longrightarrow>
     compact_loop cutoff i valid a = take valid a @ filter (\<lambda>ts. cutoff < ts) (drop i a)"
proof (induction cutoff i valid a rule: compact_loop.induct)
  case (1 cutoff i valid a)
  show ?case
  proof (cases "i < length a")
    case True
    then have d: "drop i a = a ! i # drop (Suc i) a" by (simp add: Cons_nth_drop_Suc)
    show ?thesis
    proof (cases "cutoff < a ! i")
      case keep: True
      have "valid < length a" using "1.prems" True by simp
      then have "take (Suc valid) (a[valid := a ! i]) = take valid a @ [a ! i]"
        by (simp add: take_Suc_conv_app_nth)
      moreover have "drop (Suc i) (a[valid := a ! i]) = drop (Suc i) a"
        using "1.prems" by (simp add: drop_update_cancel)
      ultimately show ?thesis
        using True keep d "1.IH"(1) "1.prems" by (simp add: compact_loop.simps [of cutoff i])
    next
      case False
      then show ?thesis
        using True d "1.IH"(2) "1.prems" by (simp add: compact_loop.simps [of cutoff i])
    qed
  next
    case False
    then show ?thesis by (simp add: compact_loop.simps [of cutoff i])
  qed
qed

lemma compact_is_filter [simp]: "compact_loop cutoff 0 0 a = filter (\<lambda>ts. cutoff < ts) a"
  by (simp add: compact_loop_filter)

text \<open>The invariant of the maps: no entry is zero, and none is above the limit.\<close>

definition ip_inv :: "IPLimiter \<Rightarrow> bool" where
  "ip_inv l \<longleftrightarrow> gomap_ok (ipConns l) \<and> gomap_ok (ipRates l) \<and>
     (\<forall>ip c. gomap_get (ipConns l) ip = Some c \<longrightarrow> 1 \<le> c \<and> c \<le> maxConnsPerIP l)"

definition rate_times :: "IPLimiter \<Rightarrow> string \<Rightarrow> time list" where
  "rate_times l ip = (case gomap_get (ipRates l) ip of None \<Rightarrow> [] | Some rate \<Rightarrow> connections rate)"

lemma NewIPLimiter_inv: "ip_inv (NewIPLimiter m r t)"
  by (simp add: ip_inv_def NewIPLimiter_def)

lemma ip_inv_lastCleanup [simp]: "ip_inv (l\<lparr>lastCleanup := t\<rparr>) \<longleftrightarrow> ip_inv l"
  by (simp add: ip_inv_def)

lemma conn_count_pos: "ip_inv l \<Longrightarrow> 0 \<le> conn_count l ip"
  by (force simp: ip_inv_def conn_count_def split: option.split)

text \<open>The periodic cleanup finds nothing to remove.\<close>

lemma ip_cleanup_id:
  assumes "ip_inv l"
  shows "ip_cleanup l = l"
proof -
  have "count \<noteq> 0" if "(ip, count) \<in> set (ipConns l)" for ip count
    using assms that unfolding ip_inv_def by (force simp: gomap_get_in)
  then have "filter (\<lambda>(ip, count). count \<noteq> 0) (ipConns l) = ipConns l"
    by (auto intro: filter_True)
  moreover have "gomap_get (ipConns l) ip \<noteq> Some 0" for ip
    using assms by (force simp: ip_inv_def)
  ultimately show ?thesis by (simp add: ip_cleanup_def)
qed

text \<open>The rate tracker of an address, created when it is missing; only \<open>lastCleanup\<close> may have changed before.\<close>

lemma tracker_get:
  assumes "gomap_ok (ipRates l)" and "0 \<le> rateLimit l" and "l1 = l\<lparr>lastCleanup := t\<rparr>"
  obtains rate l2 where "getOrCreateRateTracker l1 ip = (Ok rate, l2)" "connections rate = rate_times l ip" "ipConns l2 = ipConns l"
    "maxConnsPerIP l2 = maxConnsPerIP l" "rateLimit l2 = rateLimit l"
    "gomap_get (ipRates l2) = (gomap_get (ipRates l))(ip \<mapsto> rate)" "gomap_ok (ipRates l2)"
proof -
  have upd: "gomap_get (gomap_put ip rt m) = (gomap_get m)(ip \<mapsto> rt)" for rt :: rateTracker and m
    by (rule ext) simp
  show thesis using assms that
    by (cases "gomap_get (ipRates l) ip") (auto simp: getOrCreateRateTracker_def rate_times_def upd fun_upd_idem Let_def)
qed

text \<open>Admission with the cleanup out of the way.\<close>

lemma Allow_eq:
  assumes "ip_inv l"
  obtains l1 where "l1 = l\<lparr>lastCleanup := lastCleanup l1\<rparr>"
    "IPLimiter_Allow clk ip l =
     (if maxConnsPerIP l \<le> conn_count l ip then (Ok False, l1)
      else case getOrCreateRateTracker l1 ip of
           (Err e, l1) \<Rightarrow> (Err e, l1)
         | (Panic m, l1) \<Rightarrow> (Panic m, l1)
         | (Ok rate, l2) \<Rightarrow>
             let kept = compact_loop (ck_now clk - second) 0 0 (connections rate);
                 l3 = l2\<lparr>ipRates := gomap_put ip (rate\<lparr>connections := kept\<rparr>) (ipRates l2)\<rparr>
             in if rateLimit l \<le> int (length kept) then (Ok False, l3)
                else (Ok True, l2\<lparr>ipRates := gomap_put ip (rate\<lparr>connections := kept @ [ck_now clk]\<rparr>) (ipRates l2),
                                  ipConns := gomap_put ip (conn_count l ip + 1) (ipConns l2)\<rparr>))"
proof -
  define l1 where "l1 = (if 5 * minute < ck_t0 clk - lastCleanup l
    then (ip_cleanup l)\<lparr>lastCleanup := ck_t1 clk\<rparr> else l)"
  have l1: "l1 = l\<lparr>lastCleanup := lastCleanup l1\<rparr>"
    using ip_cleanup_id [OF assms] by (simp add: l1_def)
  have f: "maxConnsPerIP l1 = maxConnsPerIP l" "rateLimit l1 = rateLimit l" "conn_count l1 = conn_count l"
    by (subst l1, simp add: conn_count_def [abs_def])+
  show thesis by (rule that [OF l1]) (simp only: IPLimiter_Allow_def l1_def [symmetric] f Let_def)
qed

lemma Allow_cases:
  assumes "ip_inv l" and "0 \<le> rateLimit l"
  defines "kept clk ip \<equiv> filter (\<lambda>ts. ck_now clk - second < ts) (rate_times l ip)"
  obtains (full) l' where "maxConnsPerIP l \<le> conn_count l ip"
      "IPLimiter_Allow clk ip l = (Ok False, l')" "l' = l\<lparr>lastCleanup := lastCleanup l'\<rparr>"
  | (fast) l' rt where "conn_count l ip < maxConnsPerIP l" "rateLimit l \<le> int (length (kept clk ip))"
      "IPLimiter_Allow clk ip l = (Ok False, l')"
      "ipConns l' = ipConns l" "gomap_get (ipRates l') = (gomap_get (ipRates l))(ip \<mapsto> rt)"
      "gomap_ok (ipRates l')" "connections rt = kept clk ip"
      "maxConnsPerIP l' = maxConnsPerIP l" "rateLimit l' = rateLimit l"
  | (admit) l' rt where "conn_count l ip < maxConnsPerIP l" "int (length (kept clk ip)) < rateLimit l"
      "IPLimiter_Allow clk ip l = (Ok True, l')"
      "ipConns l' = gomap_put ip (conn_count l ip + 1) (ipConns l)"
      "gomap_get (ipRates l') = (gomap_get (ipRates l))(ip \<mapsto> rt)"
      "gomap_ok (ipRates l')" "connections rt = kept clk ip @ [ck_now clk]"
      "maxConnsPerIP l' = maxConnsPerIP l" "rateLimit l' = rateLimit l"
proof -
  obtain l1 where l1: "l1 = l\<lparr>lastCleanup := lastCleanup l1\<rparr>" and eq: "IPLimiter_Allow clk ip l =
     (if maxConnsPerIP l \<le> conn_count l ip then (Ok False, l1)
      else case getOrCreateRateTracker l1 ip of
           (Err e, l1) \<Rightarrow> (Err e, l1)
         | (Panic m, l1) \<Rightarrow> (Panic m, l1)
         | (Ok rate, l2) \<Rightarrow>
             let kept = compact_loop (ck_now clk - second) 0 0 (connections rate);
                 l3 = l2\<lparr>ipRates := gomap_put ip (rate\<lparr>connections := kept\<rparr>) (ipRates l2)\<rparr>
             in if rateLimit l \<le> int (length kept) then (Ok False, l3)
                else (Ok True, l2\<lparr>ipRates := gomap_put ip (rate\<lparr>connections := kept @ [ck_now clk]\<rparr>) (ipRates l2),
                                  ipConns := gomap_put ip (conn_count l ip + 1) (ipConns l2)\<rparr>))"
    by (rule Allow_eq [OF assms(1)])
  have ok: "gomap_ok (ipRates l)" using assms(1) by (simp add: ip_inv_def)
  show thesis
  proof (cases "maxConnsPerIP l \<le> conn_count l ip")
    case True
    then show ?thesis using eq l1 by (intro full [of l1]) simp_all
  next
    case False
    then have lt: "conn_count l ip < maxConnsPerIP l" by simp
    obtain rate l2 where rate: "getOrCreateRateTracker l1 ip = (Ok rate, l2)" "connections rate = rate_times l ip" "ipConns l2 = ipConns l"
      "maxConnsPerIP l2 = maxConnsPerIP l" "rateLimit l2 = rateLimit l"
      "gomap_get (ipRates l2) = (gomap_get (ipRates l))(ip \<mapsto> rate)" "gomap_ok (ipRates l2)"
      by (rule tracker_get [OF ok assms(2) l1])
    show ?thesis
    proof (cases "rateLimit l \<le> int (length (kept clk ip))")
      case True
      show ?thesis
        by (rule fast [of "l2\<lparr>ipRates := gomap_put ip (rate\<lparr>connections := kept clk ip\<rparr>) (ipRates l2)\<rparr>"
            "rate\<lparr>connections := kept clk ip\<rparr>"])
          (use lt True eq rate in \<open>simp_all add: kept_def fun_eq_iff\<close>)
    next
      case False
      show ?thesis
        by (rule admit [of "l2\<lparr>ipRates := gomap_put ip (rate\<lparr>connections := kept clk ip @ [ck_now clk]\<rparr>) (ipRates l2),
              ipConns := gomap_put ip (conn_count l ip + 1) (ipConns l2)\<rparr>"
            "rate\<lparr>connections := kept clk ip @ [ck_now clk]\<rparr>"])
          (use lt False eq rate in \<open>simp_all add: kept_def fun_eq_iff\<close>)
    qed
  qed
qed

text \<open>The three outcomes together, with what they leave in the maps.\<close>

lemma Allow_effect:
  assumes "ip_inv l" and "0 \<le> rateLimit l" and "IPLimiter_Allow clk ip l = (r, l')"
  defines "kept \<equiv> filter (\<lambda>ts. ck_now clk - second < ts) (rate_times l ip)"
  shows "ip_inv l'" "maxConnsPerIP l' = maxConnsPerIP l" "rateLimit l' = rateLimit l"
    "r = Ok (conn_count l ip < maxConnsPerIP l \<and> int (length kept) < rateLimit l)"
    "conn_count l' i = conn_count l i + (if i = ip \<and> r = Ok True then 1 else 0)"
    "rate_times l' i = (if i = ip \<and> conn_count l ip < maxConnsPerIP l
       then kept @ (if r = Ok True then [ck_now clk] else []) else rate_times l i)"
    "gomap_get (ipRates l) i \<noteq> None \<Longrightarrow> gomap_get (ipRates l') i \<noteq> None"
proof -
  let ?post = "ip_inv l' \<and> maxConnsPerIP l' = maxConnsPerIP l \<and> rateLimit l' = rateLimit l \<and>
      r = Ok (conn_count l ip < maxConnsPerIP l \<and> int (length kept) < rateLimit l) \<and>
      conn_count l' i = conn_count l i + (if i = ip \<and> r = Ok True then 1 else 0) \<and>
      rate_times l' i = (if i = ip \<and> conn_count l ip < maxConnsPerIP l
        then kept @ (if r = Ok True then [ck_now clk] else []) else rate_times l i) \<and>
      (gomap_get (ipRates l) i \<noteq> None \<longrightarrow> gomap_get (ipRates l') i \<noteq> None)"
  have ?post
  proof (cases rule: Allow_cases [OF assms(1,2), of ip clk])
    case (1 l'')
    then have l': "r = Ok False" "l' = l\<lparr>lastCleanup := lastCleanup l'\<rparr>" using assms(3) by auto
    have "ip_inv l'" "maxConnsPerIP l' = maxConnsPerIP l" "rateLimit l' = rateLimit l"
      "conn_count l' i = conn_count l i" "rate_times l' i = rate_times l i" "ipRates l' = ipRates l"
      by (subst l'(2), simp add: assms(1) conn_count_def rate_times_def)+
    then show ?post using 1(1) l'(1) by simp
  next
    case (2 l'' rt)
    then have "r = Ok False" "l'' = l'" using assms(3) by auto
    with 2 assms(1) show ?post
      by (simp add: ip_inv_def conn_count_def rate_times_def kept_def)
  next
    case (3 l'' rt)
    then have r: "r = Ok True" "l'' = l'" using assms(3) by auto
    have "0 \<le> conn_count l ip" using assms(1) by (rule conn_count_pos)
    with r 3 assms(1) show ?post
      by (simp add: ip_inv_def conn_count_def rate_times_def kept_def)
  qed
  then show "ip_inv l'" "maxConnsPerIP l' = maxConnsPerIP l" "rateLimit l' = rateLimit l"
    "r = Ok (conn_count l ip < maxConnsPerIP l \<and> int (length kept) < rateLimit l)"
    "conn_count l' i = conn_count l i + (if i = ip \<and> r = Ok True then 1 else 0)"
    "rate_times l' i = (if i = ip \<and> conn_count l ip < maxConnsPerIP l
       then kept @ (if r = Ok True then [ck_now clk] else []) else rate_times l i)"
    "gomap_get (ipRates l) i \<noteq> None \<Longrightarrow> gomap_get (ipRates l') i \<noteq> None"
    by blast+
qed

lemma Release_effect:
  assumes "ip_inv l"
  shows "ip_inv (IPLimiter_Release ip l)"
    "maxConnsPerIP (IPLimiter_Release ip l) = maxConnsPerIP l"
    "rateLimit (IPLimiter_Release ip l) = rateLimit l" "ipRates (IPLimiter_Release ip l) = ipRates l"
    "conn_count (IPLimiter_Release ip l) i = (if i = ip then max 0 (conn_count l i - 1) else conn_count l i)"
proof -
  have "1 \<le> c \<and> c \<le> maxConnsPerIP l" if "gomap_get (ipConns l) ip = Some c" for c
    using assms that by (simp add: ip_inv_def)
  note b = this
  show "ip_inv (IPLimiter_Release ip l)"
    using assms b by (force simp: ip_inv_def IPLimiter_Release_def split: option.split)
  show "conn_count (IPLimiter_Release ip l) i = (if i = ip then max 0 (conn_count l i - 1) else conn_count l i)"
    using b by (auto simp: conn_count_def IPLimiter_Release_def split: option.split)
qed (auto simp: IPLimiter_Release_def split: option.split)

section \<open>The interface of an admission control\<close>

text \<open>
  What a handler relies on, for both limiters: a slot is taken or refused, a slot taken can be
  given back, and nothing else changes, where \<open>same\<close> is all a limiter promises to keep (its
  limits, and the counts of others).
\<close>

datatype 't adm_op = Enter 't | Leave

fun adm_run :: "('t \<Rightarrow> 'l \<Rightarrow> bool \<times> 'l) \<Rightarrow> ('l \<Rightarrow> 'l) \<Rightarrow> 't adm_op list \<Rightarrow> nat \<times> 'l \<Rightarrow> nat \<times> 'l" where
  "adm_run tk gv [] (h, l) = (h, l)"
| "adm_run tk gv (Enter t # ops) (h, l) = (case tk t l of (b, l') \<Rightarrow> adm_run tk gv ops (if b then Suc h else h, l'))"
| "adm_run tk gv (Leave # ops) (h, l) = (case h of 0 \<Rightarrow> adm_run tk gv ops (0, l) | Suc k \<Rightarrow> adm_run tk gv ops (k, gv l))"

locale admission =
  fixes adm_inv :: "'l \<Rightarrow> bool"
    and take_slot :: "'t \<Rightarrow> 'l \<Rightarrow> bool \<times> 'l"
    and give_slot :: "'l \<Rightarrow> 'l"
    and slots :: "'l \<Rightarrow> int"
    and same :: "'l \<Rightarrow> 'l \<Rightarrow> bool"
  assumes take_inv: "adm_inv l \<Longrightarrow> take_slot t l = (b, l') \<Longrightarrow> adm_inv l'"
    and take_slots: "adm_inv l \<Longrightarrow> take_slot t l = (b, l') \<Longrightarrow> slots l' = slots l + (if b then 1 else 0)"
    and take_same: "adm_inv l \<Longrightarrow> take_slot t l = (b, l') \<Longrightarrow> same l l'"
    and give_inv: "adm_inv l \<Longrightarrow> 0 < slots l \<Longrightarrow> adm_inv (give_slot l)"
    and give_slots: "adm_inv l \<Longrightarrow> 0 < slots l \<Longrightarrow> slots (give_slot l) = slots l - 1"
    and give_same: "adm_inv l \<Longrightarrow> same l (give_slot l)"
    and slots_nonneg: "adm_inv l \<Longrightarrow> 0 \<le> slots l"
    and same_refl: "same l l"
    and same_trans: "same l l' \<Longrightarrow> same l' l'' \<Longrightarrow> same l l''"
begin

text \<open>A connection that keeps its slot while others come and go leaves the count as it found it.\<close>

lemma bracket:
  assumes "adm_inv l" and "take_slot t l = (True, l1)" and "adm_inv l2" and "same l1 l2" and "slots l2 = slots l1"
  shows "adm_inv (give_slot l2)" "slots (give_slot l2) = slots l" "same l (give_slot l2)"
proof -
  have "slots l2 = slots l + 1" using take_slots [OF assms(1,2)] assms(5) by simp
  then show "slots (give_slot l2) = slots l" "adm_inv (give_slot l2)"
    using give_slots [OF assms(3)] give_inv [OF assms(3)] slots_nonneg [OF assms(1)] by simp_all
  show "same l (give_slot l2)" using take_same [OF assms(1,2)] assms(4) give_same [OF assms(3)] same_trans by blast
qed

text \<open>Connections that overlap in any way: as many slots are taken as there are connections inside.\<close>

lemma overlapping:
  assumes "adm_inv l" and "slots l = int h" and "adm_run take_slot give_slot ops (h, l) = (h', l')"
  shows "adm_inv l' \<and> slots l' = int h' \<and> same l l'"
  using assms
proof (induction ops arbitrary: h l)
  case Nil
  then show ?case by (simp add: same_refl)
next
  case (Cons op ops)
  show ?case
  proof (cases op)
    case (Enter t)
    obtain b l1 where t: "take_slot t l = (b, l1)" by fastforce
    have "adm_run take_slot give_slot ops (if b then Suc h else h, l1) = (h', l')" using Cons.prems(3) Enter t by simp
    from Cons.IH [OF take_inv [OF Cons.prems(1) t] _ this] show ?thesis
      using take_slots [OF Cons.prems(1) t] take_same [OF Cons.prems(1) t] same_trans Cons.prems(2) by auto
  next
    case Leave
    show ?thesis
    proof (cases h)
      case 0
      then show ?thesis using Cons Leave by simp
    next
      case (Suc k)
      then have run: "adm_run take_slot give_slot ops (k, give_slot l) = (h', l')" using Cons.prems(3) Leave by simp
      have "0 < slots l" using Cons.prems(2) Suc by simp
      from Cons.IH [OF give_inv [OF Cons.prems(1) this] _ run] this show ?thesis
        using give_slots [OF Cons.prems(1)] give_same [OF Cons.prems(1)] same_trans Cons.prems(2) Suc by auto
    qed
  qed
qed

end

interpretation global_adm: admission "\<lambda>l. 0 \<le> current l" "\<lambda>_ :: unit. Limiter_Allow" Limiter_Release current
    "\<lambda>l l'. maxConns l' = maxConns l"
  by unfold_locales (auto simp: Limiter_Allow_def Limiter_Release_def split: if_splits)

interpretation ip_adm: admission "\<lambda>l. ip_inv l \<and> 0 \<le> rateLimit l" "\<lambda>clk l. case IPLimiter_Allow clk ip l of (r, l') \<Rightarrow> (r = Ok True, l')"
    "IPLimiter_Release ip" "\<lambda>l. conn_count l ip"
    "\<lambda>l l'. maxConnsPerIP l' = maxConnsPerIP l \<and> rateLimit l' = rateLimit l \<and> (\<forall>i. i \<noteq> ip \<longrightarrow> conn_count l' i = conn_count l i)" for ip
proof unfold_locales
  fix l clk b l'
  assume l: "ip_inv l \<and> 0 \<le> rateLimit l" and "(case IPLimiter_Allow clk ip l of (r, l') \<Rightarrow> (r = Ok True, l')) = (b, l')"
  then obtain r where a: "IPLimiter_Allow clk ip l = (r, l')" and b: "b = (r = Ok True)" by (auto split: prod.splits)
  have inv: "ip_inv l" "0 \<le> rateLimit l" using l by simp_all
  note eff = Allow_effect [OF inv a]
  show "ip_inv l' \<and> 0 \<le> rateLimit l'" using eff(1,3) inv by simp
  show "conn_count l' ip = conn_count l ip + (if b then 1 else 0)" using eff(5) [of ip] b by simp
  show "maxConnsPerIP l' = maxConnsPerIP l \<and> rateLimit l' = rateLimit l \<and> (\<forall>i. i \<noteq> ip \<longrightarrow> conn_count l' i = conn_count l i)"
    using eff(2,3,5) by simp
qed (simp_all add: Release_effect conn_count_pos)

section \<open>Histories of the limiter per address\<close>

lemma ip_run_state:
  assumes "ip_inv l" and "0 \<le> rateLimit l"
  shows "ip_inv (fst (ip_run l es)) \<and> maxConnsPerIP (fst (ip_run l es)) = maxConnsPerIP l \<and>
    rateLimit (fst (ip_run l es)) = rateLimit l \<and>
    conn_count (fst (ip_run l es)) i = outstanding i (conn_count l i) (snd (ip_run l es)) \<and>
    (gomap_get (ipRates l) i \<noteq> None \<longrightarrow> gomap_get (ipRates (fst (ip_run l es))) i \<noteq> None)"
  using assms
proof (induction l es rule: ip_run.induct)
  case (2 l clk ip es)
  obtain r l' where a: "IPLimiter_Allow clk ip l = (r, l')" by (cases "IPLimiter_Allow clk ip l")
  note eff = Allow_effect [OF "2.prems" a]
  have "outstanding i (conn_count l i) ((if r = Ok True then [Admitted (ck_now clk) ip] else []) @ es') =
      outstanding i (conn_count l' i) es'" for es'
    by (simp add: eff(5))
  moreover have "0 \<le> rateLimit l'" using eff(3) "2.prems" by simp
  ultimately show ?case using "2.IH" [OF a [symmetric] eff(1)] eff(2,3) eff(7) [of i] a by (simp)
next
  case (3 l ip es)
  then show ?case by (simp add: Release_effect)
qed simp

lemma conn_count_bound: "ip_inv l \<Longrightarrow> conn_count l ip \<le> max 0 (maxConnsPerIP l)"
  by (force simp: ip_inv_def conn_count_def split: option.split)

text \<open>
  After any sequence of \<open>Allow\<close> and \<open>Release\<close> calls on a fresh per-address limiter
  the count of an address is the number of its admitted connections not yet released
  (a release without an open connection changes nothing), and it never exceeds the limit.
\<close>

theorem IPLimiter_counts:
  assumes "0 \<le> r"
  shows "conn_count (fst (ip_run (NewIPLimiter m r t) es)) ip =
      outstanding ip 0 (snd (ip_run (NewIPLimiter m r t) es)) \<and>
    0 \<le> conn_count (fst (ip_run (NewIPLimiter m r t) es)) ip \<and>
    conn_count (fst (ip_run (NewIPLimiter m r t) es)) ip \<le> max 0 m"
proof -
  have n: "0 \<le> rateLimit (NewIPLimiter m r t)" "maxConnsPerIP (NewIPLimiter m r t) = m"
    "conn_count (NewIPLimiter m r t) ip = 0"
    using assms by (simp_all add: NewIPLimiter_def conn_count_def)
  from ip_run_state [OF NewIPLimiter_inv n(1), of es ip] show ?thesis
    using conn_count_pos conn_count_bound n by metis
qed

theorem IPLimiter_counts_witness:
  "let es = [CallAllow \<lparr>ck_t0 = 0, ck_t1 = 0, ck_now = 0\<rparr> ''a'', CallAllow \<lparr>ck_t0 = 0, ck_t1 = 0, ck_now = 1\<rparr> ''a'',
      CallRelease ''a'', CallAllow \<lparr>ck_t0 = 0, ck_t1 = 0, ck_now = 2\<rparr> ''a'']
   in outstanding ''a'' 0 (snd (ip_run (NewIPLimiter 1 5 0) es)) = 1 \<and>
      conn_count (fst (ip_run (NewIPLimiter 1 5 0) es)) ''a'' = 1"
  unfolding Let_def
  by (subst IPLimiter_counts [THEN conjunct1], simp, code_simp)

text \<open>
  The window.  While the history runs, the tracker of an address and the admissions of that
  address agree on everything younger than one second before the last clock reading.
\<close>

definition window_inv :: "IPLimiter \<Rightarrow> string \<Rightarrow> time list \<Rightarrow> time \<Rightarrow> bool" where
  "window_inv l ip adm t \<longleftrightarrow> ip_inv l \<and> 0 \<le> rateLimit l \<and>
     (\<forall>c \<ge> t - second. filter (\<lambda>x. c < x) (rate_times l ip) = filter (\<lambda>x. c < x) adm) \<and>
     (\<forall>u. int (length (in_window u adm)) \<le> rateLimit l)"

lemma window_inv_later: "window_inv l ip adm t \<Longrightarrow> t \<le> t' \<Longrightarrow> window_inv l ip adm t'"
  by (auto simp: window_inv_def)

lemma window_Release: "window_inv l ip adm t \<Longrightarrow> window_inv (IPLimiter_Release i l) ip adm t"
  by (simp add: window_inv_def Release_effect rate_times_def)

lemma in_window_snoc:
  assumes "\<forall>u. int (length (in_window u adm)) \<le> r" and "int (length (filter (\<lambda>x. t - second < x) adm)) < r"
  shows "int (length (in_window u (adm @ [t]))) \<le> r"
proof (cases "t \<le> u")
  case True
  then have sub: "in_window u adm = filter (\<lambda>x. u - second < x \<and> x \<le> u) (filter (\<lambda>x. t - second < x) adm)"
    by (auto simp: in_window_def intro!: filter_cong)
  have "length (in_window u adm) \<le> length (filter (\<lambda>x. t - second < x) adm)"
    unfolding sub by (rule length_filter_le)
  moreover have "length (in_window u (adm @ [t])) \<le> Suc (length (in_window u adm))"
    by (simp add: in_window_def)
  ultimately show ?thesis using assms(2) by linarith
next
  case False
  then show ?thesis using assms(1) by (simp add: in_window_def)
qed

lemma window_Allow:
  assumes "window_inv l ip adm (ck_now clk)" and "IPLimiter_Allow clk i l = (r, l')"
  shows "window_inv l' ip (adm @ (if r = Ok True \<and> i = ip then [ck_now clk] else [])) (ck_now clk)"
proof -
  have inv: "ip_inv l" "0 \<le> rateLimit l"
    and agree: "\<And>c. ck_now clk - second \<le> c \<Longrightarrow>
      filter (\<lambda>x. c < x) (rate_times l ip) = filter (\<lambda>x. c < x) adm"
    and bound: "\<forall>u. int (length (in_window u adm)) \<le> rateLimit l"
    using assms(1) by (auto simp: window_inv_def)
  note eff = Allow_effect [OF inv assms(2)]
  have twice: "filter (\<lambda>x. c < x) (filter (\<lambda>x. ck_now clk - second < x) ts) = filter (\<lambda>x. c < x) ts"
    if "ck_now clk - second \<le> c" for c and ts :: "time list"
    using that by (auto intro!: filter_cong)
  show ?thesis
  proof (cases "r = Ok True \<and> i = ip")
    case True
    then have "int (length (filter (\<lambda>x. ck_now clk - second < x) adm)) < rateLimit l"
      using eff(4) agree [of "ck_now clk - second"] by auto
    from in_window_snoc [OF bound this] True show ?thesis
      using eff(1-3) inv twice agree eff(4) by (auto simp: window_inv_def eff(6))
  next
    case False
    then show ?thesis
      using eff(1-3) inv twice agree bound by (auto simp: window_inv_def eff(6))
  qed
qed

lemma window_run:
  assumes "window_inv l ip adm t" and "sorted (t # call_times es)"
  shows "int (length (in_window u (adm @ admissions ip (snd (ip_run l es))))) \<le> rateLimit l"
  using assms
proof (induction l es arbitrary: adm t rule: ip_run.induct)
  case (1 l)
  then show ?case by (simp add: window_inv_def)
next
  case (2 l clk i es)
  obtain r l' where a: "IPLimiter_Allow clk i l = (r, l')" by (cases "IPLimiter_Allow clk i l")
  have "window_inv l ip adm (ck_now clk)" using "2.prems" by (auto intro: window_inv_later)
  from window_Allow [OF this a] have w: "window_inv l' ip (adm @ (if r = Ok True \<and> i = ip then [ck_now clk] else [])) (ck_now clk)" .
  have "rateLimit l' = rateLimit l"
    using Allow_effect(3) [OF _ _ a] "2.prems"(1) by (simp add: window_inv_def)
  moreover have "sorted (ck_now clk # call_times es)" using "2.prems"(2) by simp
  ultimately show ?case using "2.IH" [OF a [symmetric] w] a by (auto split: if_splits)
next
  case (3 l i es)
  have "rateLimit (IPLimiter_Release i l) = rateLimit l"
    using "3.prems"(1) by (simp add: Release_effect window_inv_def)
  with "3.IH" [OF window_Release [OF "3.prems"(1)]] "3.prems"(2) show ?case by simp
qed

text \<open>
  C21. The rate limit is a true sliding window: over any history whose clock readings do
  not go backwards, no half-open second \<open>(u - 1s, u]\<close>, wherever it lies, holds more
  admissions of one address than the rate limit.
\<close>

theorem IPLimiter_rate:
  assumes "0 \<le> r" and "sorted (call_times es)"
  shows "int (length (in_window u (admissions ip (snd (ip_run (NewIPLimiter m r t) es))))) \<le> r"
proof -
  have "window_inv (NewIPLimiter m r t) ip [] t'" for t'
    using assms(1) NewIPLimiter_inv
    by (simp add: window_inv_def in_window_def NewIPLimiter_def rate_times_def)
  moreover obtain t' where "sorted (t' # call_times es)"
    using assms(2) by (cases "call_times es") auto
  ultimately show ?thesis
    using window_run [of "NewIPLimiter m r t" ip "[]" t' es u] by (simp add: NewIPLimiter_def)
qed

theorem IPLimiter_rate_witness:
  "let es = [CallAllow \<lparr>ck_t0 = 0, ck_t1 = 0, ck_now = 0\<rparr> ''a'', CallAllow \<lparr>ck_t0 = 0, ck_t1 = 0, ck_now = 1\<rparr> ''a'',
      CallAllow \<lparr>ck_t0 = 0, ck_t1 = 0, ck_now = second\<rparr> ''a'']
   in admissions ''a'' (snd (ip_run (NewIPLimiter 9 1 0) es)) = [0, second] \<and>
      int (length (in_window second (admissions ''a'' (snd (ip_run (NewIPLimiter 9 1 0) es))))) \<le> 1"
  unfolding Let_def
  by (rule conjI, code_simp, rule IPLimiter_rate; simp)

text \<open>
  The limiter never forgets an address: once an address has a rate tracker, it has one
  after every later history, including the five-minute cleanups, because \<open>Release\<close> deletes
  a count that reaches zero and the cleanup looks for counts that are zero.
\<close>

theorem rate_trackers_never_removed:
  assumes "0 \<le> r" and "gomap_get (ipRates (fst (ip_run (NewIPLimiter m r t) es))) ip \<noteq> None"
  shows "gomap_get (ipRates (fst (ip_run (fst (ip_run (NewIPLimiter m r t) es)) es'))) ip \<noteq> None"
proof -
  have "0 \<le> rateLimit (NewIPLimiter m r t)" using assms(1) by (simp add: NewIPLimiter_def)
  note ip_run_state [OF NewIPLimiter_inv this, of es ip]
  moreover from this have "0 \<le> rateLimit (fst (ip_run (NewIPLimiter m r t) es))"
    using assms(1) by (simp add: NewIPLimiter_def)
  ultimately show ?thesis
    using ip_run_state [of "fst (ip_run (NewIPLimiter m r t) es)" es' ip] assms(2) by blast
qed

theorem rate_trackers_never_removed_witness:
  "let es = [CallAllow \<lparr>ck_t0 = 0, ck_t1 = 0, ck_now = 0\<rparr> ''a'', CallRelease ''a'']
   in gomap_get (ipRates (fst (ip_run (fst (ip_run (NewIPLimiter 9 1 0) es))
        [CallAllow \<lparr>ck_t0 = 60 * minute, ck_t1 = 60 * minute, ck_now = 60 * minute\<rparr> ''b'']))) ''a'' \<noteq> None"
  unfolding Let_def
  by (rule rate_trackers_never_removed, simp, code_simp)

end
