(* ===== verification/CircuitBreaker.thy ===== *)
theory CircuitBreaker
  imports GatewayPrelude
begin

text \<open>
  \<open>internal/circuitbreaker/breaker.go\<close> and the registry of breakers per backend address in
  \<open>internal/gateway/breaker.go\<close>.  The operations are functions of the breaker and of the
  clock reading they take; a run is a sequence of calls.
\<close>

section \<open>The breaker\<close>

datatype State = StateClosed | StateOpen | StateHalfOpen

record Breaker =
  maxFailures :: int
  timeout :: duration
  state :: State
  failures :: int
  lastFailure :: time

text \<open>The zero \<open>time.Time\<close> of a new breaker is not read before a failure sets the field.\<close>

definition NewBreaker :: "int \<Rightarrow> duration \<Rightarrow> Breaker" where
  "NewBreaker m d = \<lparr>maxFailures = m, timeout = d, state = StateClosed, failures = 0, lastFailure = 0\<rparr>"

definition Breaker_Allow :: "time \<Rightarrow> Breaker \<Rightarrow> bool \<times> Breaker" where
  "Breaker_Allow now b =
     (case state b of
        StateClosed \<Rightarrow> (True, b)
      | StateOpen \<Rightarrow>
          if timeout b \<le> now - lastFailure b then (True, b\<lparr>state := StateHalfOpen, failures := 0\<rparr>)
          else (False, b)
      | StateHalfOpen \<Rightarrow> (True, b))"

definition RecordSuccess :: "Breaker \<Rightarrow> Breaker" where
  "RecordSuccess b =
     (if state b = StateHalfOpen then b\<lparr>state := StateClosed, failures := 0\<rparr> else b)"

definition RecordFailure :: "time \<Rightarrow> Breaker \<Rightarrow> Breaker" where
  "RecordFailure now b =
     (let n = failures b + 1; b' = b\<lparr>failures := n, lastFailure := now\<rparr>
      in if maxFailures b \<le> n then b'\<lparr>state := StateOpen\<rparr> else b')"

text \<open>A sequence of calls, with the answers of \<open>Allow\<close> in order.\<close>

datatype brk_call = CAllow time | CSuccess | CFailure time

fun brk_run :: "Breaker \<Rightarrow> brk_call list \<Rightarrow> bool list \<times> Breaker" where
  "brk_run b [] = ([], b)"
| "brk_run b (CAllow t # cs) =
     (case Breaker_Allow t b of (r, b') \<Rightarrow> apfst (Cons r) (brk_run b' cs))"
| "brk_run b (CSuccess # cs) = brk_run (RecordSuccess b) cs"
| "brk_run b (CFailure t # cs) = brk_run (RecordFailure t b) cs"

section \<open>The registry\<close>

text \<open>
  The breakers of the gateway.  Each breaker is referenced from one map entry only, so an
  operation on it is an update of that entry.
\<close>

type_synonym breakers = "(string, Breaker) gomap"

definition getOrCreateBreaker :: "string \<Rightarrow> breakers \<Rightarrow> Breaker \<times> breakers" where
  "getOrCreateBreaker addr m =
     (case gomap_get m addr of
        Some b \<Rightarrow> (b, m)
      | None \<Rightarrow> let b = NewBreaker 5 (30 * second) in (b, gomap_put addr b m))"

section \<open>Behaviour of the breaker\<close>

lemmas breaker_ops = Breaker_Allow_def RecordSuccess_def RecordFailure_def

definition brk_inv :: "Breaker \<Rightarrow> bool" where
  "brk_inv b \<longleftrightarrow> 1 \<le> maxFailures b \<and> 0 \<le> failures b \<and> (state b = StateOpen \<longleftrightarrow> maxFailures b \<le> failures b)"

lemma brk_inv_ops:
  assumes "brk_inv b"
  shows "brk_inv (snd (Breaker_Allow t b))" "brk_inv (RecordSuccess b)" "brk_inv (RecordFailure t b)"
  using assms by (auto simp: brk_inv_def breaker_ops Let_def split: State.splits)

lemma brk_inv_run: "brk_inv b \<Longrightarrow> brk_inv (snd (brk_run b cs))"
proof (induction b cs rule: brk_run.induct)
  case (2 b t cs)
  then show ?case using brk_inv_ops(1) [OF "2.prems", of t] by (cases "Breaker_Allow t b") simp
qed (simp_all add: brk_inv_ops)

lemma NewBreaker_inv: "1 \<le> m \<Longrightarrow> brk_inv (NewBreaker m d)"
  by (simp add: brk_inv_def NewBreaker_def)

definition failure_count :: "brk_call list \<Rightarrow> nat" where
  "failure_count cs = length (filter (\<lambda>c. case c of CFailure _ \<Rightarrow> True | _ \<Rightarrow> False) cs)"

text \<open>Calls made before instant \<open>t\<close>, and no failure among them.\<close>

fun quiet_until :: "time \<Rightarrow> brk_call \<Rightarrow> bool" where
  "quiet_until t (CAllow u) \<longleftrightarrow> u < t"
| "quiet_until t CSuccess \<longleftrightarrow> True"
| "quiet_until t (CFailure u) \<longleftrightarrow> False"

fun allow_count :: "brk_call list \<Rightarrow> nat" where
  "allow_count [] = 0"
| "allow_count (CAllow t # cs) = Suc (allow_count cs)"
| "allow_count (_ # cs) = allow_count cs"

lemma closed_run:
  assumes "state b = StateClosed" and "0 \<le> failures b" and "failures b + int (failure_count cs) < maxFailures b"
  shows "state (snd (brk_run b cs)) = StateClosed \<and>
     failures (snd (brk_run b cs)) = failures b + int (failure_count cs) \<and>
     maxFailures (snd (brk_run b cs)) = maxFailures b \<and>
     timeout (snd (brk_run b cs)) = timeout b \<and>
     fst (brk_run b cs) = replicate (allow_count cs) True"
  using assms
  by (induction b cs rule: brk_run.induct)
    (auto simp: breaker_ops failure_count_def Let_def)

lemma brk_run_append:
  "brk_run b (cs @ ds) = (case brk_run b cs of (rs, b') \<Rightarrow> apfst (append rs) (brk_run b' ds))"
  by (induction b cs rule: brk_run.induct) (auto simp: apfst_def map_prod_def split: prod.split)

text \<open>
  C38. A fresh breaker counts failures over its whole closed life: whatever successes lie
  between them, it stays closed and admits every request until the \<open>m\<close>-th failure, and that
  failure opens it.
\<close>

theorem breaker_opens_at_max:
  assumes "1 \<le> m" and "int (failure_count cs) = m - 1"
  shows "fst (brk_run (NewBreaker m d) cs) = replicate (allow_count cs) True \<and>
    state (snd (brk_run (NewBreaker m d) cs)) = StateClosed \<and>
    state (snd (brk_run (NewBreaker m d) (cs @ [CFailure t]))) = StateOpen \<and>
    lastFailure (snd (brk_run (NewBreaker m d) (cs @ [CFailure t]))) = t"
proof -
  have "state (NewBreaker m d) = StateClosed" "failures (NewBreaker m d) = 0"
    "maxFailures (NewBreaker m d) = m" by (simp_all add: NewBreaker_def)
  with closed_run [of "NewBreaker m d" cs] assms show ?thesis
    by (cases "brk_run (NewBreaker m d) cs") (simp add: brk_run_append RecordFailure_def Let_def)
qed

theorem breaker_opens_at_max_witness:
  "state (snd (brk_run (NewBreaker 2 9) ([CAllow 1, CFailure 2, CAllow 3, CSuccess] @ [CFailure 4]))) = StateOpen"
  using breaker_opens_at_max [of 2 "[CAllow 1, CFailure 2, CAllow 3, CSuccess]" 9 4]
  by (simp add: failure_count_def)

lemma open_quiet_run:
  assumes "state b = StateOpen" and "list_all (quiet_until (lastFailure b + timeout b)) cs"
  shows "brk_run b cs = (replicate (allow_count cs) False, b)"
  using assms
proof (induction b cs rule: brk_run.induct)
  case (2 b t cs)
  then have a: "Breaker_Allow t b = (False, b)" by (simp add: Breaker_Allow_def)
  with "2.IH" [OF a [symmetric]] "2.prems" show ?case by simp
qed (simp_all add: RecordSuccess_def)

text \<open>
  An open breaker rejects every request made before its timeout has passed since the
  last failure and is not changed by them nor by late successes; the first request at or
  after that instant is admitted as a probe in the half-open state with the count reset; a
  success then closes the breaker.
\<close>

theorem breaker_open_cycle:
  assumes "state b = StateOpen" and "list_all (quiet_until (lastFailure b + timeout b)) cs"
    and "lastFailure b + timeout b \<le> t"
  shows "brk_run b (cs @ [CAllow t]) =
      (replicate (allow_count cs) False @ [True], b\<lparr>state := StateHalfOpen, failures := 0\<rparr>) \<and>
    snd (brk_run b (cs @ [CAllow t, CSuccess])) = b\<lparr>state := StateClosed, failures := 0\<rparr>"
  using assms
  by (simp add: brk_run_append open_quiet_run Breaker_Allow_def RecordSuccess_def)

theorem breaker_open_cycle_witness:
  "let b = \<lparr>maxFailures = 1, timeout = 10, state = StateOpen, failures = 1, lastFailure = 5\<rparr>
   in fst (brk_run b ([CAllow 14, CSuccess] @ [CAllow 15])) = [False, True]"
  using breaker_open_cycle [of "\<lparr>maxFailures = 1, timeout = 10, state = StateOpen, failures = 1, lastFailure = 5\<rparr>"
      "[CAllow 14, CSuccess]" 15]
  by simp

text \<open>
  In every sequence of calls on a fresh breaker the state is open exactly when the
  failure count has reached the threshold, so a request is refused only after at least
  \<open>m\<close> recorded failures and before the timeout has passed since the latest one.
\<close>

theorem breaker_refuses_only_when_tripped:
  assumes "1 \<le> m" and "brk_run (NewBreaker m d) cs = (rs, b)" and "\<not> fst (Breaker_Allow t b)"
  shows "m \<le> failures b \<and> t < lastFailure b + d \<and> m \<le> int (failure_count cs)"
proof -
  have inv: "brk_inv b" using brk_inv_run [OF NewBreaker_inv [OF assms(1)], of d cs] assms(2) by simp
  have mono: "maxFailures (snd (brk_run b0 cs)) = maxFailures b0 \<and> timeout (snd (brk_run b0 cs)) = timeout b0 \<and>
      failures (snd (brk_run b0 cs)) \<le> failures b0 + int (failure_count cs)" if "0 \<le> failures b0" for b0
    using that
    by (induction b0 cs rule: brk_run.induct)
      (fastforce simp: breaker_ops failure_count_def Let_def split: State.splits if_splits prod.splits)+
  from mono [of "NewBreaker m d"] assms(2) have "maxFailures b = m" "timeout b = d"
    "failures b \<le> int (failure_count cs)" by (simp_all add: NewBreaker_def)
  then show ?thesis using inv assms(3)
    by (auto simp: brk_inv_def Breaker_Allow_def split: State.splits if_splits)
qed

theorem breaker_refuses_only_when_tripped_witness:
  "2 \<le> int (failure_count [CFailure 1, CFailure 2])"
  using breaker_refuses_only_when_tripped [of 2 10 "[CFailure 1, CFailure 2]" "[]"
      "\<lparr>maxFailures = 2, timeout = 10, state = StateOpen, failures = 2, lastFailure = 2\<rparr>" 5]
  by (simp add: NewBreaker_def breaker_ops Let_def)

end
