(* ===== verification/Retry.thy ===== *)
theory Retry
  imports GatewayPrelude
begin

text \<open>
  \<open>internal/retry/retry.go\<close>.  The function to retry, the context and the timer are
  parameters acting on a state: a call may fail, the context may be done before an
  attempt, and the wait between two attempts ends by the timer or by the context.
\<close>

section \<open>The loop\<close>

record RetryConfig =
  MaxRetries :: int
  RetryDelay :: "64 word"

record 's retry_env =
  ctx_Err :: "'s \<Rightarrow> go_error option"
  fn :: "'s \<Rightarrow> go_error option \<times> 's"
  wait :: "duration \<Rightarrow> 's \<Rightarrow> go_error option \<times> 's"

text \<open>
  \<open>time.Duration(1<<uint(i)) * cfg.RetryDelay\<close>: shift and product of 64-bit integers,
  read as a signed value.
\<close>

definition backoff :: "RetryConfig \<Rightarrow> nat \<Rightarrow> duration" where
  "backoff cfg i = sint (push_bit i 1 * RetryDelay cfg)"

function Do_loop :: "'s retry_env \<Rightarrow> RetryConfig \<Rightarrow> nat \<Rightarrow> go_error option \<Rightarrow> 's \<Rightarrow> go_error option \<times> 's" where
  "Do_loop env cfg i lastErr s =
     (if \<not> int i < MaxRetries cfg
      then (Some (Errorf (''failed after '' @ dec_int (MaxRetries cfg) @ '' retries: '') lastErr), s)
      else case ctx_Err env s of
        Some e \<Rightarrow> (Some e, s)
      | None \<Rightarrow>
          (case fn env s of
             (None, s1) \<Rightarrow> (None, s1)
           | (Some err, s1) \<Rightarrow>
               if int i < MaxRetries cfg - 1 then
                 (case wait env (backoff cfg i) s1 of
                    (Some e, s2) \<Rightarrow> (Some e, s2)
                  | (None, s2) \<Rightarrow> Do_loop env cfg (Suc i) (Some err) s2)
               else Do_loop env cfg (Suc i) (Some err) s1))"
  by pat_completeness auto
termination
  by (relation "measure (\<lambda>(env, cfg, i, lastErr, s). nat (MaxRetries cfg) - i)") auto

declare Do_loop.simps [simp del]

definition Do :: "'s retry_env \<Rightarrow> RetryConfig \<Rightarrow> 's \<Rightarrow> go_error option \<times> 's" where
  "Do env cfg s = Do_loop env cfg 0 None s"

section \<open>Runs against a script\<close>

text \<open>
  A script says how attempt \<open>i\<close> ends, whether the context is done before attempt \<open>i\<close>, and
  whether it is done during the wait that follows attempt \<open>i\<close>; the state is the log.
\<close>

datatype retry_event = Attempt | Sleep duration

record script =
  outcome :: "nat \<Rightarrow> go_error option"
  done_before :: "nat \<Rightarrow> go_error option"
  done_during :: "nat \<Rightarrow> go_error option"

definition attempts :: "retry_event list \<Rightarrow> nat" where
  "attempts tr = length (filter (\<lambda>e. e = Attempt) tr)"

definition script_env :: "script \<Rightarrow> retry_event list retry_env" where
  "script_env sc =
     \<lparr>ctx_Err = (\<lambda>tr. done_before sc (attempts tr)),
      fn = (\<lambda>tr. (outcome sc (attempts tr), tr @ [Attempt])),
      wait = (\<lambda>d tr. case done_during sc (attempts tr - 1) of
                 Some e \<Rightarrow> (Some e, tr) | None \<Rightarrow> (None, tr @ [Sleep d]))\<rparr>"

text \<open>The log of \<open>k\<close> attempts that all failed, with the wait after each.\<close>

definition failed_log :: "RetryConfig \<Rightarrow> nat \<Rightarrow> retry_event list" where
  "failed_log cfg k = concat (map (\<lambda>i. [Attempt, Sleep (backoff cfg i)]) [0..<k])"

text \<open>The first \<open>k\<close> attempts and the waits after them fail and are not interrupted.\<close>

definition fails_until :: "script \<Rightarrow> nat \<Rightarrow> bool" where
  "fails_until sc k \<longleftrightarrow> (\<forall>i<k. outcome sc i \<noteq> None \<and> done_before sc i = None \<and> done_during sc i = None)"

lemma attempts_simps [simp]:
  "attempts [] = 0" "attempts (Attempt # tr) = Suc (attempts tr)" "attempts (Sleep d # tr) = attempts tr"
  "attempts (tr @ tr') = attempts tr + attempts tr'"
  by (simp_all add: attempts_def)

lemma failed_log_Suc: "failed_log cfg (Suc k) = failed_log cfg k @ [Attempt] @ [Sleep (backoff cfg k)]"
  by (simp add: failed_log_def)

lemma attempts_failed_log [simp]: "attempts (failed_log cfg k) = k"
  by (induction k) (simp_all add: failed_log_Suc failed_log_def [of _ 0])

text \<open>The error kept from the attempts before \<open>k\<close>.\<close>

definition last_error :: "script \<Rightarrow> nat \<Rightarrow> go_error option" where
  "last_error sc k = (if k = 0 then None else outcome sc (k - 1))"

lemma Do_reaches:
  assumes "fails_until sc k" and "int k < MaxRetries cfg"
  shows "Do (script_env sc) cfg [] = Do_loop (script_env sc) cfg k (last_error sc k) (failed_log cfg k)"
  using assms
proof (induction k)
  case 0
  then show ?case by (simp add: Do_def last_error_def failed_log_def)
next
  case (Suc k)
  then have "outcome sc k \<noteq> None" "done_before sc k = None" "done_during sc k = None" "fails_until sc k"
    by (simp_all add: fails_until_def)
  moreover from this Suc have "Do (script_env sc) cfg [] = Do_loop (script_env sc) cfg k (last_error sc k) (failed_log cfg k)"
    by simp
  ultimately show ?case using Suc.prems(2)
    by (auto simp: Do_loop.simps [of _ _ k] script_env_def last_error_def failed_log_Suc)
qed

lemma backoff_exact:
  assumes "0 \<le> sint (RetryDelay cfg)" and "2 ^ i * sint (RetryDelay cfg) < 2 ^ 63"
  shows "backoff cfg i = 2 ^ i * sint (RetryDelay cfg)"
proof -
  have "push_bit i 1 * RetryDelay cfg = word_of_int (2 ^ i * sint (RetryDelay cfg))"
    by (simp add: push_bit_eq_mult)
  then have "backoff cfg i = signed_take_bit 63 (2 ^ i * sint (RetryDelay cfg))"
    unfolding backoff_def by (simp only: sint_sbintrunc') simp
  moreover have "- (2 ^ 63) \<le> 2 ^ i * sint (RetryDelay cfg)"
    using assms(1) by (smt (verit) mult_nonneg_nonneg zero_le_power)
  ultimately show ?thesis using assms by (simp add: signed_take_bit_int_eq_self)
qed

text \<open>
  C40. When attempts \<open>0..k-1\<close> fail and attempt \<open>k\<close>, below the maximum, succeeds, \<open>Do\<close>
  reports success after exactly \<open>k + 1\<close> calls, having waited \<open>delay * 2 ^ i\<close> after attempt
  \<open>i\<close>, as long as that product fits in a signed 64-bit duration.
\<close>

theorem Do_first_success:
  assumes "fails_until sc k" and "int k < MaxRetries cfg"
    and "done_before sc k = None" and "outcome sc k = None"
    and "0 \<le> sint (RetryDelay cfg)" and "2 ^ k * sint (RetryDelay cfg) < 2 ^ 63"
  shows "Do (script_env sc) cfg [] =
    (None, concat (map (\<lambda>i. [Attempt, Sleep (2 ^ i * sint (RetryDelay cfg))]) [0..<k]) @ [Attempt])"
proof -
  have "2 ^ i * sint (RetryDelay cfg) < 2 ^ 63" if "i < k" for i
    using that assms(5,6) by (meson le_less_trans mult_right_mono order_less_imp_le power_increasing one_le_numeral)
  then have "failed_log cfg k = concat (map (\<lambda>i. [Attempt, Sleep (2 ^ i * sint (RetryDelay cfg))]) [0..<k])"
    unfolding failed_log_def using backoff_exact [OF assms(5)] by (intro arg_cong [of _ _ concat] map_cong) auto
  moreover have "Do (script_env sc) cfg [] = (None, failed_log cfg k @ [Attempt])"
    using Do_reaches [OF assms(1,2)] assms(2,3,4)
    by (simp add: Do_loop.simps [of _ _ k] script_env_def)
  ultimately show ?thesis by simp
qed

theorem Do_first_success_witness:
  "Do (script_env \<lparr>outcome = (\<lambda>i. if i < 2 then Some ErrTimeout else None), done_before = (\<lambda>i. None), done_during = (\<lambda>i. None)\<rparr>)
     \<lparr>MaxRetries = 3, RetryDelay = 100\<rparr> [] = (None, [Attempt, Sleep 100, Attempt, Sleep 200, Attempt])"
  using Do_first_success [of "\<lparr>outcome = (\<lambda>i. if i < 2 then Some ErrTimeout else None), done_before = (\<lambda>i. None), done_during = (\<lambda>i. None)\<rparr>"
      2 "\<lparr>MaxRetries = 3, RetryDelay = 100\<rparr>"]
  by (simp add: fails_until_def upt_rec)

text \<open>
  When the maximum number of attempts all fail, \<open>Do\<close> has called the function exactly
  that often, did not wait after the last attempt, and returns an error that wraps the
  error of the last attempt; with a maximum of zero or less it never calls the function
  and returns an error that wraps nothing.
\<close>

theorem Do_exhausted:
  assumes "MaxRetries cfg = int n" and "fails_until sc n"
  shows "Do (script_env sc) cfg [] =
    (Some (Errorf (''failed after '' @ dec_int (int n) @ '' retries: '') (last_error sc n)),
     if n = 0 then [] else failed_log cfg (n - 1) @ [Attempt])"
proof (cases n)
  case 0
  then show ?thesis using assms(1)
    by (simp add: Do_def Do_loop.simps [of _ _ 0] last_error_def)
next
  case (Suc m)
  then have "fails_until sc m" "int m < MaxRetries cfg" "outcome sc m \<noteq> None" "done_before sc m = None"
    using assms by (simp_all add: fails_until_def)
  then show ?thesis using Do_reaches [of sc m cfg] assms(1) Suc
    by (auto simp: Do_loop.simps [of _ _ m] Do_loop.simps [of _ _ "Suc m"] script_env_def last_error_def)
qed

theorem Do_exhausted_witness:
  "Do (script_env \<lparr>outcome = (\<lambda>i. Some ErrTimeout), done_before = (\<lambda>i. None), done_during = (\<lambda>i. None)\<rparr>)
     \<lparr>MaxRetries = 2, RetryDelay = 100\<rparr> [] =
   (Some (Errorf ''failed after 2 retries: '' (Some ErrTimeout)), [Attempt, Sleep 100, Attempt])"
proof -
  have "dec_int 2 = ''2''" by code_simp
  then show ?thesis
    using Do_exhausted [of "\<lparr>MaxRetries = 2, RetryDelay = 100\<rparr>" 2
      "\<lparr>outcome = (\<lambda>i. Some ErrTimeout), done_before = (\<lambda>i. None), done_during = (\<lambda>i. None)\<rparr>"]
    by (simp add: fails_until_def last_error_def failed_log_def backoff_def)
qed

text \<open>
  A context that is done before attempt \<open>k\<close>, or during the wait before it, stops the
  loop: \<open>Do\<close> returns the context's error after exactly \<open>k\<close> calls.
\<close>

theorem Do_cancelled:
  assumes "fails_until sc k" and "int k < MaxRetries cfg"
  shows "(done_before sc k = Some e \<longrightarrow> Do (script_env sc) cfg [] = (Some e, failed_log cfg k)) \<and>
    (done_before sc k = None \<and> outcome sc k \<noteq> None \<and> done_during sc k = Some e \<and> int k < MaxRetries cfg - 1 \<longrightarrow>
      Do (script_env sc) cfg [] = (Some e, failed_log cfg k @ [Attempt]))"
  using Do_reaches [OF assms] assms(2)
  by (auto simp: Do_loop.simps [of _ _ k] script_env_def)

theorem Do_cancelled_witness:
  "Do (script_env \<lparr>outcome = (\<lambda>i. Some ErrTimeout), done_before = (\<lambda>i. if i = 1 then Some ErrCanceled else None), done_during = (\<lambda>i. None)\<rparr>)
     \<lparr>MaxRetries = 3, RetryDelay = 100\<rparr> [] = (Some ErrCanceled, [Attempt, Sleep 100])"
  using Do_cancelled [of "\<lparr>outcome = (\<lambda>i. Some ErrTimeout), done_before = (\<lambda>i. if i = 1 then Some ErrCanceled else None), done_during = (\<lambda>i. None)\<rparr>"
      1 "\<lparr>MaxRetries = 3, RetryDelay = 100\<rparr>" ErrCanceled]
  by (simp add: fails_until_def failed_log_def backoff_def)

end
