(* ===== verification/SessionStore.thy ===== *)
theory SessionStore
  imports GatewayPrelude
begin

text \<open>
  \<open>internal/session/session.go\<close>: the sharded session store.  Sessions are objects shared
  by reference between the store and the handlers that created them, so the model has a
  heap; the store maps session IDs to references, spread over sixteen maps by the low four
  bits of the ID.  The locale \<open>session_index\<close> is what the gateway relies on: the store
  behaves as one map.
\<close>

section \<open>Sessions and the store\<close>

type_synonym session_id = "64 word"
type_synonym session_ref = nat
type_synonym conn_ref = nat

datatype SessionState =
  SessionStateConnecting | SessionStateConnected | SessionStateDisconnecting | SessionStateClosed

record Session =
  SessionID :: session_id
  ClientConn :: "conn_ref option"
  BackendConn :: "conn_ref option"
  UserID :: int
  RealmID :: int
  ServiceType :: string
  WorldID :: int
  InstID :: int
  CreatedAt :: time
  LastActiveAt :: time
  State :: SessionState
  BytesOut :: "nat option"

type_synonym SessionShard = "(session_id, session_ref) gomap"

record Manager =
  shards :: "SessionShard list"

text \<open>The objects the store works on: the sessions and the connections closed so far.\<close>

record session_world =
  heap :: "session_ref \<Rightarrow> Session"
  closed :: "conn_ref list"

definition NewManager :: Manager where
  "NewManager = \<lparr>shards = replicate 16 []\<rparr>"

definition shard_index :: "session_id \<Rightarrow> nat" where
  "shard_index sessionID = unat (sessionID AND 0xF)"

definition getShard :: "Manager \<Rightarrow> session_id \<Rightarrow> SessionShard" where
  "getShard m sessionID = shards m ! shard_index sessionID"

text \<open>Writing through the pointer \<open>getShard\<close> returns.\<close>

definition set_shard :: "session_id \<Rightarrow> SessionShard \<Rightarrow> Manager \<Rightarrow> Manager" where
  "set_shard sessionID sh m = m\<lparr>shards := (shards m)[shard_index sessionID := sh]\<rparr>"

definition Session_Add :: "session_world \<Rightarrow> session_ref \<Rightarrow> Manager \<Rightarrow> Manager" where
  "Session_Add w r m =
     (let sid = SessionID (heap w r) in set_shard sid (gomap_put sid r (getShard m sid)) m)"

definition Session_Get :: "Manager \<Rightarrow> session_id \<Rightarrow> session_ref option" where
  "Session_Get m sessionID = gomap_get (getShard m sessionID) sessionID"

definition Session_Remove :: "session_id \<Rightarrow> Manager \<Rightarrow> Manager" where
  "Session_Remove sessionID m = set_shard sessionID (gomap_del sessionID (getShard m sessionID)) m"

definition UpdateLastActive :: "time \<Rightarrow> session_id \<Rightarrow> Manager \<Rightarrow> session_world \<Rightarrow> session_world" where
  "UpdateLastActive now sessionID m w =
     (case gomap_get (getShard m sessionID) sessionID of
        Some r \<Rightarrow> w\<lparr>heap := (heap w)(r := (heap w r)\<lparr>LastActiveAt := now\<rparr>)\<rparr>
      | None \<Rightarrow> w)"

definition Session_Count :: "Manager \<Rightarrow> nat" where
  "Session_Count m = fold (\<lambda>shard total. total + gomap_len shard) (shards m) 0"

definition is_idle :: "time \<Rightarrow> duration \<Rightarrow> session_world \<Rightarrow> session_ref \<Rightarrow> bool" where
  "is_idle now idleTimeout w r \<longleftrightarrow> idleTimeout < now - LastActiveAt (heap w r)"

text \<open>The connections of a session that are not nil, client first.\<close>

definition close_conns :: "Session \<Rightarrow> conn_ref list" where
  "close_conns s = (case ClientConn s of None \<Rightarrow> [] | Some c \<Rightarrow> [c]) @
     (case BackendConn s of None \<Rightarrow> [] | Some c \<Rightarrow> [c])"

text \<open>One shard: every idle session has its connections closed and is deleted and counted.\<close>

fun cleanup_shard :: "time \<Rightarrow> duration \<Rightarrow> SessionShard \<Rightarrow> session_world \<Rightarrow> SessionShard \<times> session_world \<times> nat" where
  "cleanup_shard now d [] w = ([], w, 0)"
| "cleanup_shard now d ((sid, r) # rest) w =
     (if is_idle now d w r then
        (case cleanup_shard now d rest (w\<lparr>closed := closed w @ close_conns (heap w r)\<rparr>) of
           (sh, w', count) \<Rightarrow> (sh, w', count + 1))
      else
        (case cleanup_shard now d rest w of (sh, w', count) \<Rightarrow> ((sid, r) # sh, w', count)))"

fun cleanup_shards :: "time \<Rightarrow> duration \<Rightarrow> SessionShard list \<Rightarrow> session_world \<Rightarrow> SessionShard list \<times> session_world \<times> nat" where
  "cleanup_shards now d [] w = ([], w, 0)"
| "cleanup_shards now d (sh # shs) w =
     (case cleanup_shard now d sh w of
        (sh', w', count) \<Rightarrow>
          (case cleanup_shards now d shs w' of
             (shs', w'', totalCount) \<Rightarrow> (sh' # shs', w'', count + totalCount)))"

definition CleanupIdle :: "time \<Rightarrow> duration \<Rightarrow> Manager \<Rightarrow> session_world \<Rightarrow> Manager \<times> session_world \<times> nat" where
  "CleanupIdle now idleTimeout m w =
     (case cleanup_shards now idleTimeout (shards m) w of
        (shs, w', totalCount) \<Rightarrow> (m\<lparr>shards := shs\<rparr>, w', totalCount))"

definition GetAll :: "Manager \<Rightarrow> session_ref list" where
  "GetAll m = concat (map (map snd) (shards m))"

section \<open>The invariant\<close>

text \<open>Sixteen maps, each with the IDs that belong to it, under the ID of the object it refers to.\<close>

definition shard_ok :: "session_world \<Rightarrow> nat \<Rightarrow> SessionShard \<Rightarrow> bool" where
  "shard_ok w i sh \<longleftrightarrow> gomap_ok sh \<and>
     (\<forall>sid r. (sid, r) \<in> set sh \<longrightarrow> shard_index sid = i \<and> SessionID (heap w r) = sid)"

definition store_ok :: "session_world \<Rightarrow> Manager \<Rightarrow> bool" where
  "store_ok w m \<longleftrightarrow> length (shards m) = 16 \<and> (\<forall>i<16. shard_ok w i (shards m ! i))"

text \<open>The store as one map.\<close>

definition store_map :: "Manager \<Rightarrow> session_id \<Rightarrow> session_ref option" where
  "store_map m sid = Session_Get m sid"

lemma shard_index_less [simp]: "shard_index sid < 16"
proof -
  have "sid AND 0xF \<le> 0xF" by (rule word_and_le1)
  then have "unat (sid AND 0xF) \<le> unat (0xF :: session_id)" by (simp add: word_le_nat_alt)
  then show ?thesis by (simp add: shard_index_def)
qed

lemma store_ok_shard: "store_ok w m \<Longrightarrow> i < 16 \<Longrightarrow> shard_ok w i (shards m ! i)"
  by (simp add: store_ok_def)

lemma getShard_set [simp]:
  "length (shards m) = 16 \<Longrightarrow> getShard (set_shard sid sh m) sid' =
     (if shard_index sid' = shard_index sid then sh else getShard m sid')"
  by (simp add: getShard_def set_shard_def nth_list_update)

lemma store_ok_set_shard:
  "store_ok w m \<Longrightarrow> shard_ok w (shard_index sid) sh \<Longrightarrow> store_ok w (set_shard sid sh m)"
  by (auto simp: store_ok_def set_shard_def nth_list_update)

lemma NewManager_ok: "store_ok w NewManager"
  by (simp add: store_ok_def NewManager_def shard_ok_def)

lemma gomap_put_set: "gomap_ok sh \<Longrightarrow> (k, v) \<in> set (gomap_put k0 v0 sh) \<Longrightarrow> (k, v) = (k0, v0) \<or> (k, v) \<in> set sh"
  using gomap_get_in [of sh] gomap_get_in [OF gomap_ok_put [of sh k0 v0]] by (metis gomap_get_put option.inject)

lemma gomap_del_set: "gomap_ok sh \<Longrightarrow> (k, v) \<in> set (gomap_del k0 sh) \<Longrightarrow> (k, v) \<in> set sh \<and> k \<noteq> k0"
  using gomap_get_in [of sh] gomap_get_in [OF gomap_ok_del [of sh k0]] by (metis gomap_get_del option.distinct(1))

lemma Add_ok:
  assumes "store_ok w m" shows "store_ok w (Session_Add w r m)"
proof -
  let ?sid = "SessionID (heap w r)"
  have "shard_ok w (shard_index ?sid) (getShard m ?sid)"
    using store_ok_shard [OF assms] by (simp add: getShard_def)
  then have "shard_ok w (shard_index ?sid) (gomap_put ?sid r (getShard m ?sid))"
    by (auto simp: shard_ok_def dest!: gomap_put_set)
  then show ?thesis using assms by (simp add: Session_Add_def Let_def store_ok_set_shard)
qed

lemma Remove_ok:
  assumes "store_ok w m" shows "store_ok w (Session_Remove sid m)"
proof -
  have "shard_ok w (shard_index sid) (getShard m sid)"
    using store_ok_shard [OF assms] by (simp add: getShard_def)
  then have "shard_ok w (shard_index sid) (gomap_del sid (getShard m sid))"
    by (auto simp: shard_ok_def dest!: gomap_del_set)
  then show ?thesis using assms by (simp add: Session_Remove_def store_ok_set_shard)
qed

lemma UpdateLastActive_ids: "SessionID (heap (UpdateLastActive now sid m w) r) = SessionID (heap w r)"
  by (simp add: UpdateLastActive_def split: option.split)

lemma store_ok_heap:
  "(\<And>r. SessionID (heap w' r) = SessionID (heap w r)) \<Longrightarrow> store_ok w' m \<longleftrightarrow> store_ok w m"
  by (simp add: store_ok_def shard_ok_def)

section \<open>Lookups after updates\<close>

lemma Get_empty: "Session_Get NewManager sid = None"
  by (simp add: Session_Get_def getShard_def NewManager_def)

lemma Get_Add:
  "store_ok w m \<Longrightarrow> Session_Get (Session_Add w r m) sid =
     (if sid = SessionID (heap w r) then Some r else Session_Get m sid)"
  by (auto simp: Session_Get_def Session_Add_def Let_def store_ok_def getShard_def set_shard_def nth_list_update)

lemma Get_Remove:
  "store_ok w m \<Longrightarrow> Session_Get (Session_Remove sid m) sid' = (if sid' = sid then None else Session_Get m sid')"
  by (auto simp: Session_Get_def Session_Remove_def store_ok_def getShard_def set_shard_def nth_list_update)

lemma store_entries:
  assumes "store_ok w m"
  shows "Session_Get m sid = Some r \<longleftrightarrow> (\<exists>sh \<in> set (shards m). (sid, r) \<in> set sh)"
proof -
  have "(\<exists>sh \<in> set (shards m). (sid, r) \<in> set sh) \<longleftrightarrow> (\<exists>i<16. (sid, r) \<in> set (shards m ! i))"
    using assms by (auto simp: store_ok_def set_conv_nth)
  also have "\<dots> \<longleftrightarrow> (sid, r) \<in> set (shards m ! shard_index sid)"
    using store_ok_shard [OF assms] unfolding shard_ok_def by (blast intro: shard_index_less)
  also have "\<dots> \<longleftrightarrow> Session_Get m sid = Some r"
    using store_ok_shard [OF assms shard_index_less [of sid]]
    by (simp add: Session_Get_def getShard_def shard_ok_def gomap_get_in)
  finally show ?thesis by simp
qed

lemma fold_plus: "fold (\<lambda>x t. t + f x) xs (n::nat) = n + sum_list (map f xs)"
  by (induction xs arbitrary: n) auto

text \<open>Keys are distinct across lists when the index of a list can be computed from its keys.\<close>

lemma distinct_keys_concat:
  assumes "\<forall>i < length xss. distinct (map f (xss ! i)) \<and> (\<forall>x \<in> set (xss ! i). g (f x) = i)"
  shows "distinct (map f (concat xss)) \<and> (\<forall>x \<in> set (concat xss). g (f x) < length xss)"
  using assms
proof (induction xss rule: rev_induct)
  case (snoc xs xss)
  have "\<forall>i < length xss. distinct (map f (xss ! i)) \<and> (\<forall>x \<in> set (xss ! i). g (f x) = i)"
    using snoc.prems by (metis butlast_snoc length_append_singleton less_SucI nth_butlast)
  note IH = snoc.IH [OF this]
  have last: "distinct (map f xs)" "\<forall>x \<in> set xs. g (f x) = length xss"
    using snoc.prems [rule_format, of "length xss"] by simp_all
  have "f ` set (concat xss) \<inter> f ` set xs = {}"
    using IH last(2) by (fastforce)
  with IH last show ?case by (auto simp: less_Suc_eq)
qed simp

lemma store_dom:
  assumes "store_ok w m"
  shows "dom (Session_Get m) = fst ` set (concat (shards m))"
    and "distinct (map fst (concat (shards m)))"
proof -
  show "dom (Session_Get m) = fst ` set (concat (shards m))"
    using store_entries [OF assms] by (force simp: dom_def image_iff)
  have "\<forall>i < length (shards m). distinct (map fst (shards m ! i)) \<and>
      (\<forall>x \<in> set (shards m ! i). shard_index (fst x) = i)"
    using assms by (auto simp: store_ok_def shard_ok_def gomap_ok_def)
  from distinct_keys_concat [OF this] show "distinct (map fst (concat (shards m)))" by simp
qed

lemma Count_card:
  assumes "store_ok w m"
  shows "Session_Count m = card (dom (Session_Get m)) \<and> finite (dom (Session_Get m))"
proof -
  have "Session_Count m = length (concat (shards m))"
    by (simp add: Session_Count_def fold_plus gomap_len_def length_concat)
  also have "\<dots> = card (fst ` set (concat (shards m)))"
    using distinct_card [OF store_dom(2) [OF assms]] by simp
  finally show ?thesis by (simp add: store_dom(1) [OF assms])
qed

section \<open>Cleanup\<close>

lemma is_idle_closed [simp]: "is_idle now d (w\<lparr>closed := c\<rparr>) r = is_idle now d w r"
  by (simp add: is_idle_def)

lemma cleanup_shard_eq:
  "cleanup_shard now d sh w =
     (filter (\<lambda>(sid, r). \<not> is_idle now d w r) sh,
      w\<lparr>closed := closed w @ concat (map (\<lambda>(sid, r). close_conns (heap w r)) (filter (\<lambda>(sid, r). is_idle now d w r) sh))\<rparr>,
      length (filter (\<lambda>(sid, r). is_idle now d w r) sh))"
  by (induction now d sh w rule: cleanup_shard.induct) auto

lemma cleanup_shards_eq:
  "cleanup_shards now d shs w =
     (map (filter (\<lambda>(sid, r). \<not> is_idle now d w r)) shs,
      w\<lparr>closed := closed w @ concat (map (\<lambda>(sid, r). close_conns (heap w r)) (filter (\<lambda>(sid, r). is_idle now d w r) (concat shs)))\<rparr>,
      length (filter (\<lambda>(sid, r). is_idle now d w r) (concat shs)))"
  by (induction now d shs w rule: cleanup_shards.induct) (auto simp: cleanup_shard_eq)

lemma CleanupIdle_eq:
  "CleanupIdle now d m w =
     (m\<lparr>shards := map (filter (\<lambda>(sid, r). \<not> is_idle now d w r)) (shards m)\<rparr>,
      w\<lparr>closed := closed w @ concat (map (\<lambda>(sid, r). close_conns (heap w r)) (filter (\<lambda>(sid, r). is_idle now d w r) (concat (shards m))))\<rparr>,
      length (filter (\<lambda>(sid, r). is_idle now d w r) (concat (shards m))))"
  by (simp add: CleanupIdle_def cleanup_shards_eq)

lemma Cleanup_ok:
  assumes "store_ok w m" and "CleanupIdle now d m w = (m', w', n)"
  shows "store_ok w' m'"
  using assms by (auto simp: CleanupIdle_eq store_ok_def shard_ok_def)

lemma Get_Cleanup:
  assumes "store_ok w m" and "CleanupIdle now d m w = (m', w', n)"
  shows "Session_Get m' sid = (case Session_Get m sid of None \<Rightarrow> None
     | Some r \<Rightarrow> if is_idle now d w r then None else Some r)"
proof -
  have "gomap_ok (shards m ! shard_index sid)" "length (shards m) = 16"
    using store_ok_shard [OF assms(1) shard_index_less [of sid]] assms(1)
    by (auto simp: shard_ok_def store_ok_def)
  with assms(2) show ?thesis
    by (auto simp: CleanupIdle_eq Session_Get_def getShard_def gomap_get_filter split: option.split)
qed

section \<open>The interface: an index of sessions\<close>

datatype ('k, 'r) index_op = IAdd 'r | IRemove 'k

locale session_index =
  fixes invar :: "'w \<Rightarrow> 's \<Rightarrow> bool"
    and empty :: 's
    and key :: "'w \<Rightarrow> 'r \<Rightarrow> 'k"
    and add :: "'w \<Rightarrow> 'r \<Rightarrow> 's \<Rightarrow> 's"
    and get :: "'s \<Rightarrow> 'k \<Rightarrow> 'r option"
    and remove :: "'k \<Rightarrow> 's \<Rightarrow> 's"
    and count :: "'s \<Rightarrow> nat"
  assumes invar_empty: "invar w empty"
    and get_empty: "get empty k = None"
    and invar_add: "invar w m \<Longrightarrow> invar w (add w r m)"
    and get_add: "invar w m \<Longrightarrow> get (add w r m) k = (if k = key w r then Some r else get m k)"
    and invar_remove: "invar w m \<Longrightarrow> invar w (remove k m)"
    and get_remove: "invar w m \<Longrightarrow> get (remove k m) k' = (if k' = k then None else get m k')"
    and count_card: "invar w m \<Longrightarrow> count m = card (dom (get m)) \<and> finite (dom (get m))"
begin

lemma count_add:
  assumes "invar w m"
  shows "count (add w r m) = count m + (if get m (key w r) = None then 1 else 0)"
proof -
  have "dom (get (add w r m)) = insert (key w r) (dom (get m))"
    using get_add [OF assms] by (auto simp: dom_def)
  with count_card [OF assms] count_card [OF invar_add [OF assms, of r]] show ?thesis
    by (auto simp: card_insert_if dom_def)
qed

lemma count_remove:
  assumes "invar w m"
  shows "count (remove k m) = count m - (if get m k = None then 0 else 1)"
proof -
  have "dom (get (remove k m)) = dom (get m) - {k}"
    using get_remove [OF assms] by (auto simp: dom_def)
  with count_card [OF assms] count_card [OF invar_remove [OF assms, of k]] show ?thesis
    by (auto simp: card_Diff_singleton_if dom_def)
qed

text \<open>A session that is registered and later removed leaves no trace.\<close>

lemma add_remove_restores:
  assumes "invar w m" and "get m (key w r) = None"
  shows "get (remove (key w r) (add w r m)) = get m" and "count (remove (key w r) (add w r m)) = count m"
proof -
  show "get (remove (key w r) (add w r m)) = get m"
    using assms by (auto simp: get_remove [OF invar_add] get_add fun_eq_iff)
  show "count (remove (key w r) (add w r m)) = count m"
    using assms by (simp add: count_remove [OF invar_add] count_add get_add)
qed

lemma run_refines:
  assumes "invar w m"
  shows "invar w (fold (\<lambda>op. case op of IAdd r \<Rightarrow> add w r | IRemove k \<Rightarrow> remove k) ops m) \<and>
    get (fold (\<lambda>op. case op of IAdd r \<Rightarrow> add w r | IRemove k \<Rightarrow> remove k) ops m) =
    fold (\<lambda>op f. case op of IAdd r \<Rightarrow> f(key w r \<mapsto> r) | IRemove k \<Rightarrow> f(k := None)) ops (get m)"
  using assms
proof (induction ops arbitrary: m)
  case (Cons op ops)
  show ?case
  proof (cases op)
    case (IAdd r)
    have "get (add w r m) = (get m)(key w r \<mapsto> r)" using get_add [OF Cons.prems] by auto
    with Cons.IH [OF invar_add [OF Cons.prems, of r]] show ?thesis by (simp only: IAdd fold_simps index_op.case)
  next
    case (IRemove k)
    have "get (remove k m) = (get m)(k := None)" using get_remove [OF Cons.prems] by auto
    with Cons.IH [OF invar_remove [OF Cons.prems, of k]] show ?thesis by (simp only: IRemove fold_simps index_op.case)
  qed
qed simp

end

interpretation sharded: session_index store_ok NewManager "\<lambda>w r. SessionID (heap w r)"
  Session_Add Session_Get Session_Remove Session_Count
  by unfold_locales (auto simp: NewManager_ok Get_empty Add_ok Get_Add Remove_ok Get_Remove Count_card
      dest: Count_card)

section \<open>The store refines one map\<close>

datatype store_op =
  OpAdd session_ref | OpRemove session_id | OpTouch session_id time | OpCleanup time duration

fun store_step :: "store_op \<Rightarrow> Manager \<times> session_world \<Rightarrow> Manager \<times> session_world" where
  "store_step (OpAdd r) (m, w) = (Session_Add w r m, w)"
| "store_step (OpRemove sid) (m, w) = (Session_Remove sid m, w)"
| "store_step (OpTouch sid t) (m, w) = (m, UpdateLastActive t sid m w)"
| "store_step (OpCleanup t d) (m, w) = (case CleanupIdle t d m w of (m', w', n) \<Rightarrow> (m', w'))"

text \<open>The specification: one partial map, the sessions, and the set of closed connections.\<close>

record session_spec =
  sp_index :: "session_id \<Rightarrow> session_ref option"
  sp_heap :: "session_ref \<Rightarrow> Session"
  sp_closed :: "conn_ref set"

definition sp_idle :: "time \<Rightarrow> duration \<Rightarrow> session_spec \<Rightarrow> session_id set" where
  "sp_idle t d s = {sid. \<exists>r. sp_index s sid = Some r \<and> d < t - LastActiveAt (sp_heap s r)}"

fun spec_step :: "store_op \<Rightarrow> session_spec \<Rightarrow> session_spec" where
  "spec_step (OpAdd r) s = s\<lparr>sp_index := (sp_index s)(SessionID (sp_heap s r) \<mapsto> r)\<rparr>"
| "spec_step (OpRemove sid) s = s\<lparr>sp_index := (sp_index s)(sid := None)\<rparr>"
| "spec_step (OpTouch sid t) s =
     (case sp_index s sid of
        None \<Rightarrow> s
      | Some r \<Rightarrow> s\<lparr>sp_heap := (sp_heap s)(r := (sp_heap s r)\<lparr>LastActiveAt := t\<rparr>)\<rparr>)"
| "spec_step (OpCleanup t d) s =
     s\<lparr>sp_index := sp_index s |` (- sp_idle t d s),
       sp_closed := sp_closed s \<union> (\<Union>sid \<in> sp_idle t d s. set (close_conns (sp_heap s (the (sp_index s sid)))))\<rparr>"

definition store_abs :: "Manager \<times> session_world \<Rightarrow> session_spec" where
  "store_abs mw = \<lparr>sp_index = Session_Get (fst mw), sp_heap = heap (snd mw), sp_closed = set (closed (snd mw))\<rparr>"

lemma idle_entries:
  assumes "store_ok w m"
  shows "fst ` set (filter (\<lambda>(sid, r). is_idle t d w r) (concat (shards m))) = sp_idle t d (store_abs (m, w))"
    and "\<And>sid r. (sid, r) \<in> set (concat (shards m)) \<Longrightarrow> Session_Get m sid = Some r"
  using store_entries [OF assms]
  by (force simp: sp_idle_def store_abs_def is_idle_def image_iff)+

lemma closed_entries:
  assumes "store_ok w m"
  shows "set (concat (map (\<lambda>(sid, r). close_conns (heap w r)) (filter (\<lambda>(sid, r). is_idle t d w r) (concat (shards m))))) =
    (\<Union>sid \<in> sp_idle t d (store_abs (m, w)). set (close_conns (heap w (the (Session_Get m sid)))))"
  unfolding idle_entries(1) [OF assms, symmetric] image_image [symmetric]
  using idle_entries(2) [OF assms] by (force simp: image_iff)

lemma store_step_refines:
  assumes "store_ok w m"
  shows "store_ok (snd (store_step op (m, w))) (fst (store_step op (m, w))) \<and>
    store_abs (store_step op (m, w)) = spec_step op (store_abs (m, w))"
proof (cases op)
  case (OpAdd r)
  have "Session_Get (Session_Add w r m) = (Session_Get m)(SessionID (heap w r) \<mapsto> r)"
    using Get_Add [OF assms] by auto
  then show ?thesis using Add_ok [OF assms] by (simp add: OpAdd store_abs_def)
next
  case (OpRemove sid)
  have "Session_Get (Session_Remove sid m) = (Session_Get m)(sid := None)"
    using Get_Remove [OF assms] by auto
  then show ?thesis using Remove_ok [OF assms] by (simp add: OpRemove store_abs_def)
next
  case (OpTouch sid t)
  have "store_ok (UpdateLastActive t sid m w) m"
    using assms store_ok_heap [of "UpdateLastActive t sid m w" w m] by (simp add: UpdateLastActive_ids)
  then show ?thesis
    by (simp add: OpTouch store_abs_def UpdateLastActive_def Session_Get_def split: option.split)
next
  case (OpCleanup t d)
  obtain m' w' n where c: "CleanupIdle t d m w = (m', w', n)" by (cases "CleanupIdle t d m w") auto
  have "Session_Get m' = Session_Get m |` (- sp_idle t d (store_abs (m, w)))"
    using Get_Cleanup [OF assms c]
    by (auto simp: restrict_map_def sp_idle_def store_abs_def is_idle_def fun_eq_iff split: option.split)
  moreover have "heap w' = heap w" "set (closed w') = set (closed w) \<union>
      (\<Union>sid \<in> sp_idle t d (store_abs (m, w)). set (close_conns (heap w (the (Session_Get m sid)))))"
    using c closed_entries [OF assms, of t d] by (auto simp: CleanupIdle_eq)
  ultimately show ?thesis using Cleanup_ok [OF assms c] c by (simp add: OpCleanup store_abs_def)
qed

lemma store_run_refines:
  assumes "store_ok (snd mw) (fst mw)"
  shows "store_ok (snd (fold store_step ops mw)) (fst (fold store_step ops mw)) \<and>
    store_abs (fold store_step ops mw) = fold spec_step ops (store_abs mw)"
  using assms
proof (induction ops arbitrary: mw)
  case (Cons op ops)
  with store_step_refines [of "snd mw" "fst mw" op] show ?case by simp
qed simp

lemma GetAll_ran: "store_ok w m \<Longrightarrow> set (GetAll m) = ran (Session_Get m)"
proof -
  assume ok: "store_ok w m"
  have "set (GetAll m) = {r. \<exists>sid. \<exists>sh \<in> set (shards m). (sid, r) \<in> set sh}"
    by (force simp: GetAll_def)
  then show ?thesis using store_entries [OF ok] by (simp add: ran_def)
qed

text \<open>
  C26. Over any sequence of registrations, removals, activity updates and idle cleanups,
  the sixteen shards answer lookups exactly as one map would, \<open>Count\<close> is the number of
  registered sessions, \<open>GetAll\<close> returns exactly those sessions, and the connections closed
  are exactly those of the sessions the cleanups found idle.
\<close>

theorem store_refines_map:
  fixes ops w
  defines "mw \<equiv> fold store_step ops (NewManager, w)"
    and "sp \<equiv> fold spec_step ops \<lparr>sp_index = Map.empty, sp_heap = heap w, sp_closed = set (closed w)\<rparr>"
  shows "store_abs mw = sp \<and> Session_Count (fst mw) = card (dom (sp_index sp)) \<and>
    set (GetAll (fst mw)) = ran (sp_index sp)"
proof -
  have "store_abs (NewManager, w) = \<lparr>sp_index = Map.empty, sp_heap = heap w, sp_closed = set (closed w)\<rparr>"
    using Get_empty by (auto simp: store_abs_def)
  with store_run_refines [of "(NewManager, w)" ops]
  have r: "store_ok (snd mw) (fst mw)" "store_abs mw = sp" by (simp_all add: NewManager_ok mw_def sp_def)
  then have "sp_index sp = Session_Get (fst mw)" by (auto simp: store_abs_def)
  with r show ?thesis
    using sharded.count_card [OF r(1)] GetAll_ran [OF r(1)] by simp
qed

text \<open>
  An idle cleanup removes exactly the sessions inactive for longer than the timeout,
  returns their number, lowers \<open>Count\<close> by it, closes both connections of each, and leaves
  every other session registered and its object untouched.
\<close>

theorem CleanupIdle_exact:
  assumes "store_ok w m" and "CleanupIdle t d m w = (m', w', n)"
  shows "n = card {sid. \<exists>r. Session_Get m sid = Some r \<and> d < t - LastActiveAt (heap w r)} \<and>
    Session_Count m' + n = Session_Count m \<and> heap w' = heap w \<and>
    Session_Get m' sid = (case Session_Get m sid of None \<Rightarrow> None
      | Some r \<Rightarrow> if d < t - LastActiveAt (heap w r) then None else Some r) \<and>
    (\<forall>r c. Session_Get m sid = Some r \<and> d < t - LastActiveAt (heap w r) \<and>
       (ClientConn (heap w r) = Some c \<or> BackendConn (heap w r) = Some c) \<longrightarrow> c \<in> set (closed w'))"
proof (intro conjI allI impI)
  let ?idle = "\<lambda>(sid, r). is_idle t d w r"
  have "distinct (map fst (filter ?idle (concat (shards m))))"
    using store_dom(2) [OF assms(1)] by (simp add: distinct_map_filter)
  then have "length (filter ?idle (concat (shards m))) = card (fst ` set (filter ?idle (concat (shards m))))"
    using distinct_card by fastforce
  then have n: "n = card (sp_idle t d (store_abs (m, w)))"
    using assms(2) idle_entries(1) [OF assms(1)] by (simp add: CleanupIdle_eq)
  then show "n = card {sid. \<exists>r. Session_Get m sid = Some r \<and> d < t - LastActiveAt (heap w r)}"
    by (simp add: sp_idle_def store_abs_def)
  have "Session_Count m = length (concat (shards m))"
    "Session_Count m' = length (filter (\<lambda>x. \<not> ?idle x) (concat (shards m)))"
    using assms(2)
    by (auto simp: CleanupIdle_eq Session_Count_def fold_plus gomap_len_def length_concat filter_concat comp_def
        case_prod_unfold)
  then show "Session_Count m' + n = Session_Count m"
    using assms(2) sum_length_filter_compl [of ?idle "concat (shards m)"] by (simp add: CleanupIdle_eq)
  show "heap w' = heap w" using assms(2) by (auto simp: CleanupIdle_eq)
  show "Session_Get m' sid = (case Session_Get m sid of None \<Rightarrow> None
      | Some r \<Rightarrow> if d < t - LastActiveAt (heap w r) then None else Some r)"
    using Get_Cleanup [OF assms, of sid] by (simp add: is_idle_def split: option.split)
  fix r c
  assume h: "Session_Get m sid = Some r \<and> d < t - LastActiveAt (heap w r) \<and>
       (ClientConn (heap w r) = Some c \<or> BackendConn (heap w r) = Some c)"
  then have "c \<in> (\<Union>sid \<in> sp_idle t d (store_abs (m, w)). set (close_conns (heap w (the (Session_Get m sid)))))"
    by (auto simp: sp_idle_def store_abs_def close_conns_def intro!: bexI [of _ sid])
  then show "c \<in> set (closed w')"
    using assms(2) closed_entries [OF assms(1), of t d] by (auto simp: CleanupIdle_eq)
qed

theorem CleanupIdle_exact_witness:
  "\<exists>w m m' w'. CleanupIdle 100 10 m w = (m', w', 1) \<and> Session_Get m 3 = Some 0 \<and> Session_Get m' 3 = None \<and>
     Session_Count m' + 1 = Session_Count m"
proof -
  define s where "s = \<lparr>SessionID = 3, ClientConn = Some 7, BackendConn = None, UserID = 0, RealmID = 0,
    ServiceType = ''game'', WorldID = 1, InstID = 0, CreatedAt = 5, LastActiveAt = 5, State = SessionStateConnected,
    BytesOut = None\<rparr>"
  define w where "w = \<lparr>heap = (\<lambda>r. s), closed = []\<rparr>"
  define m where "m = Session_Add w 0 NewManager"
  have get: "Session_Get m sid = (if sid = 3 then Some 0 else None)" for sid
    by (simp add: m_def Get_Add [OF NewManager_ok] Get_empty w_def s_def)
  have ok: "store_ok w m" by (simp add: m_def Add_ok NewManager_ok)
  obtain m' w' n where c: "CleanupIdle 100 10 m w = (m', w', n)" by (cases "CleanupIdle 100 10 m w") auto
  have idle: "{sid. \<exists>r. Session_Get m sid = Some r \<and> 10 < 100 - LastActiveAt (heap w r)} = {3}"
    by (auto simp: get w_def s_def)
  have "Session_Get m' 3 = None" "n = 1" "Session_Count m' + n = Session_Count m"
    using CleanupIdle_exact [OF ok c, of 3] idle by (simp_all add: get w_def s_def)
  with c get show ?thesis by (intro exI [of _ w] exI [of _ m] exI [of _ m'] exI [of _ w']) simp
qed

end
