(* ===== verification/SessionId.thy ===== *)
theory SessionId
  imports GatewayPrelude
begin

text \<open>
  Session IDs: \<open>generateSessionID\<close> and \<open>ParseSessionID\<close> of \<open>internal/gateway/gateway.go\<close>.
  The generator is modelled twice: as the loop one goroutine runs when no other interferes,
  with the clock advancing between its readings, and as the atomic operations of several
  goroutines on the shared counters.
\<close>

section \<open>The layout\<close>

record SessionIDComponents =
  PodHash :: "16 word"
  Timestamp :: "64 word"
  Sequence :: "16 word"
  CreatedAt_ms :: int       \<comment> \<open>\<open>time.UnixMilli\<close> of the timestamp\<close>

definition ParseSessionID :: "64 word \<Rightarrow> SessionIDComponents" where
  "ParseSessionID sessionID =
     (let u = sessionID;
          podHash = ucast (drop_bit 52 u AND 0xFFF);
          timestampMs = drop_bit 12 u AND 0xFFFFFFFFFF;
          sequence = ucast (u AND 0xFFF)
      in \<lparr>PodHash = podHash, Timestamp = timestampMs, Sequence = sequence, CreatedAt_ms = sint timestampMs\<rparr>)"

text \<open>\<open>(podHash12 << 52) | (timestampMs << 12) | int64(seq)\<close>\<close>

definition pack_id :: "16 word \<Rightarrow> 64 word \<Rightarrow> 64 word \<Rightarrow> 64 word" where
  "pack_id podHash timestampMs seq =
     push_bit 52 (ucast (podHash AND 0xFFF)) OR push_bit 12 timestampMs OR seq"

section \<open>The generator of one goroutine\<close>

record id_gen =
  podHash :: "16 word"
  lastTimestamp :: "64 word"
  sessionSeq :: "64 word"
  clock :: nat              \<comment> \<open>the wall clock, in milliseconds since the epoch\<close>

text \<open>\<open>time.Now().UnixMilli() & 0xFFFFFFFFFF\<close>\<close>

definition read_ts :: "nat \<Rightarrow> 64 word" where
  "read_ts ms = word_of_nat ms AND 0xFFFFFFFFFF"

text \<open>
  The loop.  The list holds the milliseconds that pass before each reading of the clock, so
  its length bounds the number of rounds; \<open>time.Sleep(time.Millisecond)\<close> lets at least one
  more millisecond pass.  \<open>None\<close> means that the rounds did not suffice.
\<close>

primrec generateSessionID :: "nat list \<Rightarrow> id_gen \<Rightarrow> (64 word \<times> id_gen) option" where
  "generateSessionID [] g = None"
| "generateSessionID (elapsed # es) g =
     (let ms = clock g + elapsed; timestampMs = read_ts ms; lastTs = lastTimestamp g
      in if sint timestampMs < sint lastTs then generateSessionID es (g\<lparr>clock := ms + 1\<rparr>)
         else if timestampMs = lastTs then
           let n = sessionSeq g + 1; seq = n AND 0xFFF
           in if seq = 0 then generateSessionID es (g\<lparr>sessionSeq := n, clock := ms + 1\<rparr>)
              else Some (pack_id (podHash g) timestampMs seq, g\<lparr>sessionSeq := n, clock := ms\<rparr>)
         else Some (pack_id (podHash g) timestampMs 1,
                    g\<lparr>lastTimestamp := timestampMs, sessionSeq := 1, clock := ms\<rparr>))"

fun generate_many :: "nat list list \<Rightarrow> id_gen \<Rightarrow> (64 word list \<times> id_gen) option" where
  "generate_many [] g = Some ([], g)"
| "generate_many (es # ess) g =
     (case generateSessionID es g of
        None \<Rightarrow> None
      | Some (sid, g') \<Rightarrow>
          (case generate_many ess g' of None \<Rightarrow> None | Some (ids, g'') \<Rightarrow> Some (sid # ids, g'')))"

definition fresh_gen :: "16 word \<Rightarrow> nat \<Rightarrow> id_gen" where
  "fresh_gen p ms = \<lparr>podHash = p, lastTimestamp = 0, sessionSeq = 0, clock = ms\<rparr>"

section \<open>The generator of several goroutines\<close>

text \<open>Where a goroutine is: before the next atomic operation of the loop, with its locals.\<close>

datatype gen_pc =
    AtLoop
  | HasClock "64 word"                    \<comment> \<open>before \<open>LoadInt64(&lastTimestamp)\<close>\<close>
  | HasLast "64 word" "64 word"           \<comment> \<open>before \<open>AddUint64\<close> or the compare-and-swap\<close>
  | Swapped "64 word"                     \<comment> \<open>before \<open>StoreUint64(&sessionSeq, 1)\<close>\<close>
  | Returned "64 word"

record gen_sys =
  shared :: id_gen
  threads :: "nat \<Rightarrow> gen_pc"

text \<open>One atomic operation of goroutine \<open>t\<close>, with the clock at \<open>ms\<close>.\<close>

definition gen_step :: "nat \<times> nat \<Rightarrow> gen_sys \<Rightarrow> gen_sys" where
  "gen_step tm s =
     (case tm of (t, ms) \<Rightarrow>
      let g = shared s;
          goto = (\<lambda>pc. s\<lparr>threads := (threads s)(t := pc)\<rparr>)
      in case threads s t of
        AtLoop \<Rightarrow> goto (HasClock (read_ts ms))
      | HasClock ts \<Rightarrow> goto (HasLast ts (lastTimestamp g))
      | HasLast ts lastTs \<Rightarrow>
          if sint ts < sint lastTs then goto AtLoop
          else if ts = lastTs then
            (let n = sessionSeq g + 1; seq = n AND 0xFFF
             in (goto (if seq = 0 then AtLoop else Returned (pack_id (podHash g) ts seq)))\<lparr>shared := g\<lparr>sessionSeq := n\<rparr>\<rparr>)
          else if lastTimestamp g = lastTs then (goto (Swapped ts))\<lparr>shared := g\<lparr>lastTimestamp := ts\<rparr>\<rparr>
          else goto AtLoop
      | Swapped ts \<Rightarrow> (goto (Returned (pack_id (podHash g) ts 1)))\<lparr>shared := g\<lparr>sessionSeq := 1\<rparr>\<rparr>
      | Returned i \<Rightarrow> s)"

definition gen_start :: "16 word \<Rightarrow> gen_sys" where
  "gen_start p = \<lparr>shared = fresh_gen p 0, threads = (\<lambda>_. AtLoop)\<rparr>"

section \<open>The layout is a bijection on the fields\<close>

lemma mask_words: "(0xFFF :: 'a::len word) = mask 12" "(0xFFFFFFFFFF :: 'a::len word) = mask 40"
  by (simp_all add: mask_eq_exp_minus_1)

lemma and_masks: "w AND 0xFFF = take_bit 12 (w :: 'a::len word)" "w AND 0xFFFFFFFFFF = take_bit 40 (w :: 'a::len word)"
  by (simp_all add: mask_words take_bit_eq_mask del: mask_numeral)

lemma or_push_bit_nat:
  assumes "(a::nat) < 2 ^ k"
  shows "push_bit k x OR a = x * 2 ^ k + a"
proof -
  have "take_bit k a = a" using assms by (simp add: take_bit_nat_eq_self)
  then have "\<not> bit a n" if "k \<le> n" for n using that by (metis bit_take_bit_iff not_le)
  then have "push_bit k x AND a = 0" by (auto simp: bit_eq_iff bit_simps)
  then show ?thesis by (simp add: push_bit_eq_mult flip: disjunctive_add_eq_or)
qed

lemma unat_read_ts: "unat (read_ts ms) = ms mod 2 ^ 40"
proof -
  have "unat (read_ts ms) = take_bit 40 (take_bit 64 ms)"
    by (simp only: read_ts_def and_masks unsigned_take_bit_eq unsigned_of_nat) simp
  then show ?thesis by (simp add: take_bit_take_bit) (simp add: take_bit_eq_mod)
qed

lemma unat_pod: "unat (p AND 0xFFF :: 16 word) < 2 ^ 12"
  using take_bit_nat_less_exp [of 12 "unat p"] by (simp add: and_masks unsigned_take_bit_eq)

lemma unat_pack:
  assumes "unat ts < 2 ^ 40" and "unat seq < 2 ^ 12"
  shows "unat (pack_id p ts seq) = unat (p AND 0xFFF) * 2 ^ 52 + (unat ts * 2 ^ 12 + unat seq)"
proof -
  have small: "unat ts * 2 ^ 12 + unat seq < 2 ^ 52" using assms by simp
  have pod: "unat (push_bit 52 (ucast (p AND 0xFFF)) :: 64 word) = push_bit 52 (unat (p AND 0xFFF))"
    using unat_pod [of p]
    by (simp only: unsigned_push_bit_eq unsigned_ucast_eq) (simp add: push_bit_eq_mult take_bit_nat_eq_self)
  have ts: "unat (push_bit 12 ts :: 64 word) = push_bit 12 (unat ts)"
    using assms(1) by (simp only: unsigned_push_bit_eq) (simp add: push_bit_eq_mult take_bit_nat_eq_self)
  have "unat (pack_id p ts seq) = push_bit 52 (unat (p AND 0xFFF)) OR (push_bit 12 (unat ts) OR unat seq)"
    by (simp only: pack_id_def unsigned_or_eq pod ts or.assoc)
  also have "\<dots> = unat (p AND 0xFFF) * 2 ^ 52 + (unat ts * 2 ^ 12 + unat seq)"
    using or_push_bit_nat [OF assms(2)] or_push_bit_nat [OF small] by simp
  finally show ?thesis .
qed

text \<open>The three fields come back from a packed ID.\<close>

lemma small_bits:
  assumes "unat (w :: 64 word) < 2 ^ k"
  shows "bit w n \<Longrightarrow> n < k"
proof -
  assume b: "bit w n"
  have "take_bit k (unat w) = unat w" using assms by (simp add: take_bit_nat_eq_self)
  then have "bit (unat w) n \<longleftrightarrow> n < k \<and> bit (unat w) n" by (metis bit_take_bit_iff)
  with b show "n < k" by (simp add: bit_unsigned_iff)
qed

lemma sint_small:
  assumes "unat (w :: 64 word) < 2 ^ 63"
  shows "sint w = int (unat w)"
proof -
  have "int (unat w) < int (2 ^ 63)" using assms by (simp only: of_nat_less_iff)
  then have "uint w < 2 ^ 63" by simp
  moreover have "- (2 ^ 63) \<le> uint w" by (rule order_trans [of _ 0]) simp_all
  ultimately have "signed_take_bit 63 (uint w) = uint w"
    by (intro signed_take_bit_int_eq_self) simp_all
  then show ?thesis by (simp add: sint_uint)
qed

lemma sint_less: "unat (v :: 64 word) < unat (w :: 64 word) \<Longrightarrow> unat w < 2 ^ 40 \<Longrightarrow> sint v < sint w"
proof -
  assume *: "unat v < unat w" "unat w < 2 ^ 40"
  then have "unat v < 2 ^ 63" "unat w < 2 ^ 63" by simp_all
  then have "sint v = int (unat v)" "sint w = int (unat w)" by (simp_all add: sint_small)
  then show "sint v < sint w" using * by (simp only: of_nat_less_iff)
qed

lemma Parse_pack:
  assumes "unat ts < 2 ^ 40" and "unat seq < 2 ^ 12"
  shows "ParseSessionID (pack_id p ts seq) =
    \<lparr>PodHash = p AND 0xFFF, Timestamp = ts, Sequence = ucast seq, CreatedAt_ms = int (unat ts)\<rparr>"
proof -
  have len: "bit p n \<Longrightarrow> n < 16" "bit ts n \<Longrightarrow> n < 40" "bit seq n \<Longrightarrow> n < 12" for n
    using small_bits [OF assms(1)] small_bits [OF assms(2)] by (auto dest: bit_imp_le_length)
  have b: "bit (pack_id p ts seq) n \<longleftrightarrow> n < 64 \<and>
      (52 \<le> n \<and> bit p (n - 52) \<or> 12 \<le> n \<and> bit ts (n - 12) \<or> bit seq n)" for n
    unfolding pack_id_def and_masks by (auto simp: bit_simps dest: len)
  have 1: "ucast (take_bit 12 (drop_bit 52 (pack_id p ts seq))) = take_bit 12 p"
    by (rule bit_word_eqI) (auto simp: bit_simps b dest: len)
  have 2: "take_bit 40 (drop_bit 12 (pack_id p ts seq)) = ts"
    by (rule bit_word_eqI) (auto simp: bit_simps b dest: len)
  have 3: "ucast (take_bit 12 (pack_id p ts seq)) = (ucast seq :: 16 word)"
    by (rule bit_word_eqI) (auto simp: bit_simps b dest: len)
  have 4: "sint ts = int (unat ts)"
    using assms(1) by (simp add: sint_small)
  show ?thesis by (simp add: ParseSessionID_def and_masks 1 2 3 4)
qed

declare generateSessionID.simps(2) [simp del]

section \<open>One goroutine: strictly increasing IDs\<close>

text \<open>
  The generator within one period \<open>e\<close> of the 40-bit clock: the last timestamp is not ahead of
  the clock, and the counter has not left its twelve bits.
\<close>

definition id_inv :: "nat \<Rightarrow> id_gen \<Rightarrow> bool" where
  "id_inv e g \<longleftrightarrow> e * 2 ^ 40 + unat (lastTimestamp g) \<le> clock g \<and>
     unat (lastTimestamp g) < 2 ^ 40 \<and> unat (sessionSeq g) < 2 ^ 12"

text \<open>The position of an ID in time: milliseconds in the period, then the sequence number.\<close>

definition id_key :: "id_gen \<Rightarrow> nat" where
  "id_key g = unat (lastTimestamp g) * 2 ^ 12 + unat (sessionSeq g)"

lemma key_less: "a < b \<Longrightarrow> s < 2 ^ 12 \<Longrightarrow> a * 2 ^ 12 + s < b * 2 ^ 12 + (t::nat)"
  by simp

lemma period_ts:
  assumes "e * 2 ^ 40 \<le> ms" and "ms < (e + 1) * 2 ^ 40"
  shows "unat (read_ts ms) = ms - e * 2 ^ 40"
proof -
  define k where "k = ms - e * 2 ^ 40"
  have "ms = e * 2 ^ 40 + k" "k < 2 ^ 40" using assms by (simp_all add: k_def)
  then have "ms mod 2 ^ 40 = k" by (simp add: mod_less)
  then show ?thesis by (simp add: unat_read_ts k_def)
qed

lemma seq_step:
  assumes "unat (n :: 64 word) < 2 ^ 12"
  shows "unat (n + 1) = unat n + 1" and "unat ((n + 1) AND 0xFFF) = (unat n + 1) mod 2 ^ 12"
proof -
  show 1: "unat (n + 1) = unat n + 1" using assms by (simp add: unat_word_ariths)
  show "unat ((n + 1) AND 0xFFF) = (unat n + 1) mod 2 ^ 12"
    by (simp only: and_masks unsigned_take_bit_eq 1) (simp only: take_bit_eq_mod)
qed

text \<open>A new millisecond: the first round returns.\<close>

lemma generate_new:
  assumes "unat (lastTimestamp g) < 2 ^ 40" and "e * 2 ^ 40 + unat (lastTimestamp g) < clock g + el"
    and "clock g + el < (e + 1) * 2 ^ 40"
  defines "g' \<equiv> g\<lparr>lastTimestamp := read_ts (clock g + el), sessionSeq := 1, clock := clock g + el\<rparr>"
  shows "generateSessionID (el # es) g = Some (pack_id (podHash g) (lastTimestamp g') (sessionSeq g'), g') \<and>
    id_inv e g' \<and> unat (lastTimestamp g) < unat (lastTimestamp g')"
proof -
  have ts: "unat (read_ts (clock g + el)) = clock g + el - e * 2 ^ 40"
    using assms by (intro period_ts) simp_all
  then have lt: "unat (lastTimestamp g) < unat (read_ts (clock g + el))" "unat (read_ts (clock g + el)) < 2 ^ 40"
    using assms by simp_all
  then have "lastTimestamp g \<noteq> read_ts (clock g + el)"
    "sint (lastTimestamp g) < sint (read_ts (clock g + el))"
    by (auto intro: sint_less)
  then show ?thesis using lt ts assms by (auto simp: g'_def id_inv_def Let_def generateSessionID.simps(2))
qed

text \<open>Two readings of the clock are always enough.\<close>

lemma generate_next:
  assumes inv: "id_inv e g" and "clock g + sum_list (el1 # el2 # es) + length (el1 # el2 # es) < (e + 1) * 2 ^ 40"
  shows "\<exists>g'. generateSessionID (el1 # el2 # es) g = Some (pack_id (podHash g) (lastTimestamp g') (sessionSeq g'), g') \<and>
    id_inv e g' \<and> podHash g' = podHash g \<and> id_key g < id_key g' \<and>
    clock g' \<le> clock g + sum_list (el1 # el2 # es) + length (el1 # el2 # es)"
proof (cases "e * 2 ^ 40 + unat (lastTimestamp g) < clock g + el1")
  case True
  let ?g' = "g\<lparr>lastTimestamp := read_ts (clock g + el1), sessionSeq := 1, clock := clock g + el1\<rparr>"
  have g: "unat (lastTimestamp g) < 2 ^ 40" "clock g + el1 < (e + 1) * 2 ^ 40"
    using assms by (simp_all add: id_inv_def)
  note n = generate_new [OF g(1) True g(2)]
  then have "id_key g < id_key ?g'" using inv unfolding id_key_def by (intro key_less) (simp_all add: id_inv_def)
  with n show ?thesis by (intro exI [of _ ?g']) simp
next
  case False
  then have ms: "clock g + el1 = e * 2 ^ 40 + unat (lastTimestamp g)" using inv by (simp add: id_inv_def)
  have ts: "read_ts (clock g + el1) = lastTimestamp g"
    using period_ts [of e "clock g + el1"] assms ms by (simp add: word_unat_eq_iff)
  note sq = seq_step [of "sessionSeq g"]
  show ?thesis
  proof (cases "unat (sessionSeq g) + 1 = 2 ^ 12")
    case False
    let ?g' = "g\<lparr>sessionSeq := sessionSeq g + 1, clock := clock g + el1\<rparr>"
    have "(sessionSeq g + 1) AND 0xFFF = sessionSeq g + 1" "sessionSeq g + 1 \<noteq> 0"
      using sq False inv by (simp_all add: id_inv_def word_unat_eq_iff )
    then show ?thesis using ts False inv sq ms assms(2)
      by (intro exI [of _ ?g']) (simp add: Let_def id_inv_def id_key_def generateSessionID.simps(2))
  next
    case True
    let ?g1 = "g\<lparr>sessionSeq := sessionSeq g + 1, clock := clock g + el1 + 1\<rparr>"
    let ?g' = "?g1\<lparr>lastTimestamp := read_ts (clock ?g1 + el2), sessionSeq := 1, clock := clock ?g1 + el2\<rparr>"
    have "(sessionSeq g + 1) AND 0xFFF = 0"
      using sq True inv by (simp add: id_inv_def word_unat_eq_iff)
    then have r: "generateSessionID (el1 # el2 # es) g = generateSessionID (el2 # es) ?g1"
      using ts by (simp add: Let_def generateSessionID.simps(2) [of el1])
    have n: "generateSessionID (el2 # es) ?g1 = Some (pack_id (podHash ?g1) (lastTimestamp ?g') (sessionSeq ?g'), ?g') \<and>
      id_inv e ?g' \<and> unat (lastTimestamp ?g1) < unat (lastTimestamp ?g')"
      by (rule generate_new) (use inv ms assms(2) in \<open>simp_all add: id_inv_def\<close>)
    then have "id_key g < id_key ?g'" using inv unfolding id_key_def by (intro key_less) (simp_all add: id_inv_def)
    with n show ?thesis unfolding r by (intro exI [of _ ?g']) simp
  qed
qed

lemma unat_pack_key:
  "id_inv e g \<Longrightarrow> unat (pack_id p (lastTimestamp g) (sessionSeq g)) = unat (p AND 0xFFF) * 2 ^ 52 + id_key g"
  unfolding id_inv_def id_key_def by (intro unat_pack) simp_all

definition call_cost :: "nat list \<Rightarrow> nat" where
  "call_cost es = sum_list es + length es"

lemma generate_many_sorted:
  assumes "id_inv e g" and "\<forall>es \<in> set ess. 2 \<le> length es"
    and "clock g + sum_list (map call_cost ess) < (e + 1) * 2 ^ 40"
  shows "\<exists>ids g'. generate_many ess g = Some (ids, g') \<and> length ids = length ess \<and> sorted_wrt (<) ids \<and>
    (\<forall>i \<in> set ids. unat (podHash g AND 0xFFF) * 2 ^ 52 + id_key g < unat i)"
  using assms
proof (induction ess arbitrary: g)
  case (Cons es ess)
  obtain el1 el2 es' where es: "es = el1 # el2 # es'"
    using Cons.prems(2) by (cases es; cases "tl es") auto
  have "clock g + sum_list (el1 # el2 # es') + length (el1 # el2 # es') < (e + 1) * 2 ^ 40"
    using Cons.prems(3) es by (simp add: call_cost_def)
  from generate_next [OF Cons.prems(1) this] obtain g' where
    g': "generateSessionID es g = Some (pack_id (podHash g) (lastTimestamp g') (sessionSeq g'), g')"
      "id_inv e g'" "podHash g' = podHash g" "id_key g < id_key g'" "clock g' \<le> clock g + call_cost es"
    by (auto simp: es call_cost_def)
  have "clock g' + sum_list (map call_cost ess) < (e + 1) * 2 ^ 40"
    using Cons.prems(3) g'(5) by simp
  then obtain ids g'' where ids: "generate_many ess g' = Some (ids, g'')" "length ids = length ess"
      "sorted_wrt (<) ids" "\<forall>i \<in> set ids. unat (podHash g AND 0xFFF) * 2 ^ 52 + id_key g' < unat i"
    using Cons.IH [OF g'(2)] Cons.prems(2) g'(3) by auto
  let ?i = "pack_id (podHash g) (lastTimestamp g') (sessionSeq g')"
  have i: "unat ?i = unat (podHash g AND 0xFFF) * 2 ^ 52 + id_key g'" using unat_pack_key [OF g'(2)] .
  then have "\<forall>j \<in> set ids. ?i < j" using ids(4) by (simp add: word_less_nat_alt)
  moreover have "\<forall>j \<in> set (?i # ids). unat (podHash g AND 0xFFF) * 2 ^ 52 + id_key g < unat j"
    using i ids(4) g'(4) by (auto dest: less_trans)
  ultimately show ?case using g'(1) ids by auto
qed simp

lemma fresh_inv: "e * 2 ^ 40 \<le> ms \<Longrightarrow> id_inv e (fresh_gen p ms)"
  by (simp add: id_inv_def fresh_gen_def)



text \<open>
  \<open>ParseSessionID\<close> recovers from the first ID of a millisecond the low twelve bits of
  the pod hash, the clock modulo \<open>2 ^ 40\<close> and the sequence number 1.  The creation time it
  reports is the clock reading only for clocks below \<open>2 ^ 40\<close> milliseconds.
\<close>

theorem ParseSessionID_generate:
  assumes "read_ts ms \<noteq> 0"
  shows "\<exists>i g'. generateSessionID [0] (fresh_gen p ms) = Some (i, g') \<and>
    PodHash (ParseSessionID i) = p AND 0xFFF \<and> unat (Timestamp (ParseSessionID i)) = ms mod 2 ^ 40 \<and>
    Sequence (ParseSessionID i) = 1 \<and> (CreatedAt_ms (ParseSessionID i) = int ms \<longleftrightarrow> ms < 2 ^ 40)"
proof -
  have ts: "unat (read_ts ms) < 2 ^ 40" by (simp add: unat_read_ts)
  have "0 \<le> sint (read_ts ms)" using ts by (simp add: sint_small)
  then have "\<exists>g'. generateSessionID [0] (fresh_gen p ms) = Some (pack_id p (read_ts ms) 1, g')"
    using assms by (simp add: generateSessionID.simps(2) fresh_gen_def Let_def)
  moreover have "ParseSessionID (pack_id p (read_ts ms) 1) =
      \<lparr>PodHash = p AND 0xFFF, Timestamp = read_ts ms, Sequence = ucast (1 :: 64 word), CreatedAt_ms = int (unat (read_ts ms))\<rparr>"
    using ts by (intro Parse_pack) simp_all
  moreover have "int (ms mod 2 ^ 40) = int ms \<longleftrightarrow> ms < 2 ^ 40"
    by (metis mod_less mod_less_divisor of_nat_eq_iff zero_less_numeral zero_less_power)
  ultimately show ?thesis by (auto simp: unat_read_ts simp del: of_nat_mod zmod_int)
qed

theorem ParseSessionID_generate_witness:
  "\<exists>i g'. generateSessionID [0] (fresh_gen 0xFABC 1700000000000) = Some (i, g') \<and> PodHash (ParseSessionID i) = 0xABC"
proof -
  have "read_ts 1700000000000 \<noteq> 0" by (simp add: read_ts_def)
  moreover have "(0xFABC AND 0xFFF :: 16 word) = 0xABC" by simp
  ultimately show ?thesis using ParseSessionID_generate [of 1700000000000 "0xFABC"] by metis
qed


end
