(* ===== verification/Router.thy ===== *)
theory Router
  imports GatewayPrelude
begin

text \<open>
  \<open>internal/router/router.go\<close>: the table of routing rules keyed by \<open>serverType:worldID\<close>,
  lookup with a wildcard world, and the choice of an endpoint by round robin or by a
  CRC-32 hash.  The methods hold the router's mutex or a single atomic operation, so they
  are functions of the router.
\<close>

section \<open>CRC-32\<close>

text \<open>\<open>crc32.ChecksumIEEE\<close>: the reflected polynomial \<open>0xEDB88320\<close>, bit by bit.\<close>

definition crc_bit :: "32 word \<Rightarrow> 32 word" where
  "crc_bit c = (if bit c 0 then drop_bit 1 c XOR 0xEDB88320 else drop_bit 1 c)"

definition crc_byte :: "32 word \<Rightarrow> byte \<Rightarrow> 32 word" where
  "crc_byte c b = (crc_bit ^^ 8) (c XOR ucast b)"

definition ChecksumIEEE :: "bytes \<Rightarrow> 32 word" where
  "ChecksumIEEE bs = NOT (fold (\<lambda>b c. crc_byte c b) bs 0xFFFFFFFF)"

section \<open>Rules and the router\<close>

type_synonym RoutingStrategy = string

definition StrategyRoundRobin :: RoutingStrategy where "StrategyRoundRobin = ''round_robin''"
definition StrategyConsistentHash :: RoutingStrategy where "StrategyConsistentHash = ''consistent_hash''"
definition StrategyRealmBased :: RoutingStrategy where "StrategyRealmBased = ''realm_based''"

record RoutingRule =
  ServerType :: int
  ServiceName :: string
  Strategy :: RoutingStrategy
  Endpoints :: "string list"
  HashKey :: string
  rule_WorldID :: int

record Router =
  rules :: "(string, RoutingRule) gomap"
  roundRobinCounters :: "(string, 64 word) gomap"

definition NewRouter :: Router where
  "NewRouter = \<lparr>rules = [], roundRobinCounters = []\<rparr>"

definition makeRuleKey :: "int \<Rightarrow> int \<Rightarrow> string" where
  "makeRuleKey serverType worldID =
     (if worldID \<le> 0 then dec_int serverType @ '':0'' else dec_int serverType @ '':'' @ dec_int worldID)"

definition UpdateRule :: "RoutingRule \<Rightarrow> Router \<Rightarrow> Router" where
  "UpdateRule rule r = r\<lparr>rules := gomap_put (makeRuleKey (ServerType rule) (rule_WorldID rule)) rule (rules r)\<rparr>"

definition RemoveRule :: "int \<Rightarrow> int \<Rightarrow> Router \<Rightarrow> Router" where
  "RemoveRule serverType worldID r = r\<lparr>rules := gomap_del (makeRuleKey serverType worldID) (rules r)\<rparr>"

definition GetRule :: "Router \<Rightarrow> int \<Rightarrow> int \<Rightarrow> RoutingRule option" where
  "GetRule r serverType worldID =
     (case (if 0 < worldID then gomap_get (rules r) (makeRuleKey serverType worldID) else None) of
        Some rule \<Rightarrow> Some rule
      | None \<Rightarrow> gomap_get (rules r) (makeRuleKey serverType 0))"

text \<open>
  \<open>routeRoundRobin\<close>.  The counter is a 64-bit integer, and \<open>%\<close> keeps its sign: a negative
  index panics.
\<close>

definition routeRoundRobin :: "int \<Rightarrow> int \<Rightarrow> RoutingRule \<Rightarrow> Router \<Rightarrow> string res \<times> Router" where
  "routeRoundRobin serverType worldID rule r =
     (let key = makeRuleKey serverType worldID;
          counter = (case gomap_get (roundRobinCounters r) key of None \<Rightarrow> 0 | Some c \<Rightarrow> c);
          r' = r\<lparr>roundRobinCounters := gomap_put key (counter + 1) (roundRobinCounters r)\<rparr>;
          count = sint ((counter + 1) - 1);
          index = go_rem count (int (length (Endpoints rule)))
      in if index < 0 then (Panic ''index out of range'', r')
         else (Ok (Endpoints rule ! nat index), r'))"

definition hash_endpoint :: "string \<Rightarrow> RoutingRule \<Rightarrow> string" where
  "hash_endpoint key rule =
     (let hash = ChecksumIEEE (string_bytes key);
          index = go_rem (int (unat hash)) (int (length (Endpoints rule)))
      in Endpoints rule ! nat index)"

definition RouteByServerID :: "int \<Rightarrow> int \<Rightarrow> int \<Rightarrow> Router \<Rightarrow> string res \<times> Router" where
  "RouteByServerID serverType worldID instID r =
     (case GetRule r serverType worldID of
        None \<Rightarrow> (Err (Errorf (''routing rule not found for serverType: '' @ dec_int serverType @
                   '', worldID: '' @ dec_int worldID) None), r)
      | Some rule \<Rightarrow>
          if length (Endpoints rule) = 0 then
            (Err (Errorf (''no available endpoints for serverType: '' @ dec_int serverType) None), r)
          else if Strategy rule = StrategyRoundRobin then routeRoundRobin serverType worldID rule r
          else if Strategy rule = StrategyConsistentHash then
            (if 0 < instID then (Ok (hash_endpoint (dec_int instID) rule), r)
             else routeRoundRobin serverType worldID rule r)
          else if Strategy rule = StrategyRealmBased then
            (if 0 < worldID \<and> 0 < instID then
               (Ok (hash_endpoint (''world:'' @ dec_int worldID @ '':inst:'' @ dec_int instID) rule), r)
             else routeRoundRobin serverType worldID rule r)
          else (Err (Errorf (''unknown routing strategy: '' @ Strategy rule) None), r))"

definition GetAllRules :: "Router \<Rightarrow> (string, RoutingRule) gomap" where
  "GetAllRules r = fold (\<lambda>(k, v) m. gomap_put k v m) (rules r) []"

section \<open>Keys\<close>

text \<open>Evaluation on literals, innermost first, and the check value of the CRC-32 catalogue.\<close>

lemma crc_byte_unfold:
  "crc_byte c b = crc_bit (crc_bit (crc_bit (crc_bit (crc_bit (crc_bit (crc_bit (crc_bit (c XOR ucast b))))))))"
  by (simp add: crc_byte_def numeral_eq_Suc)

lemmas crc_eval = crc_bit_def [of "numeral n" for n] crc_byte_unfold [of "numeral n" "numeral m" for n m]

lemma crc32_check: "ChecksumIEEE (string_bytes ''123456789'') = 0xCBF43926"
  by (simp add: ChecksumIEEE_def string_bytes_def crc_eval)

lemma dec_int_zero [simp]: "dec_int 0 = ''0''"
  by code_simp

lemma makeRuleKey_alt: "makeRuleKey t w = dec_int t @ CHR '':'' # dec_int (max w 0)"
  by (simp add: makeRuleKey_def max_def)

lemma makeRuleKey_eq: "makeRuleKey t w = makeRuleKey t' w' \<longleftrightarrow> t = t' \<and> max w 0 = max w' 0"
proof
  assume "makeRuleKey t w = makeRuleKey t' w'"
  then have "dec_int t @ CHR '':'' # dec_int (max w 0) = dec_int t' @ CHR '':'' # dec_int (max w' 0)"
    by (simp only: makeRuleKey_alt)
  from append_sep_inject [OF this] show "t = t' \<and> max w 0 = max w' 0" by simp
qed (simp add: makeRuleKey_alt)

section \<open>The rule table\<close>

text \<open>
  The specification: one partial map from server type and world, with world 0 for the
  wildcard, changed by updates and removals in order.
\<close>

datatype rule_op = RuleUpdate RoutingRule | RuleRemove int int

fun rule_step :: "rule_op \<Rightarrow> Router \<Rightarrow> Router" where
  "rule_step (RuleUpdate rule) r = UpdateRule rule r"
| "rule_step (RuleRemove t w) r = RemoveRule t w r"

type_synonym rule_table = "int \<times> int \<Rightarrow> RoutingRule option"

fun table_step :: "rule_op \<Rightarrow> rule_table \<Rightarrow> rule_table" where
  "table_step (RuleUpdate rule) f = f((ServerType rule, max (rule_WorldID rule) 0) \<mapsto> rule)"
| "table_step (RuleRemove t w) f = f((t, max w 0) := None)"

definition table_lookup :: "rule_table \<Rightarrow> int \<Rightarrow> int \<Rightarrow> RoutingRule option" where
  "table_lookup f t w = (if 0 < w \<and> f (t, w) \<noteq> None then f (t, w) else f (t, 0))"

text \<open>A router represents a table: the entry of each type and world is under its key.\<close>

definition represents :: "Router \<Rightarrow> rule_table \<Rightarrow> bool" where
  "represents r f \<longleftrightarrow> (\<forall>t w. gomap_get (rules r) (makeRuleKey t w) = f (t, max w 0))"

lemma represents_new: "represents NewRouter Map.empty"
  by (simp add: represents_def NewRouter_def)

lemma represents_step: "represents r f \<Longrightarrow> represents (rule_step op r) (table_step op f)"
  by (cases op) (auto simp: represents_def UpdateRule_def RemoveRule_def makeRuleKey_eq)

lemma represents_run: "represents r f \<Longrightarrow> represents (fold rule_step ops r) (fold table_step ops f)"
  by (induction ops arbitrary: r f) (simp_all add: represents_step)

lemma represents_GetRule: "represents r f \<Longrightarrow> GetRule r t w = table_lookup f t w"
  by (auto simp: represents_def GetRule_def table_lookup_def split: option.split)

text \<open>
  C22. After any sequence of rule updates and removals, \<open>GetRule\<close> answers as the abstract
  table does: the latest rule for the exact world if there is one, otherwise the latest
  wildcard rule of the server type, otherwise nothing.
\<close>

theorem GetRule_refines_table:
  "GetRule (fold rule_step ops NewRouter) t w = table_lookup (fold table_step ops Map.empty) t w"
  by (intro represents_GetRule represents_run represents_new)

section \<open>Choice of an endpoint\<close>

definition rr_counter :: "Router \<Rightarrow> int \<Rightarrow> int \<Rightarrow> 64 word" where
  "rr_counter r t w = (case gomap_get (roundRobinCounters r) (makeRuleKey t w) of None \<Rightarrow> 0 | Some c \<Rightarrow> c)"

definition known_strategy :: "RoutingStrategy \<Rightarrow> bool" where
  "known_strategy st \<longleftrightarrow> st \<in> {StrategyRoundRobin, StrategyConsistentHash, StrategyRealmBased}"

lemma GetRule_rules: "rules r' = rules r \<Longrightarrow> GetRule r' = GetRule r"
  unfolding GetRule_def by (intro ext) presburger

lemma GetRule_norm: "t = t' \<Longrightarrow> max w 0 = max w' 0 \<Longrightarrow> GetRule r t w = GetRule r t' w'"
  by (auto simp: GetRule_def max_def split: if_splits)

lemma routeRoundRobin_rules: "rules (snd (routeRoundRobin t w rule r)) = rules r"
  by (simp add: routeRoundRobin_def Let_def)

lemma routeRoundRobin_eq:
  assumes "0 \<le> sint (rr_counter r t w)" and "Endpoints rule \<noteq> []"
  shows "fst (routeRoundRobin t w rule r) =
    Ok (Endpoints rule ! nat (sint (rr_counter r t w) mod int (length (Endpoints rule))))"
proof -
  have "0 \<le> go_rem (sint (rr_counter r t w)) (int (length (Endpoints rule)))"
    using assms by (simp add: go_rem_nonneg)
  moreover have "go_rem (sint (rr_counter r t w)) (int (length (Endpoints rule))) =
      sint (rr_counter r t w) mod int (length (Endpoints rule))"
    using assms by (simp add: go_rem_nonneg)
  ultimately show ?thesis
    by (simp add: routeRoundRobin_def rr_counter_def Let_def)
qed

lemma routeRoundRobin_counter:
  "rr_counter (snd (routeRoundRobin t w rule r)) t' w' =
     rr_counter r t' w' + (if t = t' \<and> max w 0 = max w' 0 then 1 else 0)"
proof -
  have "makeRuleKey t' w' = makeRuleKey t w \<longleftrightarrow> t = t' \<and> max w 0 = max w' 0" by (auto simp: makeRuleKey_eq)
  then show ?thesis
    by (cases "t = t' \<and> max w 0 = max w' 0") (simp_all add: rr_counter_def routeRoundRobin_def Let_def)
qed

lemma routeRoundRobin_member:
  assumes "Endpoints rule \<noteq> []" and "fst (routeRoundRobin t w rule r) = Ok ep"
  shows "ep \<in> set (Endpoints rule)"
proof -
  let ?i = "go_rem (sint (rr_counter r t w)) (int (length (Endpoints rule)))"
  have "?i < int (length (Endpoints rule))" using assms(1) go_rem_bounds by simp
  moreover have "\<not> ?i < 0" "ep = Endpoints rule ! nat ?i"
    using assms(2) by (auto simp: routeRoundRobin_def rr_counter_def Let_def split: if_splits)
  ultimately show ?thesis by (simp add: nat_less_iff)
qed

lemma routeRoundRobin_no_err: "fst (routeRoundRobin t w rule r) \<noteq> Err e"
  by (simp add: routeRoundRobin_def Let_def)

lemma hash_endpoint_member: "Endpoints rule \<noteq> [] \<Longrightarrow> hash_endpoint key rule \<in> set (Endpoints rule)"
  by (simp add: hash_endpoint_def Let_def go_rem_nonneg nat_less_iff)

lemma route_rules: "rules (snd (RouteByServerID t w i r)) = rules r"
  by (simp add: RouteByServerID_def routeRoundRobin_rules split: option.split)

text \<open>
  C23. What a routing request returns.  An endpoint is returned only from the endpoint list
  of the rule found for the request; an error means that there is no rule, that it has no
  endpoints, or that its strategy is unknown, and then nothing changes; the rules never
  change; and with a usable rule and counters below \<open>2 ^ 63\<close> an endpoint is always returned.
\<close>

theorem RouteByServerID_correct:
  assumes "RouteByServerID t w i r = (res, r')"
  shows "rules r' = rules r \<and>
    (\<forall>ep. res = Ok ep \<longrightarrow> (\<exists>rule. GetRule r t w = Some rule \<and> ep \<in> set (Endpoints rule))) \<and>
    (\<forall>e. res = Err e \<longrightarrow> r' = r \<and> (case GetRule r t w of None \<Rightarrow> True
       | Some rule \<Rightarrow> Endpoints rule = [] \<or> \<not> known_strategy (Strategy rule))) \<and>
    (\<forall>rule. GetRule r t w = Some rule \<and> Endpoints rule \<noteq> [] \<and> known_strategy (Strategy rule) \<and>
       0 \<le> sint (rr_counter r t w) \<longrightarrow> is_ok res)"
proof (cases "GetRule r t w")
  case None
  then show ?thesis using assms by (auto simp: RouteByServerID_def)
next
  case (Some rule)
  let ?rr = "routeRoundRobin t w rule r"
  consider "Endpoints rule = []" | "Endpoints rule \<noteq> []" "\<not> known_strategy (Strategy rule)"
    | key where "Endpoints rule \<noteq> []" "known_strategy (Strategy rule)" "(res, r') = (Ok (hash_endpoint key rule), r)"
    | "Endpoints rule \<noteq> []" "known_strategy (Strategy rule)" "(res, r') = ?rr"
    using assms Some by (auto simp: RouteByServerID_def known_strategy_def split: if_splits)
  then show ?thesis
  proof cases
    case 4
    then have "res = fst ?rr" "r' = snd ?rr" by (metis fst_conv, metis snd_conv)
    then show ?thesis using Some 4 routeRoundRobin_rules [of t w rule r] routeRoundRobin_member [OF 4(1)]
        routeRoundRobin_eq [OF _ 4(1)] routeRoundRobin_no_err [of t w rule r] by auto
  qed (use assms Some hash_endpoint_member in \<open>auto simp: RouteByServerID_def known_strategy_def split: if_splits\<close>)
qed

theorem RouteByServerID_correct_witness:
  "\<exists>res r'. RouteByServerID 10 7 0 (UpdateRule \<lparr>ServerType = 10, ServiceName = ''account'', Strategy = StrategyRoundRobin,
       Endpoints = [''a'', ''b''], HashKey = [], rule_WorldID = 0\<rparr> NewRouter) = (res, r') \<and> is_ok res"
proof -
  let ?rule = "\<lparr>ServerType = 10, ServiceName = ''account'', Strategy = StrategyRoundRobin,
       Endpoints = [''a'', ''b''], HashKey = [], rule_WorldID = 0\<rparr>"
  let ?r = "UpdateRule ?rule NewRouter"
  obtain res r' where eq: "RouteByServerID 10 7 0 ?r = (res, r')" by (cases "RouteByServerID 10 7 0 ?r")
  have "GetRule ?r 10 7 = Some ?rule"
    by (simp add: GetRule_def UpdateRule_def NewRouter_def makeRuleKey_eq)
  moreover have "rr_counter ?r 10 7 = 0" by (simp add: rr_counter_def UpdateRule_def NewRouter_def)
  ultimately have "is_ok res" using RouteByServerID_correct [OF eq] by (simp add: known_strategy_def)
  with eq show ?thesis by blast
qed

section \<open>Round robin is fair\<close>

text \<open>Requests in the order they reach the router, each with its answer.\<close>

type_synonym route_request = "int \<times> int \<times> int"

fun route_all :: "route_request list \<Rightarrow> Router \<Rightarrow> (route_request \<times> string res) list \<times> Router" where
  "route_all [] r = ([], r)"
| "route_all ((t, w, i) # reqs) r =
     (case RouteByServerID t w i r of
        (res, r') \<Rightarrow> apfst (Cons ((t, w, i), res)) (route_all reqs r'))"

text \<open>The answers to the requests for one server type and world.\<close>

definition answers :: "int \<Rightarrow> int \<Rightarrow> (route_request \<times> string res) list \<Rightarrow> string res list" where
  "answers t w rs = map snd (filter (\<lambda>((t', w', i), res). t' = t \<and> max w' 0 = max w 0) rs)"

lemma route_counter_other:
  assumes "\<not> (t' = t \<and> max w' 0 = max w 0)"
  shows "rr_counter (snd (RouteByServerID t' w' i r)) t w = rr_counter r t w"
  using assms by (auto simp: RouteByServerID_def routeRoundRobin_counter split: option.split)

lemma sint_plus_one: "0 \<le> sint (c :: 64 word) \<Longrightarrow> sint c + 1 < 2 ^ 63 \<Longrightarrow> sint (c + 1) = sint c + 1"
  by (simp add: sint_word_ariths signed_take_bit_int_eq_self)

text \<open>One request for the pair: the endpoint under the counter, which moves on by one.\<close>

lemma route_round_robin_step:
  assumes "GetRule r t w = Some rule" and "Strategy rule = StrategyRoundRobin" and "Endpoints rule \<noteq> []"
    and "0 \<le> sint (rr_counter r t w)" and "t' = t \<and> max w' 0 = max w 0"
  shows "fst (RouteByServerID t' w' i r) = Ok (Endpoints rule ! (nat (sint (rr_counter r t w)) mod length (Endpoints rule)))"
    and "rr_counter (snd (RouteByServerID t' w' i r)) t w = rr_counter r t w + 1"
proof -
  have "GetRule r t' w' = Some rule" using assms(1,5) GetRule_norm by metis
  then have rr: "RouteByServerID t' w' i r = routeRoundRobin t' w' rule r"
    using assms(2,3) by (simp add: RouteByServerID_def)
  have c: "rr_counter r t' w' = rr_counter r t w"
    using assms(5) makeRuleKey_eq [of t' w' t w] by (simp add: rr_counter_def)
  have "nat (sint (rr_counter r t w) mod int (length (Endpoints rule))) = nat (sint (rr_counter r t w)) mod length (Endpoints rule)"
    using assms(4) by (simp add: nat_mod_distrib)
  then show "fst (RouteByServerID t' w' i r) = Ok (Endpoints rule ! (nat (sint (rr_counter r t w)) mod length (Endpoints rule)))"
    using routeRoundRobin_eq [of r t' w' rule] assms(3,4) c by (simp add: rr)
  show "rr_counter (snd (RouteByServerID t' w' i r)) t w = rr_counter r t w + 1"
    unfolding rr using routeRoundRobin_counter [of t' w' rule r t w] assms(5) by simp
qed

lemma route_all_round_robin:
  assumes "GetRule r t w = Some rule" and "Strategy rule = StrategyRoundRobin" and "Endpoints rule \<noteq> []"
    and "rr_counter r t w = c" and "0 \<le> sint c" and "sint c + int (length reqs) < 2 ^ 63"
  shows "answers t w (fst (route_all reqs r)) =
    map (\<lambda>k. Ok (Endpoints rule ! ((nat (sint c) + k) mod length (Endpoints rule))))
      [0..<length (answers t w (fst (route_all reqs r)))]"
  using assms(1,4,5,6)
proof (induction reqs arbitrary: r c)
  case Nil
  then show ?case by (simp add: answers_def)
next
  case (Cons req reqs)
  obtain t' w' i where req: "req = (t', w', i)" by (cases req)
  obtain res r' where route: "RouteByServerID t' w' i r = (res, r')" by (cases "RouteByServerID t' w' i r")
  have get': "GetRule r' t w = Some rule"
    using Cons.prems(1) route_rules [of t' w' i r] route GetRule_rules [of r' r] by simp
  show ?case
  proof (cases "t' = t \<and> max w' 0 = max w 0")
    case False
    then have "rr_counter r' t w = c" using route_counter_other [OF False, of i r] route Cons.prems(2) by simp
    with Cons.IH [OF get' this] Cons.prems False req route show ?thesis by (auto simp: answers_def)
  next
    case True
    note one = route_round_robin_step [OF Cons.prems(1) assms(2,3) _ True, of i, unfolded Cons.prems(2) route fst_conv snd_conv, OF Cons.prems(3)]
    have "sint (c + 1) = sint c + 1" using Cons.prems by (intro sint_plus_one) simp_all
    then have IH: "answers t w (fst (route_all reqs r')) =
      map (\<lambda>k. Ok (Endpoints rule ! ((nat (sint c) + Suc k) mod length (Endpoints rule))))
        [0..<length (answers t w (fst (route_all reqs r')))]"
      using Cons.IH [OF get' one(2)] Cons.prems by (simp add: nat_add_distrib)
    have "answers t w (fst (route_all (req # reqs) r)) = res # answers t w (fst (route_all reqs r'))"
      using True req route by (simp add: answers_def)
    then show ?thesis using IH one(1) by (simp add: map_upt_Suc del: upt_Suc)
  qed
qed

text \<open>A window of \<open>k * n\<close> consecutive numbers meets every residue modulo \<open>n\<close> exactly \<open>k\<close> times.\<close>

lemma mod_shift_eq: "(c + x) mod n = (c + y) mod n \<Longrightarrow> x < n \<Longrightarrow> y < n \<Longrightarrow> x = (y::nat)"
proof (induction x y rule: linorder_wlog)
  case (le x y)
  have "n dvd (c + y) - (c + x)" using le(1,2) mod_eq_dvd_iff_nat [of "c + x" "c + y" n] by simp
  then have "n dvd y - x" by simp
  with le show ?case by (auto dest: dvd_imp_le)
next
  case (sym x y)
  then show ?case by simp
qed

lemma residues_once:
  assumes "j < (n::nat)"
  shows "length (filter (\<lambda>i. (c + i) mod n = j) [0..<n]) = 1"
proof -
  have inj: "inj_on (\<lambda>i. (c + i) mod n) {0..<n}" by (rule inj_onI) (auto dest: mod_shift_eq)
  have "(\<lambda>i. (c + i) mod n) ` {0..<n} \<subseteq> {0..<n}" using assms by auto
  then have "(\<lambda>i. (c + i) mod n) ` {0..<n} = {0..<n}" using inj by (intro card_subset_eq) (simp_all add: card_image)
  then have "j \<in> (\<lambda>i. (c + i) mod n) ` {0..<n}" using assms by simp
  then obtain i where i: "i < n" "(c + i) mod n = j" by auto
  have "{x. x < n \<and> (c + x) mod n = j} = {i}" using inj i by (auto dest: inj_onD)
  then have "set (filter (\<lambda>i. (c + i) mod n = j) [0..<n]) = {i}" by auto
  then show ?thesis using distinct_card [of "filter (\<lambda>i. (c + i) mod n = j) [0..<n]"] by simp
qed

lemma residues_count:
  assumes "j < (n::nat)"
  shows "length (filter (\<lambda>i. (c + i) mod n = j) [0..<k * n]) = k"
proof (induction k)
  case (Suc k)
  have "[0..<Suc k * n] = [0..<k * n] @ map (\<lambda>i. i + k * n) [0..<n]"
    using upt_add_eq_append [of 0 "k * n" n] map_add_upt [of "k * n" n] by (simp add: add.commute)
  moreover have "(c + (i + k * n)) mod n = (c + i) mod n" for i by (simp add: add.assoc [symmetric])
  ultimately show ?case using Suc.IH residues_once [OF assms, of c] by (simp add: filter_map comp_def)
qed simp

text \<open>
  C24. Round robin is fair for a server type and world: whatever other requests are mixed
  in, its answers walk through the endpoint list in order, so when their number is a
  multiple of the number of (distinct) endpoints, every endpoint is chosen equally often.
\<close>

theorem round_robin_fair:
  assumes "GetRule r t w = Some rule" and "Strategy rule = StrategyRoundRobin"
    and "Endpoints rule \<noteq> []" and "distinct (Endpoints rule)"
    and "0 \<le> sint (rr_counter r t w)" and "sint (rr_counter r t w) + int (length reqs) < 2 ^ 63"
    and "length (answers t w (fst (route_all reqs r))) = k * length (Endpoints rule)"
    and "ep \<in> set (Endpoints rule)"
  shows "length (filter (\<lambda>res. res = Ok ep) (answers t w (fst (route_all reqs r)))) = k"
proof -
  let ?n = "length (Endpoints rule)" and ?c = "nat (sint (rr_counter r t w))"
  obtain j where j: "j < ?n" "ep = Endpoints rule ! j" using assms(8) by (auto simp: in_set_conv_nth)
  have "answers t w (fst (route_all reqs r)) = map (\<lambda>i. Ok (Endpoints rule ! ((?c + i) mod ?n))) [0..<k * ?n]"
    using route_all_round_robin [OF assms(1-3) refl assms(5,6)] assms(7) by simp
  then have "length (filter (\<lambda>res. res = Ok ep) (answers t w (fst (route_all reqs r)))) =
      length (filter (\<lambda>i. Endpoints rule ! ((?c + i) mod ?n) = ep) [0..<k * ?n])"
    by (simp add: filter_map comp_def)
  also have "(\<lambda>i. Endpoints rule ! ((?c + i) mod ?n) = ep) = (\<lambda>i. (?c + i) mod ?n = j)"
    using j assms(3,4) by (auto simp: fun_eq_iff nth_eq_iff_index_eq)
  also have "length (filter (\<lambda>i. (?c + i) mod ?n = j) [0..<k * ?n]) = k" by (rule residues_count [OF j(1)])
  finally show ?thesis .
qed

theorem round_robin_fair_witness:
  "let r = UpdateRule \<lparr>ServerType = 10, ServiceName = ''account'', Strategy = StrategyRoundRobin,
       Endpoints = [''a'', ''b''], HashKey = [], rule_WorldID = 0\<rparr> NewRouter;
       as = answers 10 0 (fst (route_all [(10, 0, 1), (10, 7, 1), (10, 0, 2)] r))
   in length (filter (\<lambda>res. res = Ok ''b'') as) = 1"
  unfolding Let_def
  by (rule round_robin_fair [where rule = "\<lparr>ServerType = 10, ServiceName = ''account'', Strategy = StrategyRoundRobin,
       Endpoints = [''a'', ''b''], HashKey = [], rule_WorldID = 0\<rparr>"]) code_simp+

end
