(* ===== verification/Config.thy ===== *)
theory Config
  imports RateLimit
begin

text \<open>
  \<open>internal/config/config.go\<close> (the configuration, its defaults and its validation),
  \<open>internal/config/hotreload.go\<close> (the reload manager) and
  \<open>internal/gateway/config_reload.go\<close> (what a reload does to the limiters).  The YAML decoder
  and the file system are parameters.
\<close>

section \<open>The configuration\<close>

record ServerConfig =
  ListenAddr :: string
  HealthCheckPort :: int
  MetricsPort :: int
  GatewayName :: string
  UseGrpc :: bool

record RedisConfig =
  Addr :: string
  Password :: string
  DB :: int
  KeyPrefix :: string
  PoolSize :: int
  MinIdleConns :: int
  redis_DialTimeout :: duration
  redis_ReadTimeout :: duration
  redis_WriteTimeout :: duration

record ConsulConfig =
  consul_ServiceName :: string
  Namespace :: string
  consul_RefreshInterval :: duration
  Enabled :: bool

record BackendConfig =
  AccountService :: string
  VersionService :: string
  GameService :: string

record RoutingConfig =
  RefreshInterval :: duration
  RealmRefreshInterval :: duration

record GrpcConfig =
  HeartbeatInterval :: duration
  ConnectionTimeout :: duration
  ReconnectInterval :: duration
  MaxReconnectAttempts :: int

record ConnectionPoolConfig =
  cp_MaxConnections :: int
  cp_MaxConnectionsPerService :: int
  cp_IdleTimeout :: duration
  cp_DialTimeout :: duration
  cp_ReadTimeout :: duration
  cp_WriteTimeout :: duration
  cp_MaxRetries :: int
  cp_RetryDelay :: duration
  MaxGoroutines :: int
  GoroutineExpiry :: duration
  ConnectionQueueSize :: int

record SecurityConfig =
  MaxMessageSize :: int
  MaxConnectionsPerIP :: int
  ConnectionRateLimit :: int

record TracingConfig =
  EnableTracePropagation :: bool

record Config =
  Server :: ServerConfig
  Redis :: RedisConfig
  Consul :: ConsulConfig
  Backend :: BackendConfig
  Routing :: RoutingConfig
  ConnectionPool :: ConnectionPoolConfig
  Grpc :: GrpcConfig
  Security :: SecurityConfig
  Tracing :: TracingConfig
  GracefulShutdownTimeout :: duration

section \<open>Defaults\<close>

text \<open>\<open>if x == zero { x = d }\<close>\<close>

definition or_default :: "'a \<Rightarrow> 'a \<Rightarrow> 'a \<Rightarrow> 'a" where
  "or_default zero d x = (if x = zero then d else x)"

definition setDefaults_Server :: "ServerConfig \<Rightarrow> ServerConfig" where
  "setDefaults_Server c = c
     \<lparr>ListenAddr := or_default '''' '':8080'' (ListenAddr c),
      HealthCheckPort := or_default 0 9090 (HealthCheckPort c),
      MetricsPort := or_default 0 9091 (MetricsPort c)\<rparr>"

definition setDefaults_Redis :: "RedisConfig \<Rightarrow> RedisConfig" where
  "setDefaults_Redis c = c
     \<lparr>Addr := or_default '''' ''localhost:6379'' (Addr c),
      KeyPrefix := or_default '''' ''game-gateway:'' (KeyPrefix c),
      PoolSize := or_default 0 10 (PoolSize c),
      MinIdleConns := or_default 0 5 (MinIdleConns c),
      redis_DialTimeout := or_default 0 (5 * second) (redis_DialTimeout c),
      redis_ReadTimeout := or_default 0 (3 * second) (redis_ReadTimeout c),
      redis_WriteTimeout := or_default 0 (3 * second) (redis_WriteTimeout c)\<rparr>"

definition setDefaults_Routing :: "RoutingConfig \<Rightarrow> RoutingConfig" where
  "setDefaults_Routing c = c
     \<lparr>RefreshInterval := or_default 0 (10 * second) (RefreshInterval c),
      RealmRefreshInterval := or_default 0 (5 * second) (RealmRefreshInterval c)\<rparr>"

definition setDefaults_ConnectionPool :: "ConnectionPoolConfig \<Rightarrow> ConnectionPoolConfig" where
  "setDefaults_ConnectionPool c = c
     \<lparr>cp_MaxConnections := or_default 0 1000 (cp_MaxConnections c),
      cp_MaxConnectionsPerService := or_default 0 100 (cp_MaxConnectionsPerService c),
      cp_IdleTimeout := or_default 0 (5 * minute) (cp_IdleTimeout c),
      cp_DialTimeout := or_default 0 (5 * second) (cp_DialTimeout c),
      cp_ReadTimeout := or_default 0 (30 * second) (cp_ReadTimeout c),
      cp_WriteTimeout := or_default 0 (30 * second) (cp_WriteTimeout c),
      cp_MaxRetries := or_default 0 3 (cp_MaxRetries c),
      cp_RetryDelay := or_default 0 (100 * millisecond) (cp_RetryDelay c),
      MaxGoroutines := or_default 0 0 (MaxGoroutines c),
      GoroutineExpiry := or_default 0 (10 * second) (GoroutineExpiry c),
      ConnectionQueueSize := or_default 0 1000 (ConnectionQueueSize c)\<rparr>"

definition setDefaults_Grpc :: "GrpcConfig \<Rightarrow> GrpcConfig" where
  "setDefaults_Grpc c = c
     \<lparr>HeartbeatInterval := or_default 0 (30 * second) (HeartbeatInterval c),
      ConnectionTimeout := or_default 0 (10 * second) (ConnectionTimeout c),
      ReconnectInterval := or_default 0 (5 * second) (ReconnectInterval c)\<rparr>"

definition setDefaults_Security :: "SecurityConfig \<Rightarrow> SecurityConfig" where
  "setDefaults_Security c = c
     \<lparr>MaxMessageSize := or_default 0 (1024 * 1024) (MaxMessageSize c),
      MaxConnectionsPerIP := or_default 0 10 (MaxConnectionsPerIP c),
      ConnectionRateLimit := or_default 0 5 (ConnectionRateLimit c)\<rparr>"

definition setDefaults :: "Config \<Rightarrow> Config" where
  "setDefaults c = c
     \<lparr>Server := setDefaults_Server (Server c),
      Redis := setDefaults_Redis (Redis c),
      Routing := setDefaults_Routing (Routing c),
      ConnectionPool := setDefaults_ConnectionPool (ConnectionPool c),
      Grpc := setDefaults_Grpc (Grpc c),
      GracefulShutdownTimeout := or_default 0 (30 * second) (GracefulShutdownTimeout c),
      Security := setDefaults_Security (Security c)\<rparr>"

section \<open>Validation\<close>

definition validateConfig :: "Config \<Rightarrow> go_error option" where
  "validateConfig cfg =
     (if ListenAddr (Server cfg) = '''' then Some (Errorf ''server.listen_addr is required'' None)
      else if HealthCheckPort (Server cfg) \<le> 0 \<or> 65535 < HealthCheckPort (Server cfg) then
        Some (Errorf ''server.health_check_port must be between 1 and 65535'' None)
      else if Addr (Redis cfg) = '''' then Some (Errorf ''redis.addr is required'' None)
      else if PoolSize (Redis cfg) \<le> 0 then Some (Errorf ''redis.pool_size must be greater than 0'' None)
      else if cp_MaxConnections (ConnectionPool cfg) \<le> 0 then
        Some (Errorf ''connection_pool.max_connections must be greater than 0'' None)
      else if cp_MaxConnectionsPerService (ConnectionPool cfg) \<le> 0 then
        Some (Errorf ''connection_pool.max_connections_per_service must be greater than 0'' None)
      else if cp_DialTimeout (ConnectionPool cfg) \<le> 0 then
        Some (Errorf ''connection_pool.dial_timeout must be greater than 0'' None)
      else if RefreshInterval (Routing cfg) \<le> 0 then
        Some (Errorf ''routing.refresh_interval must be greater than 0'' None)
      else if GracefulShutdownTimeout cfg \<le> 0 then
        Some (Errorf ''graceful_shutdown_timeout must be greater than 0'' None)
      else None)"

definition ValidateConfig :: "Config \<Rightarrow> go_error option" where
  "ValidateConfig cfg = validateConfig cfg"

text \<open>
  \<open>Load\<close>.  \<open>ReadFile\<close> is the content of the file or an error; \<open>Unmarshal\<close> is the YAML
  decoder.
\<close>

definition Load :: "(string \<Rightarrow> string res) \<Rightarrow> (string \<Rightarrow> Config res) \<Rightarrow> string \<Rightarrow> Config res" where
  "Load ReadFile Unmarshal path =
     (case ReadFile path of
        Err e \<Rightarrow> Err (Errorf ''failed to read config file: '' (Some e))
      | Panic m \<Rightarrow> Panic m
      | Ok data \<Rightarrow>
          (case Unmarshal data of
             Err e \<Rightarrow> Err (Errorf ''failed to parse config file: '' (Some e))
           | Panic m \<Rightarrow> Panic m
           | Ok raw \<Rightarrow>
               let cfg = setDefaults raw
               in case validateConfig cfg of
                    Some e \<Rightarrow> Err (Errorf ''invalid configuration: '' (Some e))
                  | None \<Rightarrow> Ok cfg))"

section \<open>The reload manager\<close>

text \<open>The reload function acts on a state of its client; \<open>None\<close> is a nil function.\<close>

record 's HotReloadManager =
  hr_config :: Config
  reloadFunc :: "(Config \<Rightarrow> 's \<Rightarrow> go_error option \<times> 's) option"

definition NewHotReloadManager :: "Config \<Rightarrow> (Config \<Rightarrow> 's \<Rightarrow> go_error option \<times> 's) option \<Rightarrow> 's HotReloadManager" where
  "NewHotReloadManager cfg f = \<lparr>hr_config = cfg, reloadFunc = f\<rparr>"

definition HotReload_GetConfig :: "'s HotReloadManager \<Rightarrow> Config" where
  "HotReload_GetConfig h = hr_config h"

definition HotReload_UpdateConfig :: "Config \<Rightarrow> 's HotReloadManager \<Rightarrow> 's \<Rightarrow> go_error option \<times> 's HotReloadManager \<times> 's" where
  "HotReload_UpdateConfig newConfig h s =
     (case validateConfig newConfig of
        Some e \<Rightarrow> (Some e, h, s)
      | None \<Rightarrow>
          (case reloadFunc h of
             None \<Rightarrow> (None, h\<lparr>hr_config := newConfig\<rparr>, s)
           | Some f \<Rightarrow>
               (case f newConfig s of
                  (Some e, s') \<Rightarrow> (Some e, h, s')
                | (None, s') \<Rightarrow> (None, h\<lparr>hr_config := newConfig\<rparr>, s'))))"

text \<open>
  \<open>WatchConfigFile\<close>: one entry of the list is what \<open>Load\<close> returns at one tick; the list
  ends when the context is done.
\<close>

fun WatchConfigFile :: "Config res list \<Rightarrow> 's HotReloadManager \<Rightarrow> 's \<Rightarrow> 's HotReloadManager \<times> 's" where
  "WatchConfigFile [] h s = (h, s)"
| "WatchConfigFile (Ok cfg # loads) h s =
     (case HotReload_UpdateConfig cfg h s of (_, h', s') \<Rightarrow> WatchConfigFile loads h' s')"
| "WatchConfigFile (_ # loads) h s = WatchConfigFile loads h s"

section \<open>Reload of the gateway\<close>

text \<open>The part of the gateway a reload touches.\<close>

record gateway_conf =
  gw_config :: Config
  gw_rateLimiter :: Limiter
  gw_ipLimiter :: IPLimiter

definition Gateway_UpdateConfig :: "time \<Rightarrow> Config \<Rightarrow> gateway_conf \<Rightarrow> go_error option \<times> gateway_conf" where
  "Gateway_UpdateConfig now newConfig g =
     (case ValidateConfig newConfig of
        Some e \<Rightarrow> (Some (Errorf ''invalid configuration: '' (Some e)), g)
      | None \<Rightarrow>
          let old = gw_config g;
              g1 = (if cp_MaxConnections (ConnectionPool newConfig) \<noteq> cp_MaxConnections (ConnectionPool old)
                    then g\<lparr>gw_rateLimiter := NewLimiter (cp_MaxConnections (ConnectionPool newConfig))\<rparr> else g);
              g2 = (if MaxConnectionsPerIP (Security newConfig) \<noteq> MaxConnectionsPerIP (Security old) \<or>
                       ConnectionRateLimit (Security newConfig) \<noteq> ConnectionRateLimit (Security old)
                    then g1\<lparr>gw_ipLimiter := NewIPLimiter (MaxConnectionsPerIP (Security newConfig))
                              (ConnectionRateLimit (Security newConfig)) now\<rparr> else g1)
          in (None, g2\<lparr>gw_config := newConfig\<rparr>))"

definition Gateway_GetConfig :: "gateway_conf \<Rightarrow> Config" where
  "Gateway_GetConfig g = gw_config g"

section \<open>Loading\<close>

lemmas setDefaults_parts = setDefaults_Server_def setDefaults_Redis_def setDefaults_Routing_def
  setDefaults_ConnectionPool_def setDefaults_Grpc_def setDefaults_Security_def

lemma or_default_idem [simp]: "d \<noteq> zero \<Longrightarrow> or_default zero d (or_default zero d x) = or_default zero d x"
  by (simp add: or_default_def)

lemma or_default_same [simp]: "or_default zero zero x = x"
  by (simp add: or_default_def)

lemma setDefaults_idem: "setDefaults (setDefaults c) = setDefaults c"
  by (simp add: setDefaults_def setDefaults_parts)

definition zero_config :: Config where
  "zero_config =
     \<lparr>Server = \<lparr>ListenAddr = [], HealthCheckPort = 0, MetricsPort = 0, GatewayName = [], UseGrpc = False\<rparr>,
      Redis = \<lparr>Addr = [], Password = [], DB = 0, KeyPrefix = [], PoolSize = 0, MinIdleConns = 0,
        redis_DialTimeout = 0, redis_ReadTimeout = 0, redis_WriteTimeout = 0\<rparr>,
      Consul = \<lparr>consul_ServiceName = [], Namespace = [], consul_RefreshInterval = 0, Enabled = False\<rparr>,
      Backend = \<lparr>AccountService = [], VersionService = [], GameService = []\<rparr>,
      Routing = \<lparr>RefreshInterval = 0, RealmRefreshInterval = 0\<rparr>,
      ConnectionPool = \<lparr>cp_MaxConnections = 0, cp_MaxConnectionsPerService = 0, cp_IdleTimeout = 0, cp_DialTimeout = 0,
        cp_ReadTimeout = 0, cp_WriteTimeout = 0, cp_MaxRetries = 0, cp_RetryDelay = 0, MaxGoroutines = 0,
        GoroutineExpiry = 0, ConnectionQueueSize = 0\<rparr>,
      Grpc = \<lparr>HeartbeatInterval = 0, ConnectionTimeout = 0, ReconnectInterval = 0, MaxReconnectAttempts = 0\<rparr>,
      Security = \<lparr>MaxMessageSize = 0, MaxConnectionsPerIP = 0, ConnectionRateLimit = 0\<rparr>,
      Tracing = \<lparr>EnableTracePropagation = False\<rparr>, GracefulShutdownTimeout = 0\<rparr>"

lemma zero_config_valid: "validateConfig (setDefaults zero_config) = None"
  by code_simp

lemma validateConfig_None:
  "validateConfig c = None \<longleftrightarrow> ListenAddr (Server c) \<noteq> [] \<and> 0 < HealthCheckPort (Server c) \<and> HealthCheckPort (Server c) \<le> 65535 \<and>
     Addr (Redis c) \<noteq> [] \<and> 0 < PoolSize (Redis c) \<and> 0 < cp_MaxConnections (ConnectionPool c) \<and>
     0 < cp_MaxConnectionsPerService (ConnectionPool c) \<and> 0 < cp_DialTimeout (ConnectionPool c) \<and>
     0 < RefreshInterval (Routing c) \<and> 0 < GracefulShutdownTimeout c"
  by (auto simp: validateConfig_def)

text \<open>
  A configuration that loads is complete and usable: filling in defaults again changes
  nothing, no field with a default is zero, every validated bound holds, and loading an
  empty document succeeds.
\<close>

theorem Load_sound:
  assumes "Load ReadFile Unmarshal path = Ok cfg"
  shows "setDefaults cfg = cfg \<and> validateConfig cfg = None \<and>
    0 < cp_MaxConnections (ConnectionPool cfg) \<and> 0 < cp_MaxConnectionsPerService (ConnectionPool cfg) \<and>
    cp_MaxRetries (ConnectionPool cfg) \<noteq> 0 \<and> MaxMessageSize (Security cfg) \<noteq> 0 \<and>
    MaxConnectionsPerIP (Security cfg) \<noteq> 0 \<and> ConnectionRateLimit (Security cfg) \<noteq> 0 \<and>
    is_ok (Load ReadFile (\<lambda>_. Ok zero_config) path)"
proof -
  obtain data raw where l: "ReadFile path = Ok data" "Unmarshal data = Ok raw" "cfg = setDefaults raw" "validateConfig cfg = None"
    using assms by (auto simp: Load_def Let_def split: res.splits option.splits)
  have "is_ok (Load ReadFile (\<lambda>_. Ok zero_config) path)" by (simp add: Load_def l(1) zero_config_valid)
  moreover have "cp_MaxRetries (ConnectionPool cfg) \<noteq> 0 \<and> MaxMessageSize (Security cfg) \<noteq> 0 \<and>
    MaxConnectionsPerIP (Security cfg) \<noteq> 0 \<and> ConnectionRateLimit (Security cfg) \<noteq> 0"
    by (simp add: l(3) setDefaults_def setDefaults_parts or_default_def)
  ultimately show ?thesis using l(3,4) validateConfig_None [of cfg] by (simp add: setDefaults_idem)
qed

theorem Load_sound_witness:
  "\<exists>cfg. Load (\<lambda>_. Ok []) (\<lambda>_. Ok zero_config) ''gateway.yaml'' = Ok cfg \<and> ConnectionRateLimit (Security cfg) \<noteq> 0"
proof -
  have "Load (\<lambda>_. Ok []) (\<lambda>_. Ok zero_config) ''gateway.yaml'' = Ok (setDefaults zero_config)"
    by (simp add: Load_def zero_config_valid)
  with Load_sound [OF this] show ?thesis by blast
qed

text \<open>
  A negative connection rate limit is accepted by the validation, and the first
  connection of any address then panics in the limiter.
\<close>

theorem negative_rate_limit_accepted:
  assumes "ReadFile path = Ok data" and "Unmarshal data = Ok raw"
    and "validateConfig (setDefaults raw) = None"
    and "ConnectionRateLimit (Security raw) < 0" and "0 < MaxConnectionsPerIP (Security raw)"
  shows "\<exists>cfg m. Load ReadFile Unmarshal path = Ok cfg \<and>
    fst (IPLimiter_Allow clk ip (NewIPLimiter (MaxConnectionsPerIP (Security cfg)) (ConnectionRateLimit (Security cfg)) t)) = Panic m"
proof (intro exI conjI)
  show "Load ReadFile Unmarshal path = Ok (setDefaults raw)"
    using assms(1-3) by (simp add: Load_def)
  have "ConnectionRateLimit (Security (setDefaults raw)) < 0" "0 < MaxConnectionsPerIP (Security (setDefaults raw))"
    using assms(4,5) by (simp_all add: setDefaults_def setDefaults_parts or_default_def)
  then show "fst (IPLimiter_Allow clk ip (NewIPLimiter (MaxConnectionsPerIP (Security (setDefaults raw)))
      (ConnectionRateLimit (Security (setDefaults raw))) t)) = Panic ''makeslice: cap out of range''"
    by (simp add: IPLimiter_Allow_def NewIPLimiter_def ip_cleanup_def conn_count_def getOrCreateRateTracker_def Let_def)
qed

theorem negative_rate_limit_accepted_witness:
  "\<exists>cfg m. Load (\<lambda>_. Ok []) (\<lambda>_. Ok (zero_config\<lparr>Security := \<lparr>MaxMessageSize = 0, MaxConnectionsPerIP = 3, ConnectionRateLimit = - 1\<rparr>\<rparr>)) [] = Ok cfg \<and>
    fst (IPLimiter_Allow \<lparr>ck_t0 = 0, ck_t1 = 0, ck_now = 0\<rparr> ''1.2.3.4''
      (NewIPLimiter (MaxConnectionsPerIP (Security cfg)) (ConnectionRateLimit (Security cfg)) 0)) = Panic m"
proof (rule negative_rate_limit_accepted)
  show "validateConfig (setDefaults (zero_config\<lparr>Security := \<lparr>MaxMessageSize = 0, MaxConnectionsPerIP = 3, ConnectionRateLimit = - 1\<rparr>\<rparr>)) = None"
    by code_simp
qed simp_all

section \<open>Reloading\<close>

text \<open>The configurations a watcher may end with: the last one that was valid and accepted.\<close>

lemma UpdateConfig_cases:
  "HotReload_UpdateConfig cfg h s = (r, h', s') \<Longrightarrow>
     reloadFunc h' = reloadFunc h \<and> (if r = None then hr_config h' = cfg \<and> validateConfig cfg = None else h' = h)"
  by (auto simp: HotReload_UpdateConfig_def split: option.splits prod.splits)

lemma Watch_inv:
  assumes "WatchConfigFile loads h s = (h', s')"
  shows "hr_config h' = hr_config h \<or> (Ok (hr_config h') \<in> set loads \<and> validateConfig (hr_config h') = None)"
  using assms
proof (induction loads h s rule: WatchConfigFile.induct)
  case (2 cfg loads h s)
  obtain r h1 s1 where u: "HotReload_UpdateConfig cfg h s = (r, h1, s1)" by (cases "HotReload_UpdateConfig cfg h s") auto
  have "hr_config h1 = hr_config h \<or> hr_config h1 = cfg \<and> validateConfig cfg = None"
    using UpdateConfig_cases [OF u] by (auto split: if_splits)
  moreover have "hr_config h' = hr_config h1 \<or> (Ok (hr_config h') \<in> set loads \<and> validateConfig (hr_config h') = None)"
    using "2.IH" [OF u [symmetric] refl] "2.prems" u by simp
  ultimately show ?case by auto
qed auto

lemma Watch_last_valid:
  assumes "reloadFunc h = None"
  shows "hr_config (fst (WatchConfigFile loads h s)) =
    foldl (\<lambda>cur l. case l of Ok cfg \<Rightarrow> if validateConfig cfg = None then cfg else cur | _ \<Rightarrow> cur) (hr_config h) loads"
  using assms
proof (induction loads h s rule: WatchConfigFile.induct)
  case (2 cfg loads h s)
  then show ?case
    by (cases "validateConfig cfg") (simp_all add: HotReload_UpdateConfig_def)
qed auto

text \<open>
  Whatever is loaded at the ticks of the file watcher, malformed, invalid or refused by
  the reload function, the configuration in force stays valid: it is the initial one or a
  valid one that was loaded; without a reload function it is the last valid one loaded.
\<close>

theorem WatchConfigFile_keeps_valid:
  fixes f :: "(Config \<Rightarrow> 's \<Rightarrow> go_error option \<times> 's) option"
  assumes "validateConfig cfg0 = None"
  shows "validateConfig (hr_config (fst (WatchConfigFile loads (NewHotReloadManager cfg0 f) s))) = None \<and>
    (f = None \<longrightarrow> hr_config (fst (WatchConfigFile loads (NewHotReloadManager cfg0 f) s)) =
       foldl (\<lambda>cur l. case l of Ok cfg \<Rightarrow> if validateConfig cfg = None then cfg else cur | _ \<Rightarrow> cur) cfg0 loads)"
proof -
  obtain h' s' where w: "WatchConfigFile loads (NewHotReloadManager cfg0 f) s = (h', s')"
    by (cases "WatchConfigFile loads (NewHotReloadManager cfg0 f) s")
  then show ?thesis using Watch_inv [OF w] assms Watch_last_valid [of "NewHotReloadManager cfg0 f" loads s]
    by (auto simp: NewHotReloadManager_def)
qed

theorem WatchConfigFile_keeps_valid_witness:
  "validateConfig (hr_config (fst (WatchConfigFile [Err EOF, Ok zero_config]
     (NewHotReloadManager (setDefaults zero_config) (None :: (Config \<Rightarrow> unit \<Rightarrow> go_error option \<times> unit) option)) ()))) = None"
  by (rule WatchConfigFile_keeps_valid [OF zero_config_valid, THEN conjunct1])

text \<open>The limiters carry the limits of the configuration in force.\<close>

definition limits_match :: "gateway_conf \<Rightarrow> bool" where
  "limits_match g \<longleftrightarrow>
     maxConns (gw_rateLimiter g) = cp_MaxConnections (ConnectionPool (gw_config g)) \<and>
     maxConnsPerIP (gw_ipLimiter g) = MaxConnectionsPerIP (Security (gw_config g)) \<and>
     rateLimit (gw_ipLimiter g) = ConnectionRateLimit (Security (gw_config g))"

text \<open>
  A reload is all or nothing: an invalid configuration changes nothing and returns an
  error; a valid one is put in force, and the limiters enforce its limits afterwards if they
  enforced the old ones before.  A limiter whose limits did not change is kept with its
  counts, but a changed global limit starts counting at zero, whatever the number of open
  connections.
\<close>

theorem Gateway_UpdateConfig_correct:
  assumes "limits_match g" and "Gateway_UpdateConfig t cfg g = (r, g')"
  shows "limits_match g' \<and>
    (r = None \<longleftrightarrow> validateConfig cfg = None) \<and>
    (if r = None then gw_config g' = cfg else g' = g) \<and>
    (r = None \<and> cp_MaxConnections (ConnectionPool cfg) = cp_MaxConnections (ConnectionPool (gw_config g)) \<longrightarrow>
       gw_rateLimiter g' = gw_rateLimiter g) \<and>
    (r = None \<and> cp_MaxConnections (ConnectionPool cfg) \<noteq> cp_MaxConnections (ConnectionPool (gw_config g)) \<longrightarrow>
       Limiter_Current (gw_rateLimiter g') = 0)"
  using assms
  by (cases "validateConfig cfg")
    (auto simp: Gateway_UpdateConfig_def ValidateConfig_def limits_match_def Let_def NewLimiter_def
      NewIPLimiter_def Limiter_Current_def)

theorem Gateway_UpdateConfig_correct_witness:
  "let g = \<lparr>gw_config = setDefaults zero_config, gw_rateLimiter = \<lparr>maxConns = 1000, current = 900\<rparr>,
           gw_ipLimiter = NewIPLimiter 10 5 0\<rparr>;
       cfg = (setDefaults zero_config)\<lparr>ConnectionPool := (ConnectionPool (setDefaults zero_config))\<lparr>cp_MaxConnections := 2000\<rparr>\<rparr>
   in limits_match (snd (Gateway_UpdateConfig 0 cfg g)) \<and>
      Limiter_Current (gw_rateLimiter (snd (Gateway_UpdateConfig 0 cfg g))) = 0"
proof -
  define g where "g = \<lparr>gw_config = setDefaults zero_config, gw_rateLimiter = \<lparr>maxConns = 1000, current = 900\<rparr>,
           gw_ipLimiter = NewIPLimiter 10 5 0\<rparr>"
  define cfg where "cfg = (setDefaults zero_config)\<lparr>ConnectionPool := (ConnectionPool (setDefaults zero_config))\<lparr>cp_MaxConnections := 2000\<rparr>\<rparr>"
  have m: "limits_match g" unfolding g_def by code_simp
  have v: "validateConfig cfg = None" unfolding cfg_def by code_simp
  have d: "cp_MaxConnections (ConnectionPool cfg) \<noteq> cp_MaxConnections (ConnectionPool (gw_config g))"
    unfolding cfg_def g_def by code_simp
  obtain r g' where u: "Gateway_UpdateConfig 0 cfg g = (r, g')" by (cases "Gateway_UpdateConfig 0 cfg g")
  from Gateway_UpdateConfig_correct [OF m u] v d u show ?thesis
    unfolding Let_def g_def [symmetric] cfg_def [symmetric] by simp
qed

end
