(* ===== verification/ConnPool.thy ===== *)
theory ConnPool
  imports Config
begin

text \<open>
  \<open>internal/pool/pool.go\<close> and \<open>internal/pool/manager.go\<close>: the pool of backend connections.
  \<open>Connection\<close> objects are shared by reference between the pool and the handlers, so they
  live in a heap; the idle channel is a queue of references with a capacity.  \<open>Get\<close> is
  composed of its two atomic parts, the receive from the channel and the section under the
  mutex, so that interleavings of several goroutines can be stated.
\<close>

section \<open>Connections\<close>

type_synonym ref = nat
type_synonym net_conn = nat

record Connection =
  conn :: net_conn
  createdAt :: time
  lastUsedAt :: time
  inUse :: bool

text \<open>The heap of connection objects, the next free reference, and the sockets closed so far.\<close>

record pool_world =
  obj :: "ref \<Rightarrow> Connection"
  next_ref :: ref
  net_closed :: "net_conn list"

definition MarkInUse :: "time \<Rightarrow> ref \<Rightarrow> pool_world \<Rightarrow> pool_world" where
  "MarkInUse now c w = w\<lparr>obj := (obj w)(c := (obj w c)\<lparr>inUse := True, lastUsedAt := now\<rparr>)\<rparr>"

definition MarkIdle :: "time \<Rightarrow> ref \<Rightarrow> pool_world \<Rightarrow> pool_world" where
  "MarkIdle now c w = w\<lparr>obj := (obj w)(c := (obj w c)\<lparr>inUse := False, lastUsedAt := now\<rparr>)\<rparr>"

definition IsIdle :: "ref \<Rightarrow> pool_world \<Rightarrow> bool" where
  "IsIdle c w \<longleftrightarrow> \<not> inUse (obj w c)"

definition IsExpired :: "time \<Rightarrow> duration \<Rightarrow> ref \<Rightarrow> pool_world \<Rightarrow> bool" where
  "IsExpired now idle_timeout c w \<longleftrightarrow> \<not> inUse (obj w c) \<and> idle_timeout < now - lastUsedAt (obj w c)"

definition Conn_Close :: "ref \<Rightarrow> pool_world \<Rightarrow> pool_world" where
  "Conn_Close c w = w\<lparr>net_closed := net_closed w @ [conn (obj w c)]\<rparr>"

section \<open>The pool\<close>

record Pool =
  address :: string
  dialTimeout :: duration
  idleTimeout :: duration
  maxConnections :: int
  maxPerService :: int
  idleConns :: "ref list"
  activeConns :: "(ref, bool) gomap"
  activeCount :: int

text \<open>\<open>make(chan *Connection, maxPerService)\<close> panics for a negative size.\<close>

definition NewPool :: "string \<Rightarrow> duration \<Rightarrow> duration \<Rightarrow> int \<Rightarrow> int \<Rightarrow> Pool res" where
  "NewPool addr dial idle maxc maxp =
     (if maxp < 0 then Panic ''makechan: size out of range''
      else Ok \<lparr>address = addr, dialTimeout = dial, idleTimeout = idle, maxConnections = maxc,
               maxPerService = maxp, idleConns = [], activeConns = [], activeCount = 0\<rparr>)"

text \<open>A send that does not block: \<open>None\<close> is the default branch, the channel being full.\<close>

definition try_send :: "ref \<Rightarrow> Pool \<Rightarrow> Pool option" where
  "try_send c p = (if int (length (idleConns p)) < maxPerService p
     then Some (p\<lparr>idleConns := idleConns p @ [c]\<rparr>) else None)"

text \<open>The first part of \<open>Get\<close>: receive, and drop the connection received if it has expired.\<close>

definition get_receive :: "time \<Rightarrow> Pool \<Rightarrow> pool_world \<Rightarrow> ref option \<times> Pool \<times> pool_world" where
  "get_receive now p w =
     (case idleConns p of
        [] \<Rightarrow> (None, p, w)
      | c # rest \<Rightarrow>
          let p' = p\<lparr>idleConns := rest\<rparr>
          in if \<not> IsExpired now (idleTimeout p) c w then (Some c, p', w)
             else (None, p'\<lparr>activeConns := gomap_del c (activeConns p)\<rparr>, Conn_Close c w))"

text \<open>The section under the mutex for a connection that was received.\<close>

definition get_take :: "time \<Rightarrow> ref \<Rightarrow> Pool \<Rightarrow> pool_world \<Rightarrow> Pool \<times> pool_world" where
  "get_take now c p w =
     (p\<lparr>activeConns := gomap_put c True (activeConns p), activeCount := activeCount p + 1\<rparr>, MarkInUse now c w)"

text \<open>
  The section under the mutex that dials.  The outcome of \<open>DialContext\<close> is an input: a
  socket or an error.
\<close>

definition get_dial :: "time \<Rightarrow> time \<Rightarrow> net_conn res \<Rightarrow> Pool \<Rightarrow> pool_world \<Rightarrow> ref res \<times> Pool \<times> pool_world" where
  "get_dial t_created t_used dialled p w =
     (if maxPerService p \<le> activeCount p
      then (Err (Errorf (''connection pool is full, max connections: '' @ dec_int (maxPerService p)) None), p, w)
      else case dialled of
        Err e \<Rightarrow> (Err (Errorf ''failed to establish connection: '' (Some e)), p, w)
      | Panic m \<Rightarrow> (Panic m, p, w)
      | Ok sock \<Rightarrow>
          let c = next_ref w;
              w' = w\<lparr>obj := (obj w)(c := \<lparr>conn = sock, createdAt = t_created, lastUsedAt = t_used, inUse = True\<rparr>),
                     next_ref := c + 1\<rparr>
          in (Ok c, p\<lparr>activeConns := gomap_put c True (activeConns p), activeCount := activeCount p + 1\<rparr>, w'))"

text \<open>
  \<open>Get\<close> with nothing in between.  It reads the clock in \<open>IsExpired\<close>, then in \<open>MarkInUse\<close>
  or for \<open>createdAt\<close>, then for \<open>lastUsedAt\<close>.
\<close>

definition Pool_Get :: "time \<Rightarrow> time \<Rightarrow> time \<Rightarrow> net_conn res \<Rightarrow> Pool \<Rightarrow> pool_world \<Rightarrow> ref res \<times> Pool \<times> pool_world" where
  "Pool_Get t1 t2 t3 dialled p w =
     (case get_receive t1 p w of
        (Some c, p', w') \<Rightarrow> (case get_take t2 c p' w' of (p'', w'') \<Rightarrow> (Ok c, p'', w''))
      | (None, p', w') \<Rightarrow> get_dial t2 t3 dialled p' w')"

definition Pool_Put :: "time \<Rightarrow> ref \<Rightarrow> Pool \<Rightarrow> pool_world \<Rightarrow> Pool \<times> pool_world" where
  "Pool_Put now c p w =
     (let p' = p\<lparr>activeConns := gomap_del c (activeConns p),
                 activeCount := (if 0 < activeCount p then activeCount p - 1 else activeCount p)\<rparr>
      in ((case try_send c p' of Some p'' \<Rightarrow> p'' | None \<Rightarrow> p'), MarkIdle now c w))"

definition Pool_Remove :: "ref \<Rightarrow> Pool \<Rightarrow> pool_world \<Rightarrow> Pool \<times> pool_world" where
  "Pool_Remove c p w =
     (p\<lparr>activeConns := gomap_del c (activeConns p),
        activeCount := (if 0 < activeCount p then activeCount p - 1 else activeCount p)\<rparr>, Conn_Close c w)"

text \<open>
  \<open>Cleanup\<close>.  Each round receives a connection and reads the clock in \<open>IsExpired\<close>; the list
  holds the readings, and \<open>None\<close> means that the loop has not ended when they are used up.
\<close>

fun cleanup_loop :: "time list \<Rightarrow> int \<Rightarrow> Pool \<Rightarrow> pool_world \<Rightarrow> (int \<times> Pool \<times> pool_world) option" where
  "cleanup_loop ts count p w =
     (case idleConns p of
        [] \<Rightarrow> Some (count, p, w)
      | c # rest \<Rightarrow>
          (case ts of
             [] \<Rightarrow> None
           | now # ts' \<Rightarrow>
               let p' = p\<lparr>idleConns := rest\<rparr>;
                   drop_conn = p'\<lparr>activeConns := gomap_del c (activeConns p)\<rparr>
               in if IsExpired now (idleTimeout p) c w then cleanup_loop ts' (count + 1) drop_conn (Conn_Close c w)
                  else case try_send c p' of
                    Some p'' \<Rightarrow> cleanup_loop ts' count p'' w
                  | None \<Rightarrow> cleanup_loop ts' (count + 1) drop_conn (Conn_Close c w)))"

declare cleanup_loop.simps [simp del]

definition Pool_Cleanup :: "time list \<Rightarrow> Pool \<Rightarrow> pool_world \<Rightarrow> (int \<times> Pool \<times> pool_world) option" where
  "Pool_Cleanup ts p w = cleanup_loop ts 0 p w"

definition Pool_Stats :: "Pool \<Rightarrow> int \<times> int \<times> int" where
  "Pool_Stats p =
     (let active = activeCount p; idle = int (length (idleConns p)) in (active + idle, active, idle))"

definition Pool_Close :: "Pool \<Rightarrow> pool_world \<Rightarrow> Pool \<times> pool_world" where
  "Pool_Close p w =
     (let w1 = fold Conn_Close (gomap_keys (activeConns p)) w;
          w2 = fold Conn_Close (idleConns p) w1
      in (p\<lparr>activeConns := [], idleConns := [], activeCount := 0\<rparr>, w2))"

section \<open>The manager\<close>

record PoolManager =
  pm_config :: ConnectionPoolConfig
  pools :: "(string, Pool) gomap"

definition NewPoolManager :: "ConnectionPoolConfig \<Rightarrow> PoolManager" where
  "NewPoolManager cfg = \<lparr>pm_config = cfg, pools = []\<rparr>"

text \<open>A pool is referenced from its map entry only, so working on it updates the entry.\<close>

definition GetPool :: "string \<Rightarrow> PoolManager \<Rightarrow> Pool res \<times> PoolManager" where
  "GetPool addr m =
     (case gomap_get (pools m) addr of
        Some p \<Rightarrow> (Ok p, m)
      | None \<Rightarrow>
          (case NewPool addr (cp_DialTimeout (pm_config m)) (cp_IdleTimeout (pm_config m))
                  (cp_MaxConnections (pm_config m)) (cp_MaxConnectionsPerService (pm_config m)) of
             Ok p \<Rightarrow> (Ok p, m\<lparr>pools := gomap_put addr p (pools m)\<rparr>)
           | Err e \<Rightarrow> (Err e, m)
           | Panic s \<Rightarrow> (Panic s, m)))"

definition GetConnection :: "time \<Rightarrow> time \<Rightarrow> time \<Rightarrow> net_conn res \<Rightarrow> string \<Rightarrow> PoolManager \<Rightarrow> pool_world \<Rightarrow> ref res \<times> PoolManager \<times> pool_world" where
  "GetConnection t1 t2 t3 dialled addr m w =
     (case GetPool addr m of
        (Ok p, m') \<Rightarrow>
          (case Pool_Get t1 t2 t3 dialled p w of
             (r, p', w') \<Rightarrow> (r, m'\<lparr>pools := gomap_put addr p' (pools m')\<rparr>, w'))
      | (Err e, m') \<Rightarrow> (Err e, m', w)
      | (Panic s, m') \<Rightarrow> (Panic s, m', w))"

definition PutConnection :: "time \<Rightarrow> string \<Rightarrow> ref \<Rightarrow> PoolManager \<Rightarrow> pool_world \<Rightarrow> (PoolManager \<times> pool_world) res" where
  "PutConnection now addr c m w =
     (case GetPool addr m of
        (Ok p, m') \<Rightarrow>
          (case Pool_Put now c p w of (p', w') \<Rightarrow> Ok (m'\<lparr>pools := gomap_put addr p' (pools m')\<rparr>, w'))
      | (Err e, m') \<Rightarrow> Err e
      | (Panic s, m') \<Rightarrow> Panic s)"

definition RemoveConnection :: "string \<Rightarrow> ref \<Rightarrow> PoolManager \<Rightarrow> pool_world \<Rightarrow> (PoolManager \<times> pool_world) res" where
  "RemoveConnection addr c m w =
     (case GetPool addr m of
        (Ok p, m') \<Rightarrow>
          (case Pool_Remove c p w of (p', w') \<Rightarrow> Ok (m'\<lparr>pools := gomap_put addr p' (pools m')\<rparr>, w'))
      | (Err e, m') \<Rightarrow> Err e
      | (Panic s, m') \<Rightarrow> Panic s)"

text \<open>\<open>Cleanup\<close> of every pool in turn, with the clock readings of each.\<close>

fun cleanup_pools :: "time list list \<Rightarrow> int \<Rightarrow> (string, Pool) gomap \<Rightarrow> pool_world \<Rightarrow> (int \<times> (string, Pool) gomap \<times> pool_world) option" where
  "cleanup_pools tss total_count [] w = Some (total_count, [], w)"
| "cleanup_pools tss total_count ((addr, p) # ps) w =
     (case Pool_Cleanup (case tss of [] \<Rightarrow> [] | ts # _ \<Rightarrow> ts) p w of
        None \<Rightarrow> None
      | Some (n, p', w') \<Rightarrow>
          (case cleanup_pools (tl tss) (total_count + n) ps w' of
             None \<Rightarrow> None
           | Some (k, ps', w'') \<Rightarrow> Some (k, (addr, p') # ps', w'')))"

definition PoolManager_Cleanup :: "time list list \<Rightarrow> PoolManager \<Rightarrow> pool_world \<Rightarrow> (int \<times> PoolManager \<times> pool_world) option" where
  "PoolManager_Cleanup tss m w =
     (case cleanup_pools tss 0 (pools m) w of
        None \<Rightarrow> None
      | Some (n, ps, w') \<Rightarrow> Some (n, m\<lparr>pools := ps\<rparr>, w'))"

text \<open>\<open>StartCleanup\<close>: one cleanup per tick until the context is done; \<open>None\<close> while one has not returned.\<close>

fun StartCleanup :: "time list list list \<Rightarrow> PoolManager \<Rightarrow> pool_world \<Rightarrow> (PoolManager \<times> pool_world) option" where
  "StartCleanup [] m w = Some (m, w)"
| "StartCleanup (tss # ticks) m w =
     (case PoolManager_Cleanup tss m w of
        None \<Rightarrow> None
      | Some (cleaned, m', w') \<Rightarrow> StartCleanup ticks m' w')"

fun close_pools :: "(string, Pool) gomap \<Rightarrow> pool_world \<Rightarrow> pool_world" where
  "close_pools [] w = w"
| "close_pools ((addr, p) # ps) w = close_pools ps (snd (Pool_Close p w))"

definition PoolManager_Close :: "PoolManager \<Rightarrow> pool_world \<Rightarrow> PoolManager \<times> pool_world" where
  "PoolManager_Close m w = (m\<lparr>pools := []\<rparr>, close_pools (pools m) w)"

section \<open>The pool used by one goroutine at a time\<close>

definition active_set :: "Pool \<Rightarrow> ref set" where
  "active_set p = set (gomap_keys (activeConns p))"

text \<open>
  A client takes connections with \<open>Get\<close>, gives back with \<open>Put\<close> or \<open>Remove\<close> only what it
  was given, and the cleanup runs now and then.
\<close>

inductive pool_step :: "Pool \<times> pool_world \<Rightarrow> Pool \<times> pool_world \<Rightarrow> bool" where
  get: "Pool_Get t1 t2 t3 dialled p w = (r, p', w') \<Longrightarrow> pool_step (p, w) (p', w')"
| put: "c \<in> active_set p \<Longrightarrow> pool_step (p, w) (Pool_Put t c p w)"
| remove: "c \<in> active_set p \<Longrightarrow> pool_step (p, w) (Pool_Remove c p w)"
| cleanup: "Pool_Cleanup ts p w = Some (n, p', w') \<Longrightarrow> pool_step (p, w) (p', w')"

inductive pool_reachable :: "Pool \<Rightarrow> Pool \<times> pool_world \<Rightarrow> bool" for p0 where
  pool_start: "next_ref w = 0 \<Longrightarrow> pool_reachable p0 (p0, w)"
| pool_more: "pool_reachable p0 s \<Longrightarrow> pool_step s s' \<Longrightarrow> pool_reachable p0 s'"

definition pool_inv :: "int \<Rightarrow> Pool \<times> pool_world \<Rightarrow> bool" where
  "pool_inv n s \<longleftrightarrow> (case s of (p, w) \<Rightarrow>
     maxPerService p = n \<and> gomap_ok (activeConns p) \<and> distinct (idleConns p) \<and>
     set (idleConns p) \<inter> active_set p = {} \<and>
     activeCount p = int (card (active_set p)) \<and>
     activeCount p + int (length (idleConns p)) \<le> n \<and>
     (\<forall>c \<in> set (idleConns p). c < next_ref w \<and> \<not> inUse (obj w c)) \<and>
     (\<forall>c \<in> active_set p. c < next_ref w \<and> inUse (obj w c)) \<and>
     (\<forall>c < next_ref w. c \<in> set (idleConns p) \<or> c \<in> active_set p \<or> conn (obj w c) \<in> set (net_closed w)))"

lemma active_put [simp]: "active_set (p\<lparr>activeConns := gomap_put c b m, activeCount := k\<rparr>) = insert c (fst ` set m)"
  by (simp add: active_set_def gomap_keys_def gomap_put_def dom_update)

lemma active_del: "set (gomap_keys (gomap_del c m)) = set (gomap_keys m) - {c}"
  by (auto simp: gomap_keys_def gomap_del_def delete_keys simp del: set_map)

lemma active_set_alt: "fst ` set (activeConns p) = active_set p"
  by (simp add: active_set_def gomap_keys_def)

lemma gomap_del_absent: "c \<notin> fst ` set m \<Longrightarrow> gomap_del c m = m"
  by (simp add: gomap_del_def delete_idem)

text \<open>Receiving keeps the invariant apart from the connection handed over.\<close>

lemma get_receive_inv:
  assumes "pool_inv n (p, w)" and "get_receive t p w = (r, p', w')"
  shows "case r of
      None \<Rightarrow> pool_inv n (p', w') \<and> (activeCount p' < n \<longrightarrow> activeCount p' + int (length (idleConns p')) < n)
    | Some c \<Rightarrow> w' = w \<and> idleConns p = c # idleConns p' \<and> p' = p\<lparr>idleConns := idleConns p'\<rparr>"
proof (cases "idleConns p")
  case Nil
  then show ?thesis using assms by (auto simp: get_receive_def pool_inv_def)
next
  case (Cons c rest)
  then have "c \<notin> active_set p" using assms(1) by (auto simp: pool_inv_def)
  then have "gomap_del c (activeConns p) = activeConns p"
    by (intro gomap_del_absent) (simp add: active_set_alt)
  then show ?thesis using assms Cons
    by (auto simp: get_receive_def pool_inv_def Let_def Conn_Close_def active_set_def split: if_splits)
qed

lemma get_take_inv:
  assumes "pool_inv n (p, w)" and "idleConns p = c # cs" and "p1 = p\<lparr>idleConns := cs\<rparr>"
  shows "pool_inv n (p1\<lparr>activeConns := gomap_put c True (activeConns p1), activeCount := activeCount p1 + 1\<rparr>, MarkInUse t c w)"
proof -
  have "finite (active_set p)" "c \<notin> active_set p"
    using assms(1,2) by (auto simp: pool_inv_def active_set_def)
  then show ?thesis using assms by (auto simp: pool_inv_def MarkInUse_def active_set_alt)
qed

lemma get_dial_inv:
  assumes inv: "pool_inv n (p, w)" "activeCount p < n \<longrightarrow> activeCount p + int (length (idleConns p)) < n"
    and dial: "get_dial t2 t3 dialled p w = (r, p', w')"
  shows "pool_inv n (p', w')"
proof (cases "\<not> maxPerService p \<le> activeCount p \<and> is_ok dialled")
  case True
  then obtain sock where sock: "dialled = Ok sock" by (cases dialled) auto
  have fin: "finite (active_set p)" "next_ref w \<notin> active_set p" "next_ref w \<notin> set (idleConns p)"
    using inv(1) by (auto simp: pool_inv_def active_set_def)
  have p': "p' = p\<lparr>activeConns := gomap_put (next_ref w) True (activeConns p), activeCount := activeCount p + 1\<rparr>"
      "w' = w\<lparr>obj := (obj w)(next_ref w := \<lparr>conn = sock, createdAt = t2, lastUsedAt = t3, inUse = True\<rparr>),
               next_ref := next_ref w + 1\<rparr>"
    using dial True sock by (auto simp: get_dial_def Let_def)
  show ?thesis using inv True fin by (auto simp: p' pool_inv_def active_set_alt less_Suc_eq)
next
  case False
  then show ?thesis using inv(1) dial by (cases dialled) (auto simp: get_dial_def split: if_splits)
qed

lemma pool_inv_get:
  assumes "pool_inv n (p, w)" and "Pool_Get t1 t2 t3 dialled p w = (r, p', w')"
  shows "pool_inv n (p', w')"
proof (cases "get_receive t1 p w")
  case (fields r1 p1 w1)
  note rec = get_receive_inv [OF assms(1) fields]
  show ?thesis
  proof (cases r1)
    case (Some c)
    then have p1: "idleConns p = c # idleConns p1" "p1 = p\<lparr>idleConns := idleConns p1\<rparr>" and
      "p' = p1\<lparr>activeConns := gomap_put c True (activeConns p1), activeCount := activeCount p1 + 1\<rparr>" "w' = MarkInUse t2 c w"
      using rec assms(2) fields by (auto simp: Pool_Get_def get_take_def)
    then show ?thesis by (simp only: get_take_inv [OF assms(1) p1])
  next
    case None
    then show ?thesis using rec assms(2) fields by (auto simp: Pool_Get_def intro: get_dial_inv)
  qed
qed

lemma pool_inv_put:
  assumes "pool_inv n (p, w)" and "c \<in> active_set p"
  shows "pool_inv n (Pool_Put t c p w)" and "idleConns (fst (Pool_Put t c p w)) = idleConns p @ [c]"
proof -
  have fin: "finite (active_set p)" by (simp add: active_set_def)
  then have pos: "0 < card (active_set p)" using assms(2) by (auto simp: card_gt_0_iff)
  then have room: "int (length (idleConns p)) < maxPerService p" using assms(1) by (auto simp: pool_inv_def)
  then show idle: "idleConns (fst (Pool_Put t c p w)) = idleConns p @ [c]"
    by (simp add: Pool_Put_def try_send_def Let_def)
  have act: "active_set (fst (Pool_Put t c p w)) = active_set p - {c}"
    "activeCount (fst (Pool_Put t c p w)) = activeCount p - 1"
    "gomap_ok (activeConns p) \<Longrightarrow> gomap_ok (activeConns (fst (Pool_Put t c p w)))"
    "maxPerService (fst (Pool_Put t c p w)) = maxPerService p"
    using room pos assms(1) by (auto simp: Pool_Put_def try_send_def Let_def active_set_def active_del pool_inv_def)
  have w: "snd (Pool_Put t c p w) = MarkIdle t c w" by (simp add: Pool_Put_def Let_def)
  show "pool_inv n (Pool_Put t c p w)"
    using assms fin pos unfolding pool_inv_def case_prod_unfold idle act w
    by (auto simp: MarkIdle_def card_Diff_singleton act(3))
qed

lemma pool_inv_remove:
  assumes "pool_inv n (p, w)" and "c \<in> active_set p"
  shows "pool_inv n (Pool_Remove c p w)"
proof -
  have fin: "finite (active_set p)" by (simp add: active_set_def)
  then have pos: "0 < card (active_set p)" using assms(2) by (auto simp: card_gt_0_iff)
  have act: "active_set (fst (Pool_Remove c p w)) = active_set p - {c}"
    "idleConns (fst (Pool_Remove c p w)) = idleConns p"
    "activeCount (fst (Pool_Remove c p w)) = activeCount p - 1"
    "gomap_ok (activeConns p) \<Longrightarrow> gomap_ok (activeConns (fst (Pool_Remove c p w)))"
    "maxPerService (fst (Pool_Remove c p w)) = maxPerService p" "snd (Pool_Remove c p w) = Conn_Close c w"
    using pos assms(1) by (auto simp: Pool_Remove_def active_set_def active_del pool_inv_def)
  show ?thesis
    using assms fin pos unfolding pool_inv_def case_prod_unfold act
    by (auto simp: Conn_Close_def card_Diff_singleton act(4))
qed

lemma IsExpired_Close [simp]: "IsExpired now d c (Conn_Close c' w) = IsExpired now d c w"
  by (simp add: IsExpired_def Conn_Close_def)

text \<open>One round of the cleanup on a pool whose queue is not full after the receive.\<close>

lemma cleanup_round:
  assumes "idleConns p = c # rest" and "int (length (idleConns p)) \<le> maxPerService p"
  shows "cleanup_loop (now # ts) count p w =
    (if IsExpired now (idleTimeout p) c w
     then cleanup_loop ts (count + 1) (p\<lparr>idleConns := rest, activeConns := gomap_del c (activeConns p)\<rparr>) (Conn_Close c w)
     else cleanup_loop ts count (p\<lparr>idleConns := rest @ [c]\<rparr>) w)"
  using assms by (simp add: cleanup_loop.simps [of "now # ts" count p w] try_send_def Let_def)

lemma cleanup_empty: "idleConns p = [] \<Longrightarrow> cleanup_loop ts count p w = Some (count, p, w)"
  by (simp add: cleanup_loop.simps [of ts count p w])

lemma cleanup_unfinished: "idleConns p \<noteq> [] \<Longrightarrow> cleanup_loop [] count p w = None"
  by (cases "idleConns p") (simp_all add: cleanup_loop.simps [of "[]" count p w])

lemma pool_inv_cleanup:
  assumes "pool_inv n (p, w)" and "cleanup_loop ts count p w = Some (k, p', w')"
  shows "pool_inv n (p', w') \<and> idleConns p' = [] \<and> activeConns p' = activeConns p \<and>
    k = count + int (length (idleConns p)) \<and> set (net_closed w') = set (net_closed w) \<union> (conn \<circ> obj w) ` set (idleConns p)"
  using assms
proof (induction ts arbitrary: count p w)
  case Nil
  then have "idleConns p = []" using cleanup_unfinished by fastforce
  with Nil show ?case by (simp add: cleanup_empty)
next
  case (Cons now ts)
  show ?case
  proof (cases "idleConns p")
    case Nil
    with Cons.prems show ?thesis by (simp add: cleanup_empty)
  next
    case cons: (Cons c rest)
    have "c \<notin> active_set p" using Cons.prems(1) cons by (auto simp: pool_inv_def)
    then have del: "gomap_del c (activeConns p) = activeConns p"
      by (intro gomap_del_absent) (simp add: active_set_alt)
    have le: "int (length (idleConns p)) \<le> maxPerService p" using Cons.prems(1) by (auto simp: pool_inv_def)
    note round = cleanup_round [OF cons le, of now ts count w]
    have act: "active_set (p\<lparr>idleConns := xs\<rparr>) = active_set p" for xs by (simp add: active_set_def)
    show ?thesis
    proof (cases "IsExpired now (idleTimeout p) c w")
      case True
      have "pool_inv n (p\<lparr>idleConns := rest\<rparr>, Conn_Close c w)"
        using Cons.prems(1) cons by (auto simp: pool_inv_def act Conn_Close_def)
      moreover have "cleanup_loop ts (count + 1) (p\<lparr>idleConns := rest\<rparr>) (Conn_Close c w) = Some (k, p', w')"
        using Cons.prems(2) round True del by simp
      ultimately show ?thesis using Cons.IH [of "p\<lparr>idleConns := rest\<rparr>" "Conn_Close c w" "count + 1"] cons
        by (auto simp: Conn_Close_def)
    next
      case False
      have "pool_inv n (p\<lparr>idleConns := rest @ [c]\<rparr>, w)"
        using Cons.prems(1) cons by (auto simp: pool_inv_def act)
      moreover have "cleanup_loop ts count (p\<lparr>idleConns := rest @ [c]\<rparr>) w = Some (k, p', w')"
        using Cons.prems(2) round False by simp
      ultimately show ?thesis using Cons.IH [of "p\<lparr>idleConns := rest @ [c]\<rparr>"] cons by auto
    qed
  qed
qed

lemma pool_step_inv: "pool_step s s' \<Longrightarrow> pool_inv n s \<Longrightarrow> pool_inv n s'"
  by (induction rule: pool_step.induct)
    (auto simp: Pool_Cleanup_def dest: pool_inv_get pool_inv_put(1) pool_inv_remove pool_inv_cleanup)

lemma pool_reachable_inv:
  assumes "pool_reachable p0 s" and "NewPool addr dial idle maxc n = Ok p0"
  shows "pool_inv n s"
  using assms(1)
proof (induction rule: pool_reachable.induct)
  case (pool_start w)
  then show ?case using assms(2) by (auto simp: pool_inv_def NewPool_def active_set_def gomap_keys_def split: if_splits)
next
  case (pool_more s s')
  then show ?case by (blast intro: pool_step_inv)
qed

text \<open>
  C35. A pool used by one goroutine at a time, which returns only what it was given, never
  has more than \<open>maxPerService\<close> connections idle and active together, counts the active
  ones exactly, loses none (each connection ever dialled is idle, active or closed), keeps
  idle and active apart, and has room in the channel for every connection given back.
\<close>

theorem pool_sequential_safety:
  assumes "NewPool addr dial idle maxc n = Ok p0" and "pool_reachable p0 (p, w)"
  shows "Pool_Stats p = (int (card (active_set p)) + int (length (idleConns p)), int (card (active_set p)), int (length (idleConns p))) \<and>
    fst (Pool_Stats p) \<le> n \<and>
    set (idleConns p) \<inter> active_set p = {} \<and>
    (\<forall>c < next_ref w. c \<in> set (idleConns p) \<or> c \<in> active_set p \<or> conn (obj w c) \<in> set (net_closed w)) \<and>
    (\<forall>c \<in> active_set p. idleConns (fst (Pool_Put t c p w)) = idleConns p @ [c])"
proof -
  have inv: "pool_inv n (p, w)" using pool_reachable_inv [OF assms(2,1)] .
  then have "\<forall>c \<in> active_set p. idleConns (fst (Pool_Put t c p w)) = idleConns p @ [c]"
    by (blast intro: pool_inv_put(2))
  with inv show ?thesis by (simp add: pool_inv_def Pool_Stats_def Let_def)
qed

theorem pool_sequential_safety_witness:
  "\<exists>p w. pool_reachable \<lparr>address = ''a'', dialTimeout = 1, idleTimeout = 1, maxConnections = 9, maxPerService = 2,
      idleConns = [], activeConns = [], activeCount = 0\<rparr> (p, w) \<and> active_set p = {0} \<and> fst (Pool_Stats p) \<le> 2"
proof -
  let ?p0 = "\<lparr>address = ''a'', dialTimeout = 1, idleTimeout = 1, maxConnections = 9, maxPerService = 2,
      idleConns = [], activeConns = [], activeCount = 0\<rparr>"
  let ?w0 = "\<lparr>obj = (\<lambda>_. \<lparr>conn = 0, createdAt = 0, lastUsedAt = 0, inUse = False\<rparr>), next_ref = 0, net_closed = []\<rparr>"
  obtain r p w where get: "Pool_Get 5 5 5 (Ok 77) ?p0 ?w0 = (r, p, w)" by (cases "Pool_Get 5 5 5 (Ok 77) ?p0 ?w0")
  have "pool_reachable ?p0 (?p0, ?w0)" by (rule pool_start) simp
  then have reach: "pool_reachable ?p0 (p, w)" using pool_step.get [OF get] by (rule pool_more)
  have new: "NewPool ''a'' 1 1 9 2 = Ok ?p0" by (simp add: NewPool_def)
  have "active_set p = {0}"
    using get by (auto simp: Pool_Get_def get_receive_def get_dial_def Let_def active_set_def gomap_keys_def gomap_put_def)
  with reach pool_sequential_safety [OF new reach] show ?thesis by blast
qed

text \<open>The cleanup while some idle connection stays valid.\<close>

lemma cleanup_blocks:
  assumes "c \<in> set (idleConns p)" and "int (length (idleConns p)) \<le> maxPerService p"
    and "\<forall>now \<in> set ts. \<not> IsExpired now (idleTimeout p) c w"
  shows "cleanup_loop ts count p w = None"
  using assms
proof (induction ts arbitrary: count p w)
  case Nil
  then show ?case by (intro cleanup_unfinished) auto
next
  case (Cons now ts)
  obtain c' rest where idle: "idleConns p = c' # rest" using Cons.prems(1) by (cases "idleConns p") auto
  note round = cleanup_round [OF idle Cons.prems(2), of now ts count w]
  show ?case
  proof (cases "IsExpired now (idleTimeout p) c' w")
    case True
    then have "c \<noteq> c'" using Cons.prems(3) by auto
    then show ?thesis using True round idle Cons.prems
        Cons.IH [of "p\<lparr>idleConns := rest, activeConns := gomap_del c' (activeConns p)\<rparr>" "Conn_Close c' w" "count + 1"]
      by simp
  next
    case False
    then show ?thesis using round idle Cons.prems
        Cons.IH [of "p\<lparr>idleConns := rest @ [c']\<rparr>" w count] by auto
  qed
qed

text \<open>
  C36. \<open>Cleanup\<close>, which holds the pool's mutex, does not return as long as one idle
  connection is still valid: after any number of rounds in which it has not expired the
  loop is still running.
\<close>

theorem Cleanup_does_not_return:
  assumes "c \<in> set (idleConns p)" and "int (length (idleConns p)) \<le> maxPerService p"
    and "\<forall>now \<in> set ts. now - lastUsedAt (obj w c) \<le> idleTimeout p"
  shows "Pool_Cleanup ts p w = None"
  using assms by (auto simp: Pool_Cleanup_def IsExpired_def intro!: cleanup_blocks)

theorem Cleanup_does_not_return_witness:
  "Pool_Cleanup (replicate 1000 4) \<lparr>address = ''a'', dialTimeout = 1, idleTimeout = 10, maxConnections = 9, maxPerService = 2,
      idleConns = [0], activeConns = [], activeCount = 0\<rparr>
     \<lparr>obj = (\<lambda>_. \<lparr>conn = 0, createdAt = 0, lastUsedAt = 0, inUse = False\<rparr>), next_ref = 1, net_closed = []\<rparr> = None"
  by (rule Cleanup_does_not_return [of 0]) auto

lemma cleanup_all_expired:
  assumes "int (length (idleConns p)) \<le> maxPerService p" and "length (idleConns p) \<le> length ts"
    and "\<forall>now \<in> set ts. \<forall>c \<in> set (idleConns p). IsExpired now (idleTimeout p) c w"
  shows "\<exists>p' w'. cleanup_loop ts count p w = Some (count + int (length (idleConns p)), p', w')"
  using assms
proof (induction ts arbitrary: count p w)
  case Nil
  then show ?case by (simp add: cleanup_empty)
next
  case (Cons now ts)
  show ?case
  proof (cases "idleConns p")
    case Nil
    then show ?thesis by (simp add: cleanup_empty)
  next
    case idle: (Cons c rest)
    show ?thesis using cleanup_round [OF idle Cons.prems(1), of now ts count w] idle Cons.prems
        Cons.IH [of "p\<lparr>idleConns := rest, activeConns := gomap_del c (activeConns p)\<rparr>" "Conn_Close c w" "count + 1"]
      by (simp add: add.assoc)
  qed
qed

text \<open>
  When \<open>Cleanup\<close> returns, it has closed and removed every idle connection, not only
  those that had expired when it started, and its result is their number; and once all
  idle connections have expired it returns after one round for each.
\<close>

theorem Cleanup_result:
  assumes "NewPool addr dial idle maxc n = Ok p0" and "pool_reachable p0 (p, w)"
  shows "(\<forall>ts k p' w'. Pool_Cleanup ts p w = Some (k, p', w') \<longrightarrow> idleConns p' = [] \<and> activeConns p' = activeConns p \<and>
      k = int (length (idleConns p)) \<and> (\<forall>c \<in> set (idleConns p). conn (obj w c) \<in> set (net_closed w'))) \<and>
    (\<forall>ts. length (idleConns p) \<le> length ts \<and>
       (\<forall>now \<in> set ts. \<forall>c \<in> set (idleConns p). idleTimeout p < now - lastUsedAt (obj w c)) \<longrightarrow>
       (\<exists>p' w'. Pool_Cleanup ts p w = Some (int (length (idleConns p)), p', w')))"
proof (intro conjI allI impI)
  have inv: "pool_inv n (p, w)" using pool_reachable_inv [OF assms(2,1)] .
  fix ts k p' w' assume "Pool_Cleanup ts p w = Some (k, p', w')"
  from pool_inv_cleanup [OF inv this [unfolded Pool_Cleanup_def]]
  show "idleConns p' = []" "activeConns p' = activeConns p" "k = int (length (idleConns p))"
    "\<forall>c \<in> set (idleConns p). conn (obj w c) \<in> set (net_closed w')" by auto
next
  have inv: "pool_inv n (p, w)" using pool_reachable_inv [OF assms(2,1)] .
  fix ts assume "length (idleConns p) \<le> length ts \<and>
       (\<forall>now \<in> set ts. \<forall>c \<in> set (idleConns p). idleTimeout p < now - lastUsedAt (obj w c))"
  then show "\<exists>p' w'. Pool_Cleanup ts p w = Some (int (length (idleConns p)), p', w')"
    using cleanup_all_expired [of p ts w 0] inv by (auto simp: Pool_Cleanup_def pool_inv_def IsExpired_def)
qed

theorem Cleanup_result_witness:
  "let p = \<lparr>address = ''a'', dialTimeout = 1, idleTimeout = 1, maxConnections = 9, maxPerService = 2,
      idleConns = [], activeConns = [], activeCount = 0\<rparr>;
      w = \<lparr>obj = (\<lambda>_. \<lparr>conn = 0, createdAt = 0, lastUsedAt = 0, inUse = False\<rparr>), next_ref = 0, net_closed = []\<rparr>
   in \<exists>p' w'. Pool_Cleanup [] p w = Some (0, p', w')"
proof -
  let ?p = "\<lparr>address = ''a'', dialTimeout = 1, idleTimeout = 1, maxConnections = 9, maxPerService = 2,
      idleConns = [], activeConns = [], activeCount = 0\<rparr>"
  let ?w = "\<lparr>obj = (\<lambda>_. \<lparr>conn = 0, createdAt = 0, lastUsedAt = 0, inUse = False\<rparr>), next_ref = 0, net_closed = []\<rparr>"
  have new: "NewPool ''a'' 1 1 9 2 = Ok ?p" by (simp add: NewPool_def)
  have reach: "pool_reachable ?p (?p, ?w)" by (rule pool_start) simp
  show ?thesis using Cleanup_result [OF new reach, THEN conjunct2, rule_format, of "[]"] by (simp add: Let_def)
qed

section \<open>Several goroutines\<close>

text \<open>
  The limit does not hold for goroutines that interleave.  With a limit of one and one
  idle connection, the first goroutine receives it; before it enters the mutex, the second
  finds the channel empty, is under the limit and dials; then both are active.  When both
  are given back the channel is full for the second, which is neither idle nor active nor
  closed afterwards: it is lost.
\<close>

theorem pool_limit_race:
  defines "p0 \<equiv> \<lparr>address = ''a'', dialTimeout = 1, idleTimeout = 10, maxConnections = 9, maxPerService = 1,
      idleConns = [0], activeConns = [], activeCount = 0\<rparr>"
    and "w0 \<equiv> \<lparr>obj = (\<lambda>_. \<lparr>conn = 100, createdAt = 0, lastUsedAt = 0, inUse = False\<rparr>), next_ref = 1, net_closed = []\<rparr>"
  shows "\<exists>p1 p2 w2 p3 w3 p5 w5.
    get_receive 1 p0 w0 = (Some 0, p1, w0) \<and>
    Pool_Get 2 2 2 (Ok 101) p1 w0 = (Ok 1, p2, w2) \<and>
    get_take 3 0 p2 w2 = (p3, w3) \<and> activeCount p3 = 2 \<and> maxPerService p3 = 1 \<and>
    (case Pool_Put 4 0 p3 w3 of (p4, w4) \<Rightarrow> Pool_Put 5 1 p4 w4) = (p5, w5) \<and>
    1 \<notin> set (idleConns p5) \<and> active_set p5 = {} \<and> conn (obj w5 1) = 101 \<and> 101 \<notin> set (net_closed w5)"
  unfolding p0_def w0_def
  by (simp add: get_receive_def IsExpired_def Let_def Pool_Get_def get_dial_def get_take_def MarkInUse_def
      Pool_Put_def try_send_def MarkIdle_def active_set_def gomap_keys_def gomap_put_def gomap_del_def AList.delete_eq)

end
