(* ===== verification/Sniffer.thy ===== *)
theory Sniffer
  imports Streams
begin

text \<open>
  \<open>internal/protocol/sniffer.go\<close> and the protocol types of \<open>protocol.go\<close>: the protocol of
  a new connection is guessed from its first bytes, which are looked at without being
  taken from the stream.
\<close>

section \<open>Peeking\<close>

text \<open>
  \<open>bufio.Reader.Peek\<close> under a read deadline.  \<open>k\<close> is the number of reads of the source
  that are answered before the deadline; the next one times out.  The bytes available and
  the error, if any, are returned.
\<close>

fun Peek :: "'r rd \<Rightarrow> nat \<Rightarrow> nat \<Rightarrow> 'r bufio \<Rightarrow> (bytes \<times> go_error option) res \<times> 'r bufio" where
  "Peek rd n k b =
     (if n \<le> length (bf_buf b) then (Ok (take n (bf_buf b), None), b)
      else case k of
        0 \<Rightarrow> (Ok (bf_buf b, Some ErrTimeout), b)
      | Suc k' \<Rightarrow>
          (case rd (bf_rd b) (bufio_size - length (bf_buf b)) of
             (Got x xs, r') \<Rightarrow> Peek rd n k' (b\<lparr>bf_buf := bf_buf b @ x # xs, bf_rd := r'\<rparr>)
           | (Failed e, r') \<Rightarrow> (Ok (bf_buf b, Some e), b\<lparr>bf_rd := r'\<rparr>)
           | (Panicked m, r') \<Rightarrow> (Panic m, b\<lparr>bf_rd := r'\<rparr>)))"

declare Peek.simps [simp del]

section \<open>Protocol detection\<close>

datatype ProtocolType = ProtocolTCP | ProtocolWebSocket | ProtocolHTTP

text \<open>
  \<open>bytes.ToLower\<close>, as far as the occurrence of ASCII words in the result is concerned: the
  ASCII capitals, and the two other runes whose lower case is an ASCII letter, the Kelvin
  sign and the dotted capital I.
\<close>

definition lower_byte :: "byte \<Rightarrow> byte" where
  "lower_byte b = (if 0x41 \<le> b \<and> b \<le> 0x5A then b + 0x20 else b)"

fun ToLower :: "bytes \<Rightarrow> bytes" where
  "ToLower (b # bs) =
     (case (b, bs) of
        (b, c # d # rest) \<Rightarrow>
          if b = 0xE2 \<and> c = 0x84 \<and> d = 0xAA then 0x6B # ToLower rest
          else if b = 0xC4 \<and> c = 0xB0 then 0x69 # ToLower (d # rest)
          else lower_byte b # ToLower bs
      | (b, [c]) \<Rightarrow> if b = 0xC4 \<and> c = 0xB0 then [0x69] else lower_byte b # ToLower [c]
      | (b, []) \<Rightarrow> [lower_byte b])"
| "ToLower [] = []"

fun Contains :: "bytes \<Rightarrow> bytes \<Rightarrow> bool" where
  "Contains [] p \<longleftrightarrow> p = []"
| "Contains (b # bs) p \<longleftrightarrow> prefix p (b # bs) \<or> Contains bs p"

definition http_start :: "bytes \<Rightarrow> bool" where
  "http_start peeked \<longleftrightarrow>
     prefix (string_bytes ''GET '') peeked \<or> prefix (string_bytes ''POST'') peeked \<or>
     prefix (string_bytes ''PUT '') peeked \<or> prefix (string_bytes ''HEAD'') peeked \<or>
     prefix (string_bytes ''HTTP'') peeked"

definition websocket_words :: "bytes \<Rightarrow> bool" where
  "websocket_words ahead \<longleftrightarrow>
     (let lowerMore = ToLower ahead
      in Contains lowerMore (string_bytes ''upgrade'') \<and> Contains lowerMore (string_bytes ''websocket''))"

text \<open>\<open>ParseServiceType\<close> of \<open>protocol/protocol.go\<close> is a stub that nobody calls.\<close>

definition ParseServiceType :: "bytes \<Rightarrow> (string \<times> int \<times> int \<times> int) res" where
  "ParseServiceType d = Ok ([], 0, 0, 0)"

text \<open>
  \<open>Sniff\<close>.  \<open>k1\<close> and \<open>k2\<close> reads are answered in time during the two calls of \<open>Peek\<close>.  A
  timeout of the first is taken for TCP, the error of the second is ignored.
\<close>

definition Sniff :: "'r rd \<Rightarrow> nat \<Rightarrow> nat \<Rightarrow> 'r bufio \<Rightarrow> (ProtocolType \<times> bytes) res \<times> 'r bufio" where
  "Sniff rd k1 k2 b =
     rs_bind (Peek rd 4 k1 b) (\<lambda>(peeked, err) b1.
       case err of
         Some e \<Rightarrow> if e = ErrTimeout then (Ok (ProtocolTCP, []), b1) else (Err e, b1)
       | None \<Rightarrow>
           if http_start peeked then
             rs_bind (Peek rd 512 k2 b1) (\<lambda>(ahead, _) b2.
               if websocket_words ahead then (Ok (ProtocolWebSocket, ahead), b2)
               else (Ok (ProtocolHTTP, ahead), b2))
           else (Ok (ProtocolTCP, peeked), b1))"

section \<open>Peeking keeps the stream\<close>

text \<open>A reader that, once at its end, stays there.\<close>

locale steady_reader = byte_reader +
  assumes end_stays: "0 < n \<Longrightarrow> content r = [] \<Longrightarrow> rd r n = (res, r') \<Longrightarrow> content r' = [] \<and> ending r' = ending r"
begin

text \<open>What \<open>Peek\<close> returns is a prefix of the stream, and the stream stays as it was.\<close>

lemma Peek_spec:
  assumes "Peek rd n k b = (res, b')" and "n \<le> bufio_size"
  shows "bf_buf b' @ content (bf_rd b') = bf_buf b @ content (bf_rd b) \<and> ending (bf_rd b') = ending (bf_rd b) \<and>
    (case res of
       Ok (bs, None) \<Rightarrow> n \<le> length (bf_buf b @ content (bf_rd b)) \<and> bs = take n (bf_buf b @ content (bf_rd b))
     | Ok (bs, Some e) \<Rightarrow> prefix bs (bf_buf b @ content (bf_rd b)) \<and> length bs < n \<and>
         (e = ErrTimeout \<or> bs = bf_buf b @ content (bf_rd b) \<and> ending (bf_rd b) = Stops e)
     | Err e \<Rightarrow> False
     | Panic m \<Rightarrow> ending (bf_rd b) = Crashes m)"
  using assms(1)
proof (induction k arbitrary: b)
  case 0
  then show ?case by (auto simp: Peek.simps [of rd n 0] split: if_splits)
next
  case (Suc k)
  show ?case
  proof (cases "n \<le> length (bf_buf b)")
    case True
    then show ?thesis using Suc.prems by (auto simp: Peek.simps [of rd n "Suc k"])
  next
    case False
    let ?m = "bufio_size - length (bf_buf b)"
    have m: "0 < ?m" using False assms(2) by simp
    note step = Peek.simps [of rd n "Suc k" b]
    show ?thesis
    proof (cases "content (bf_rd b) = []")
      case True
      obtain r' where r: "rd (bf_rd b) ?m = (stop_result (ending (bf_rd b)), r')"
        using read_end [OF m True] by blast
      have "content r' = [] \<and> ending r' = ending (bf_rd b)" by (rule end_stays [OF m True r])
      with r False True Suc.prems show ?thesis by (cases "ending (bf_rd b)") (auto simp: step)
    next
      case nonempty: False
      obtain x xs r' where r: "rd (bf_rd b) ?m = (Got x xs, r')" "content (bf_rd b) = x # xs @ content r'"
        "ending r' = ending (bf_rd b)"
        using read_got [OF m nonempty] by blast
      define b1 where "b1 = b\<lparr>bf_buf := bf_buf b @ x # xs, bf_rd := r'\<rparr>"
      have same: "bf_buf b1 @ content (bf_rd b1) = bf_buf b @ content (bf_rd b)" "ending (bf_rd b1) = ending (bf_rd b)"
        using r(2,3) by (simp_all add: b1_def)
      have "Peek rd n k b1 = (res, b')" using Suc.prems False r(1) by (simp add: step b1_def)
      from Suc.IH [OF this] show ?thesis by (simp only: same)
    qed
  qed
qed

text \<open>With as many reads as bytes are missing, the outcome is determined by the stream.\<close>

lemma Peek_exact:
  assumes "n \<le> bufio_size" and "n \<le> k + length (bf_buf b)" and "ending (bf_rd b) = Stops e"
  defines "s \<equiv> bf_buf b @ content (bf_rd b)"
  shows "fst (Peek rd n k b) = Ok (if n \<le> length s then (take n s, None) else (s, Some e))"
  using assms(2,3) unfolding s_def
proof (induction k arbitrary: b)
  case 0
  then show ?case by (simp add: Peek.simps [of rd n 0])
next
  case (Suc k)
  show ?case
  proof (cases "n \<le> length (bf_buf b)")
    case True
    then show ?thesis by (simp add: Peek.simps [of rd n "Suc k"])
  next
    case False
    let ?m = "bufio_size - length (bf_buf b)"
    have m: "0 < ?m" using False assms(1) by simp
    note step = Peek.simps [of rd n "Suc k" b]
    show ?thesis
    proof (cases "content (bf_rd b) = []")
      case True
      with read_end [OF m True] False Suc.prems(2) show ?thesis by (auto simp: step)
    next
      case nonempty: False
      obtain x xs r' where r: "rd (bf_rd b) ?m = (Got x xs, r')" "content (bf_rd b) = x # xs @ content r'" "ending r' = ending (bf_rd b)"
        using read_got [OF m nonempty] by blast
      have "Peek rd n (Suc k) b = Peek rd n k (b\<lparr>bf_buf := bf_buf b @ x # xs, bf_rd := r'\<rparr>)"
        using False r(1) by (simp add: step)
      with Suc.IH [of "b\<lparr>bf_buf := bf_buf b @ x # xs, bf_rd := r'\<rparr>"] r(2,3) Suc.prems show ?thesis by simp
    qed
  qed
qed

lemma Sniff_exact:
  assumes "ending (bf_rd b) = Stops e"
  defines "s \<equiv> bf_buf b @ content (bf_rd b)"
  shows "fst (Sniff rd 4 512 b) =
    (if length s < 4 then if e = ErrTimeout then Ok (ProtocolTCP, []) else Err e
     else if \<not> http_start (take 4 s) then Ok (ProtocolTCP, take 4 s)
     else Ok (if websocket_words (take 512 s) then ProtocolWebSocket else ProtocolHTTP, take 512 s))"
proof -
  obtain r1 b1 where p1: "Peek rd 4 4 b = (r1, b1)" by fastforce
  note s1 = Peek_spec [OF p1, simplified]
  have r1: "r1 = Ok (if 4 \<le> length s then (take 4 s, None) else (s, Some e))"
    using Peek_exact [of 4 4 b e] assms(1) p1 by (simp add: s_def)
  obtain r2 b2 where p2: "Peek rd 512 512 b1 = (r2, b2)" by fastforce
  have r2: "r2 = Ok (if 512 \<le> length s then (take 512 s, None) else (s, Some e))"
    using Peek_exact [of 512 512 b1 e] s1 assms(1) p2 by (simp add: s_def)
  have "take 512 s = s" if "\<not> 512 \<le> length s" using that by simp
  then show ?thesis using p1 p2 r1 r2 by (auto simp: Sniff_def)
qed

end

text \<open>What every filling of the buffer keeps, peeking keeps.\<close>

primrec got_bytes :: "rd_result \<Rightarrow> bytes" where
  "got_bytes (Got x xs) = x # xs"
| "got_bytes (Failed e) = []"
| "got_bytes (Panicked m) = []"

definition fill_keeps :: "('r bufio \<Rightarrow> bool) \<Rightarrow> 'r rd \<Rightarrow> bool" where
  "fill_keeps P rd \<longleftrightarrow> (\<forall>b m res r'. P b \<longrightarrow> rd (bf_rd b) m = (res, r') \<longrightarrow> P (b\<lparr>bf_buf := bf_buf b @ got_bytes res, bf_rd := r'\<rparr>))"

lemma Peek_keeps:
  assumes "fill_keeps P rd" and "P b" and "Peek rd n k b = (res, b')"
  shows "P b'"
  using assms(2,3)
proof (induction k arbitrary: b)
  case 0
  then show ?case by (auto simp: Peek.simps [of rd n 0] split: if_splits)
next
  case (Suc k)
  obtain x r' where r: "rd (bf_rd b) (bufio_size - length (bf_buf b)) = (x, r')" by fastforce
  then have P: "P (b\<lparr>bf_buf := bf_buf b @ got_bytes x, bf_rd := r'\<rparr>)" using assms(1) Suc.prems(1) by (simp add: fill_keeps_def)
  have same: "b\<lparr>bf_buf := bf_buf b, bf_rd := r'\<rparr> = b\<lparr>bf_rd := r'\<rparr>" by (cases b) simp
  note step = Peek.simps [of rd n "Suc k" b]
  show ?case
  proof (cases "n \<le> length (bf_buf b)")
    case True
    then show ?thesis using Suc.prems by (simp add: step)
  next
    case False
    show ?thesis using Suc.prems(2) False r P same Suc.IH [of "b\<lparr>bf_buf := bf_buf b @ got_bytes x, bf_rd := r'\<rparr>"]
      by (cases x) (auto simp: step)
  qed
qed

lemma Sniff_keeps:
  assumes "fill_keeps P rd" and "P b" and "Sniff rd k1 k2 b = (res, b')"
  shows "P b'"
proof -
  obtain r1 b1 where p1: "Peek rd 4 k1 b = (r1, b1)" by fastforce
  obtain r2 b2 where p2: "Peek rd 512 k2 b1 = (r2, b2)" by fastforce
  have "P b1" by (rule Peek_keeps [OF assms(1,2) p1])
  moreover from this have "P b2" by (rule Peek_keeps [OF assms(1) _ p2])
  moreover have "b' = b1 \<or> b' = b2" using assms(3) p1 p2 by (auto simp: Sniff_def rs_bind_def split: res.splits prod.splits option.splits if_splits)
  ultimately show ?thesis by blast
qed

interpretation conn_steady: steady_reader conn_Read conn_content conn_ending
proof
  fix n :: nat and c c' :: conn and res
  assume "0 < n" and e: "conn_content c = []" and r: "conn_Read c n = (res, c')"
  show "conn_content c' = [] \<and> conn_ending c' = conn_ending c"
  proof (cases "dropWhile (\<lambda>s. s = []) (cin c)")
    case Nil
    then show ?thesis using r by (auto simp: conn_Read_def conn_content_def conn_ending_def
          simp del: dropWhile_eq_Nil_conv split: if_splits)
  next
    case (Cons s ss)
    then have "concat (cin c) \<noteq> []"
      using dropWhile_nonempty [OF Cons] dropWhile_concat [of "cin c"] by (metis append_is_Nil_conv concat.simps(2))
    then have "cclosed c" using e by (auto simp: conn_content_def split: if_splits)
    then show ?thesis using r by (auto simp: conn_Read_def conn_content_def conn_ending_def)
  qed
qed

section \<open>Detection is by prefix and loses nothing\<close>

lemma Sniff_cases:
  assumes "Sniff conn_Read k1 k2 b = (res, b')"
  defines "s \<equiv> bf_buf b @ conn_content (bf_rd b)"
  shows "bf_buf b' @ conn_content (bf_rd b') = s \<and> conn_ending (bf_rd b') = conn_ending (bf_rd b) \<and>
    (case res of
       Ok (ProtocolTCP, seen) \<Rightarrow> seen = [] \<or> seen = take 4 s \<and> 4 \<le> length s \<and> \<not> http_start (take 4 s)
     | Ok (_, seen) \<Rightarrow> prefix seen s \<and> http_start (take 4 s)
     | Err e \<Rightarrow> length s < 4 \<and> conn_ending (bf_rd b) = Stops e
     | Panic m \<Rightarrow> False)"
proof -
  obtain r1 b1 where p1: "Peek conn_Read 4 k1 b = (r1, b1)" by (cases "Peek conn_Read 4 k1 b")
  note q1 = conn_steady.Peek_spec [OF p1, simplified, folded s_def]
  have nocrash: "conn_ending c \<noteq> Crashes m" for c m by (simp add: conn_ending_def)
  obtain peeked err where r1: "r1 = Ok (peeked, err)" using q1 nocrash by (cases r1) auto
  show ?thesis
  proof (cases err)
    case (Some e)
    then show ?thesis using q1 r1 p1 assms(1) by (auto simp: Sniff_def split: if_splits)
  next
    case None
    then have pk: "peeked = take 4 s" "4 \<le> length s" using q1 r1 by auto
    show ?thesis
    proof (cases "http_start peeked")
      case False
      then show ?thesis using q1 r1 p1 None pk assms(1) by (auto simp: Sniff_def)
    next
      case True
      obtain r2 b2 where p2: "Peek conn_Read 512 k2 b1 = (r2, b2)" by (cases "Peek conn_Read 512 k2 b1")
      note q2 = conn_steady.Peek_spec [OF p2, simplified]
      obtain seen err2 where r2: "r2 = Ok (seen, err2)" using q2 nocrash by (cases r2) auto
      have "prefix seen s" using q2 r2 q1 by (cases err2) (auto simp: take_is_prefix)
      moreover have "bf_buf b2 @ conn_content (bf_rd b2) = s \<and> conn_ending (bf_rd b2) = conn_ending (bf_rd b)"
        using q1 q2 by simp
      ultimately show ?thesis using assms(1) p1 p2 r1 r2 None True pk
        by (auto simp: Sniff_def split: if_splits)
    qed
  qed
qed

text \<open>
  Looking at a new connection loses nothing: whatever arrives before the deadline, the
  byte stream is the same afterwards.  A connection is never taken for HTTP or WebSocket
  unless its first four bytes are one of the five words; it is taken for TCP without being
  looked at only when the deadline passed; an error is returned only when the stream ended
  before four bytes.
\<close>

theorem Sniff_correct:
  assumes "Sniff conn_Read k1 k2 b = (res, b')"
  shows "bf_buf b' @ conn_content (bf_rd b') = bf_buf b @ conn_content (bf_rd b) \<and>
    conn_ending (bf_rd b') = conn_ending (bf_rd b) \<and>
    (case res of
       Ok (ProtocolTCP, seen) \<Rightarrow> seen = [] \<or>
         seen = take 4 (bf_buf b @ conn_content (bf_rd b)) \<and> length seen = 4 \<and> \<not> http_start seen
     | Ok (_, seen) \<Rightarrow> http_start (take 4 (bf_buf b @ conn_content (bf_rd b)))
     | Err e \<Rightarrow> length (bf_buf b @ conn_content (bf_rd b)) < 4 \<and> conn_ending (bf_rd b) = Stops e
     | Panic m \<Rightarrow> False)"
  using Sniff_cases [OF assms] by (auto split: res.splits prod.splits ProtocolType.splits)

theorem Sniff_correct_witness:
  "\<exists>b'. Sniff conn_Read 9 9 (bufio_NewReader \<lparr>cin = [[71, 69], [84, 32, 47]], cend = EOF, cout = [], croom = None, cclosed = False\<rparr>)
      = (Ok (ProtocolHTTP, [71, 69, 84, 32, 47]), b') \<and>
    bf_buf b' @ conn_content (bf_rd b') = [71, 69, 84, 32, 47]"
proof -
  let ?b = "bufio_NewReader \<lparr>cin = [[71, 69], [84, 32, 47]], cend = EOF, cout = [], croom = None, cclosed = False\<rparr>"
  obtain res b' where s: "Sniff conn_Read 9 9 ?b = (res, b')" by (cases "Sniff conn_Read 9 9 ?b")
  moreover have "fst (Sniff conn_Read 9 9 ?b) = Ok (ProtocolHTTP, [71, 69, 84, 32, 47])" by code_simp
  ultimately show ?thesis
    using Sniff_correct [OF s] by (auto simp: bufio_NewReader_def conn_content_def)
qed

end
