(* ===== verification/Handshake.thy ===== *)
theory Handshake
  imports WebSocket Sniffer
begin

text \<open>
  The HTTP side of \<open>internal/gateway/gateway.go\<close>: recognising and answering a WebSocket
  upgrade (\<open>handleHTTPConnection\<close>, \<open>handleWebSocketConnection\<close> and their helpers), up to the
  point where the adapter is handed to the packet handler.  \<open>http.ReadRequest\<close> is a
  parameter; SHA-1, base64, the string functions and header lookup of the standard library
  are modelled.
\<close>

section \<open>Strings of the standard library\<close>

text \<open>\<open>unicode.IsSpace\<close>: the UTF-8 encodings of the white space runes.\<close>

definition white_space :: "string list" where
  "white_space =
     [[CHR 0x09], [CHR 0x0A], [CHR 0x0B], [CHR 0x0C], [CHR 0x0D], [CHR 0x20], [CHR 0xC2, CHR 0x85],
      [CHR 0xC2, CHR 0xA0], [CHR 0xE1, CHR 0x9A, CHR 0x80], [CHR 0xE2, CHR 0x80, CHR 0x80],
      [CHR 0xE2, CHR 0x80, CHR 0x81], [CHR 0xE2, CHR 0x80, CHR 0x82], [CHR 0xE2, CHR 0x80, CHR 0x83],
      [CHR 0xE2, CHR 0x80, CHR 0x84], [CHR 0xE2, CHR 0x80, CHR 0x85], [CHR 0xE2, CHR 0x80, CHR 0x86],
      [CHR 0xE2, CHR 0x80, CHR 0x87], [CHR 0xE2, CHR 0x80, CHR 0x88], [CHR 0xE2, CHR 0x80, CHR 0x89],
      [CHR 0xE2, CHR 0x80, CHR 0x8A], [CHR 0xE2, CHR 0x80, CHR 0xA8], [CHR 0xE2, CHR 0x80, CHR 0xA9],
      [CHR 0xE2, CHR 0x80, CHR 0xAF], [CHR 0xE2, CHR 0x81, CHR 0x9F], [CHR 0xE3, CHR 0x80, CHR 0x80]]"

text \<open>Remove leading occurrences of the words of a list, at most \<open>n\<close> of them.\<close>

fun strip_words :: "string list \<Rightarrow> nat \<Rightarrow> string \<Rightarrow> string" where
  "strip_words ws 0 s = s"
| "strip_words ws (Suc n) s =
     (case find (\<lambda>w. prefix w s) ws of None \<Rightarrow> s | Some w \<Rightarrow> strip_words ws n (drop (length w) s))"

definition TrimSpace :: "string \<Rightarrow> string" where
  "TrimSpace s =
     (let l = strip_words white_space (length s) s
      in rev (strip_words (map rev white_space) (length l) (rev l)))"

text \<open>
  \<open>strings.EqualFold\<close> with an ASCII word: ASCII letters fold to lower case, and so do the
  two other runes that fold to an ASCII letter, the Kelvin sign and the long s.
\<close>

definition lower_char :: "char \<Rightarrow> char" where
  "lower_char c = (let n = of_char c :: nat in if 65 \<le> n \<and> n \<le> 90 then char_of (n + 32) else c)"

fun fold_string :: "string \<Rightarrow> string" where
  "fold_string [] = []"
| "fold_string (c # cs) =
     (if prefix ([CHR 0xE2, CHR 0x84, CHR 0xAA]) (c # cs) then CHR ''k'' # fold_string (drop 2 cs)
      else if prefix ([CHR 0xC5, CHR 0xBF]) (c # cs) then CHR ''s'' # fold_string (drop 1 cs)
      else lower_char c # fold_string cs)"

definition EqualFold :: "string \<Rightarrow> string \<Rightarrow> bool" where
  "EqualFold s t \<longleftrightarrow> fold_string s = fold_string t"

text \<open>\<open>strings.Split\<close> by one character.\<close>

fun Split :: "char \<Rightarrow> string \<Rightarrow> string list" where
  "Split sep [] = [[]]"
| "Split sep (c # cs) =
     (if c = sep then [] # Split sep cs
      else case Split sep cs of [] \<Rightarrow> [[c]] | w # ws \<Rightarrow> (c # w) # ws)"

section \<open>SHA-1 and base64\<close>

definition rotl32 :: "nat \<Rightarrow> 32 word \<Rightarrow> 32 word" where
  "rotl32 n x = push_bit n x OR drop_bit (32 - n) x"

type_synonym sha_state = "32 word \<times> 32 word \<times> 32 word \<times> 32 word \<times> 32 word"

definition sha_f :: "nat \<Rightarrow> 32 word \<Rightarrow> 32 word \<Rightarrow> 32 word \<Rightarrow> 32 word" where
  "sha_f t b c d =
     (if t < 20 then (b AND c) OR (NOT b AND d)
      else if 40 \<le> t \<and> t < 60 then (b AND c) OR (b AND d) OR (c AND d)
      else b XOR c XOR d)"

definition sha_k :: "nat \<Rightarrow> 32 word" where
  "sha_k t = (if t < 20 then 0x5A827999 else if t < 40 then 0x6ED9EBA1
     else if t < 60 then 0x8F1BBCDC else 0xCA62C1D6)"

text \<open>One round.  The list holds the sixteen words of the schedule that start at round \<open>t\<close>.\<close>

fun sha_round :: "nat \<Rightarrow> 32 word list \<times> sha_state \<Rightarrow> 32 word list \<times> sha_state" where
  "sha_round t (ws, (a, b, c, d, e)) =
     (let tmp = rotl32 5 a + sha_f t b c d + e + sha_k t + hd ws;
          next_word = rotl32 1 (ws ! 13 XOR ws ! 8 XOR ws ! 2 XOR ws ! 0)
      in (tl ws @ [next_word], (tmp, a, rotl32 30 b, c, d)))"

definition sha_block :: "bytes \<Rightarrow> sha_state \<Rightarrow> sha_state" where
  "sha_block block st =
     (let ws = map (\<lambda>i. be_word (take 4 (drop (4 * i) block))) [0..<16]
      in case snd (fold sha_round [0..<80] (ws, st)) of
           (a, b, c, d, e) \<Rightarrow> (case st of (a0, b0, c0, d0, e0) \<Rightarrow> (a0 + a, b0 + b, c0 + c, d0 + d, e0 + e)))"

definition sha_pad :: "bytes \<Rightarrow> bytes" where
  "sha_pad m = m @ 0x80 # replicate ((119 - length m mod 64) mod 64) 0 @ be_bytes 8 (of_nat (8 * length m) :: 64 word)"

definition sha1_Sum :: "bytes \<Rightarrow> bytes" where
  "sha1_Sum m =
     (let padded = sha_pad m;
          blocks = map (\<lambda>i. take 64 (drop (64 * i) padded)) [0..<length padded div 64]
      in case fold sha_block blocks (0x67452301, 0xEFCDAB89, 0x98BADCFE, 0x10325476, 0xC3D2E1F0) of
           (a, b, c, d, e) \<Rightarrow> be_bytes 4 a @ be_bytes 4 b @ be_bytes 4 c @ be_bytes 4 d @ be_bytes 4 e)"

definition base64_alphabet :: string where
  "base64_alphabet = ''ABCDEFGHIJKLMNOPQRSTUVWXYZabcdefghijklmnopqrstuvwxyz0123456789+/''"

definition base64_char :: "nat \<Rightarrow> char" where
  "base64_char n = base64_alphabet ! (n mod 64)"

fun base64_EncodeToString :: "bytes \<Rightarrow> string" where
  "base64_EncodeToString (x # y # z # rest) =
     (let n = unat x * 65536 + unat y * 256 + unat z
      in base64_char (n div 262144) # base64_char (n div 4096) # base64_char (n div 64) # base64_char n #
         base64_EncodeToString rest)"
| "base64_EncodeToString [x, y] =
     (let n = unat x * 65536 + unat y * 256
      in [base64_char (n div 262144), base64_char (n div 4096), base64_char (n div 64), CHR ''='']) "
| "base64_EncodeToString [x] =
     (let n = unat x * 65536 in [base64_char (n div 262144), base64_char (n div 4096), CHR ''='', CHR ''=''])"
| "base64_EncodeToString [] = []"

section \<open>Requests\<close>

text \<open>The headers of a request, under their canonical names, each with its values in order.\<close>

record Request =
  Method :: string
  Header :: "(string, string list) gomap"

text \<open>\<open>textproto.CanonicalMIMEHeaderKey\<close> on a name without spaces.\<close>

definition upper_char :: "char \<Rightarrow> char" where
  "upper_char c = (let n = of_char c :: nat in if 97 \<le> n \<and> n \<le> 122 then char_of (n - 32) else c)"

fun canonical_key :: "bool \<Rightarrow> string \<Rightarrow> string" where
  "canonical_key up [] = []"
| "canonical_key up (c # cs) = (if up then upper_char c else lower_char c) # canonical_key (c = CHR ''-'') cs"

definition Header_Values :: "(string, string list) gomap \<Rightarrow> string \<Rightarrow> string list" where
  "Header_Values h key = (case gomap_get h (canonical_key True key) of None \<Rightarrow> [] | Some vs \<Rightarrow> vs)"

definition Header_Get :: "(string, string list) gomap \<Rightarrow> string \<Rightarrow> string" where
  "Header_Get h key = (case Header_Values h key of [] \<Rightarrow> [] | v # _ \<Rightarrow> v)"

definition isWebSocketUpgrade :: "Request \<Rightarrow> bool" where
  "isWebSocketUpgrade req \<longleftrightarrow> EqualFold (Header_Get (Header req) ''Upgrade'') ''websocket''"

definition headerContainsToken :: "(string, string list) gomap \<Rightarrow> string \<Rightarrow> string \<Rightarrow> bool" where
  "headerContainsToken h key token \<longleftrightarrow>
     list_ex (\<lambda>v. list_ex (\<lambda>part. EqualFold (TrimSpace part) token) (Split (CHR '','') v)) (Header_Values h key)"

definition isWebSocketRequest :: "Request \<Rightarrow> bool" where
  "isWebSocketRequest req \<longleftrightarrow>
     (if Method req \<noteq> ''GET'' then False
      else if \<not> EqualFold (Header_Get (Header req) ''Upgrade'') ''websocket'' then False
      else if \<not> headerContainsToken (Header req) ''Connection'' ''Upgrade'' then False
      else if TrimSpace (Header_Get (Header req) ''Sec-WebSocket-Key'') = [] then False
      else let version = TrimSpace (Header_Get (Header req) ''Sec-WebSocket-Version'')
        in if version \<noteq> [] \<and> version \<noteq> ''13'' then False else True)"

definition websocketGUID :: string where
  "websocketGUID = ''258EAFA5-E914-47DA-95CA-C5AB0DC85B11''"

definition computeWebSocketAcceptKey :: "string \<Rightarrow> string res" where
  "computeWebSocketAcceptKey clientKey =
     (let key = TrimSpace clientKey
      in if key = [] then Err (Errorf ''empty Sec-WebSocket-Key'' None)
         else Ok (base64_EncodeToString (sha1_Sum (string_bytes (key @ websocketGUID)))))"

fun find_proto :: "string list \<Rightarrow> string option" where
  "find_proto [] = None"
| "find_proto (token # tokens) =
     (let proto = TrimSpace token in if proto \<noteq> [] then Some proto else find_proto tokens)"

fun selectWebSocketSubprotocol :: "string list \<Rightarrow> string" where
  "selectWebSocketSubprotocol [] = []"
| "selectWebSocketSubprotocol (raw # rest) =
     (case find_proto (Split (CHR '','') raw) of Some proto \<Rightarrow> proto | None \<Rightarrow> selectWebSocketSubprotocol rest)"

section \<open>Responses\<close>

text \<open>The two status codes the gateway answers with, and \<open>http.StatusText\<close> of them.\<close>

datatype http_status = StatusBadRequest | StatusUpgradeRequired

primrec status_code :: "http_status \<Rightarrow> nat" where
  "status_code StatusBadRequest = 400" | "status_code StatusUpgradeRequired = 426"

primrec StatusText :: "http_status \<Rightarrow> string" where
  "StatusText StatusBadRequest = ''Bad Request''" | "StatusText StatusUpgradeRequired = ''Upgrade Required''"

definition crlf :: string where "crlf = [CHR 0x0D, CHR 0x0A]"
definition nl :: string where "nl = [CHR 0x0A]"

definition http_response :: "http_status \<Rightarrow> string \<Rightarrow> string \<Rightarrow> (string, string) gomap \<Rightarrow> string" where
  "http_response status contentType body extraHeaders =
     ''HTTP/1.1 '' @ dec_nat (status_code status) @ '' '' @ StatusText status @ crlf @
     ''Content-Length: '' @ dec_nat (length body) @ crlf @
     (if contentType \<noteq> [] then ''Content-Type: '' @ contentType @ crlf else []) @
     concat (map (\<lambda>(k, v). k @ '': '' @ v @ crlf) extraHeaders) @
     (if list_ex (\<lambda>(k, v). EqualFold k ''Connection'') extraHeaders then [] else ''Connection: close'' @ crlf) @
     crlf @ body"

definition writeHTTPResponse :: "conn \<Rightarrow> http_status \<Rightarrow> string \<Rightarrow> string \<Rightarrow> (string, string) gomap \<Rightarrow> go_error option \<times> conn" where
  "writeHTTPResponse c status contentType body extraHeaders =
     conn_Write c (string_bytes (http_response status contentType body extraHeaders))"

definition handshake_response :: "string \<Rightarrow> string \<Rightarrow> string" where
  "handshake_response acceptKey subprotocol =
     ''HTTP/1.1 101 Switching Protocols'' @ crlf @ ''Upgrade: websocket'' @ crlf @ ''Connection: Upgrade'' @ crlf @
     ''Sec-WebSocket-Accept: '' @ acceptKey @ crlf @
     (if subprotocol \<noteq> [] then ''Sec-WebSocket-Protocol: '' @ subprotocol @ crlf else []) @ crlf"

definition writeWebSocketHandshake :: "conn \<Rightarrow> string \<Rightarrow> string \<Rightarrow> go_error option \<times> conn" where
  "writeWebSocketHandshake c acceptKey subprotocol = conn_Write c (string_bytes (handshake_response acceptKey subprotocol))"

section \<open>The handlers\<close>

record connectionStats =
  cs_sessionID :: "64 word"
  cs_backendAddr :: string
  cs_serverType :: int
  cs_worldID :: int
  cs_bytesIn :: int
  cs_bytesOut :: int
  cs_status :: string
  cs_errorMsg :: string

definition set_status :: "string \<Rightarrow> string \<Rightarrow> connectionStats \<Rightarrow> connectionStats" where
  "set_status status msg st = st\<lparr>cs_status := status, cs_errorMsg := msg\<rparr>"

abbreviation text_plain :: string where "text_plain \<equiv> ''text/plain; charset=utf-8''"

text \<open>Answering on the connection under the buffered reader; the error of the write is ignored.\<close>

definition respond :: "http_status \<Rightarrow> string \<Rightarrow> (string, string) gomap \<Rightarrow> conn bufio \<Rightarrow> conn bufio" where
  "respond status body extra b = b\<lparr>bf_rd := snd (writeHTTPResponse (bf_rd b) status text_plain body extra)\<rparr>"

text \<open>
  How a handler ends: the connection was refused and is done with, or the adapter goes on to
  the packet handler.
\<close>

datatype ws_outcome = Refused "conn bufio" | Bridged WebSocketConn

type_synonym read_request = "conn bufio \<Rightarrow> Request res \<times> conn bufio"

definition handleWebSocketConnection ::
  "read_request \<Rightarrow> int \<Rightarrow> conn bufio \<Rightarrow> Request option \<Rightarrow> connectionStats \<Rightarrow> ws_outcome res \<times> connectionStats" where
  "handleWebSocketConnection ReadRequest maxMessageSize b0 req0 st =
     (case (case req0 of Some req \<Rightarrow> (Ok req, b0) | None \<Rightarrow> ReadRequest b0) of
        (Panic m, b) \<Rightarrow> (Panic m, st)
      | (Err e, b) \<Rightarrow>
          (Ok (Refused (respond StatusBadRequest (''Malformed WebSocket handshake'' @ nl) [] b)),
           set_status ''rejected'' ''malformed websocket handshake'' st)
      | (Ok req, b) \<Rightarrow>
          if \<not> isWebSocketRequest req then
            (Ok (Refused (respond StatusBadRequest (''Invalid WebSocket upgrade request'' @ nl) [] b)),
             set_status ''rejected'' ''invalid websocket upgrade'' st)
          else
            (case computeWebSocketAcceptKey (Header_Get (Header req) ''Sec-WebSocket-Key'') of
               Panic m \<Rightarrow> (Panic m, st)
             | Err e \<Rightarrow>
                 (Ok (Refused (respond StatusBadRequest (''Invalid WebSocket key'' @ nl) [] b)),
                  set_status ''rejected'' ''invalid websocket key'' st)
             | Ok acceptKey \<Rightarrow>
                 let subprotocol = selectWebSocketSubprotocol (Header_Values (Header req) ''Sec-WebSocket-Protocol'')
                 in case writeWebSocketHandshake (bf_rd b) acceptKey subprotocol of
                      (Some e, c) \<Rightarrow> (Ok (Refused (b\<lparr>bf_rd := c\<rparr>)), set_status ''error'' ''handshake write failed'' st)
                    | (None, c) \<Rightarrow> (Ok (Bridged (NewWebSocketConn (b\<lparr>bf_rd := c\<rparr>) maxMessageSize)), st)))"

definition handleHTTPConnection ::
  "read_request \<Rightarrow> int \<Rightarrow> conn bufio \<Rightarrow> connectionStats \<Rightarrow> ws_outcome res \<times> connectionStats" where
  "handleHTTPConnection ReadRequest maxMessageSize b0 st =
     (case ReadRequest b0 of
        (Panic m, b) \<Rightarrow> (Panic m, st)
      | (Err e, b) \<Rightarrow>
          (Ok (Refused (respond StatusBadRequest (''Malformed HTTP request'' @ nl) [] b)),
           set_status ''rejected'' ''malformed http request'' st)
      | (Ok req, b) \<Rightarrow>
          if isWebSocketUpgrade req then handleWebSocketConnection ReadRequest maxMessageSize b (Some req) st
          else
            (Ok (Refused (respond StatusUpgradeRequired
                   (''Unsupported protocol. Gateway expects WebSocket or TCP payloads.'' @ nl)
                   [(''Connection'', ''close'')] b)),
             set_status ''rejected'' ''unsupported protocol (http)'' st))"

section \<open>Outcome of an upgrade\<close>

lemma accept_key_ok:
  assumes "isWebSocketRequest req"
  shows "computeWebSocketAcceptKey (Header_Get (Header req) ''Sec-WebSocket-Key'') =
    Ok (base64_EncodeToString (sha1_Sum (string_bytes (TrimSpace (Header_Get (Header req) ''Sec-WebSocket-Key'') @ websocketGUID))))"
  using assms by (simp add: isWebSocketRequest_def computeWebSocketAcceptKey_def Let_def split: if_splits)

text \<open>A connection that takes everything written to it.\<close>

definition writable :: "conn \<Rightarrow> bool" where
  "writable c \<longleftrightarrow> \<not> cclosed c \<and> croom c = None"

lemma conn_content_cout [simp]: "conn_content (c\<lparr>cout := x\<rparr>) = conn_content c" "conn_ending (c\<lparr>cout := x\<rparr>) = conn_ending c"
  by (simp_all add: conn_content_def conn_ending_def)

text \<open>The bytes of the 101 response to a request.\<close>

definition upgrade_bytes :: "Request \<Rightarrow> bytes" where
  "upgrade_bytes req = string_bytes (handshake_response
     (base64_EncodeToString (sha1_Sum (string_bytes (TrimSpace (Header_Get (Header req) ''Sec-WebSocket-Key'') @ websocketGUID))))
     (selectWebSocketSubprotocol (Header_Values (Header req) ''Sec-WebSocket-Protocol'')))"

lemma upgrade_accepted:
  assumes "ReadRequest b0 = (Ok req, b)" and "isWebSocketRequest req" and "writable (bf_rd b)"
  shows "handleWebSocketConnection ReadRequest n b0 None st =
    (Ok (Bridged (NewWebSocketConn (b\<lparr>bf_rd := (bf_rd b)\<lparr>cout := cout (bf_rd b) @ upgrade_bytes req\<rparr>\<rparr>) n)), st)"
  using assms
  by (simp add: handleWebSocketConnection_def accept_key_ok writeWebSocketHandshake_def conn_Write_open
      writable_def upgrade_bytes_def Let_def)

lemma upgrade_refused:
  assumes "ReadRequest b0 = (Ok req, b)" and "\<not> isWebSocketRequest req" and "writable (bf_rd b)"
  shows "handleWebSocketConnection ReadRequest n b0 None st =
    (Ok (Refused (b\<lparr>bf_rd := (bf_rd b)\<lparr>cout := cout (bf_rd b) @
       string_bytes (http_response StatusBadRequest text_plain (''Invalid WebSocket upgrade request'' @ nl) [])\<rparr>\<rparr>)),
     set_status ''rejected'' ''invalid websocket upgrade'' st)"
  using assms
  by (simp add: handleWebSocketConnection_def respond_def writeHTTPResponse_def conn_Write_open writable_def)


text \<open>A request for an upgrade, already parsed; the stream that follows it is empty.\<close>

definition sample_request :: Request where
  "sample_request = \<lparr>Method = ''GET'', Header = [(''Upgrade'', [''websocket'']), (''Connection'', [''keep-alive, Upgrade'']),
     (''Sec-Websocket-Key'', [''dGhlIHNhbXBsZSBub25jZQ=='']), (''Sec-Websocket-Version'', [''13''])]\<rparr>"

lemma sample_request_ok: "isWebSocketRequest sample_request"
  by code_simp

definition sample_stats :: connectionStats where
  "sample_stats = \<lparr>cs_sessionID = 0, cs_backendAddr = [], cs_serverType = 0, cs_worldID = 0, cs_bytesIn = 0,
     cs_bytesOut = 0, cs_status = ''closed'', cs_errorMsg = []\<rparr>"


end
