(* ===== verification/Discovery.thy ===== *)
theory Discovery
  imports Router Config
begin

text \<open>
  Where routing rules come from: \<open>internal/consul/discovery.go\<close> (instances by world), the
  callbacks of \<open>internal/gateway/gateway.go\<close> that store the rules loaded from Redis and merge
  the Consul endpoints into them, and the refresh loops of both clients.  The HTTP exchange
  with Consul and the Redis server are parameters: their outcomes are inputs.
\<close>

section \<open>Integers from text\<close>

definition is_digit :: "char \<Rightarrow> bool" where
  "is_digit c \<longleftrightarrow> (let n = of_char c :: nat in 48 \<le> n \<and> n \<le> 57)"

definition digits_value :: "string \<Rightarrow> nat" where
  "digits_value s = foldl (\<lambda>n c. 10 * n + (of_char c - 48)) 0 s"

text \<open>\<open>strconv.Atoi\<close>: an optional sign, digits, and a value that fits in 64 bits.\<close>

definition Atoi :: "string \<Rightarrow> int option" where
  "Atoi s =
     (let (neg, ds) = (case s of
            c # cs \<Rightarrow> if c = CHR ''-'' then (True, cs) else if c = CHR ''+'' then (False, cs) else (False, s)
          | [] \<Rightarrow> (False, []));
          v = (if neg then - int (digits_value ds) else int (digits_value ds))
      in if ds \<noteq> [] \<and> list_all is_digit ds \<and> - (2 ^ 63) \<le> v \<and> v < 2 ^ 63 then Some v else None)"

section \<open>Consul\<close>

record ServiceEntry =
  se_Address :: string
  se_Port :: int
  se_Meta :: "(string, string) gomap"

text \<open>The client: address and interval; and the address of a query.\<close>

record ConsulDiscovery =
  consulAddress :: string
  cd_refreshInterval :: duration

definition NewDiscovery :: "string \<Rightarrow> duration \<Rightarrow> ConsulDiscovery" where
  "NewDiscovery addr interval = \<lparr>consulAddress = addr, cd_refreshInterval = interval\<rparr>"

definition consul_url :: "ConsulDiscovery \<Rightarrow> string \<Rightarrow> string" where
  "consul_url d serviceName = consulAddress d @ ''/v1/health/service/'' @ serviceName @ ''?passing=true''"

text \<open>What the exchange with Consul can give.\<close>

datatype consul_reply =
    BadRequest go_error
  | Unreachable go_error
  | BadStatus int string
  | Undecodable go_error
  | Decoded "ServiceEntry list"

definition meta :: "ServiceEntry \<Rightarrow> string \<Rightarrow> string" where
  "meta e k = (case gomap_get (se_Meta e) k of None \<Rightarrow> [] | Some v \<Rightarrow> v)"

text \<open>The body of the loop over the instances: the world of an instance that is kept.\<close>

definition instance_world :: "string \<Rightarrow> ServiceEntry \<Rightarrow> int option" where
  "instance_world namespace e =
     (let serviceNamespace = (if meta e ''namespace'' = [] then meta e ''pod_namespace'' else meta e ''namespace'')
      in if namespace \<noteq> [] \<and> serviceNamespace \<noteq> namespace then None
         else if meta e ''world_id'' = [] then None
         else Atoi (meta e ''world_id''))"

type_synonym services = "(int, ServiceEntry list) gomap"

fun group_services :: "string \<Rightarrow> ServiceEntry list \<Rightarrow> services \<Rightarrow> services" where
  "group_services namespace [] result = result"
| "group_services namespace (e # es) result =
     (case instance_world namespace e of
        None \<Rightarrow> group_services namespace es result
      | Some worldID \<Rightarrow>
          group_services namespace es
            (gomap_put worldID ((case gomap_get result worldID of None \<Rightarrow> [] | Some l \<Rightarrow> l) @ [e]) result))"

definition DiscoverServices :: "consul_reply \<Rightarrow> string \<Rightarrow> services res" where
  "DiscoverServices reply namespace =
     (case reply of
        BadRequest e \<Rightarrow> Err (Errorf ''failed to create request: '' (Some e))
      | Unreachable e \<Rightarrow> Err (Errorf ''failed to query Consul: '' (Some e))
      | BadStatus code body \<Rightarrow> Err (Errorf (''consul API returned status '' @ dec_int code @ '': '' @ body) None)
      | Undecodable e \<Rightarrow> Err (Errorf ''failed to decode response: '' (Some e))
      | Decoded entries \<Rightarrow> Ok (group_services namespace entries []))"

section \<open>Rules from Redis and Consul\<close>

record routing_state =
  routingConfigs :: "(string, RoutingRule) gomap"
  rs_router :: Router

text \<open>A rule of the map loaded from Redis is a pointer, nil for a JSON \<open>null\<close>.\<close>

type_synonym redis_rules = "(int, RoutingRule option) gomap"

definition configKey :: "RoutingRule \<Rightarrow> string" where
  "configKey rule = dec_int (ServerType rule) @ '':'' @ dec_int (rule_WorldID rule)"

text \<open>The copy without endpoints and its place in the map.\<close>

fun store_configs :: "redis_rules \<Rightarrow> (string, RoutingRule) gomap \<Rightarrow> (string, RoutingRule) gomap res" where
  "store_configs [] configs = Ok configs"
| "store_configs ((k, None) # rs) configs = Panic ''nil pointer dereference''"
| "store_configs ((k, Some rule) # rs) configs =
     store_configs rs (gomap_put (configKey rule) (rule\<lparr>Endpoints := []\<rparr>) configs)"

fun update_rules :: "redis_rules \<Rightarrow> Router \<Rightarrow> Router" where
  "update_rules [] r = r"
| "update_rules ((k, None) # rs) r = update_rules rs r"
| "update_rules ((k, Some rule) # rs) r = update_rules rs (UpdateRule rule r)"

definition endpoint_of :: "ServiceEntry \<Rightarrow> string" where
  "endpoint_of e = se_Address e @ '':'' @ dec_int (se_Port e)"

text \<open>The test of a stored configuration against a world and the service name of Consul.\<close>

definition config_matches :: "string \<Rightarrow> int \<Rightarrow> RoutingRule \<Rightarrow> bool" where
  "config_matches svc worldID c \<longleftrightarrow>
     (rule_WorldID c = worldID \<or> (rule_WorldID c = 0 \<and> 0 < worldID)) \<and> (ServiceName c = [] \<or> ServiceName c = svc)"

definition merged_rule :: "int \<Rightarrow> string list \<Rightarrow> RoutingRule \<Rightarrow> RoutingRule" where
  "merged_rule worldID endpoints c = c\<lparr>rule_WorldID := worldID, Endpoints := endpoints\<rparr>"

definition default_rule :: "string \<Rightarrow> int \<Rightarrow> string list \<Rightarrow> RoutingRule" where
  "default_rule svc worldID endpoints =
     \<lparr>ServerType = 200, ServiceName = svc, Strategy = StrategyRoundRobin, Endpoints = endpoints,
      HashKey = [], rule_WorldID = worldID\<rparr>"

text \<open>The inner loop, with the flag \<open>matched\<close>.\<close>

fun merge_configs :: "string \<Rightarrow> int \<Rightarrow> string list \<Rightarrow> (string, RoutingRule) gomap \<Rightarrow> bool \<times> Router \<Rightarrow> bool \<times> Router" where
  "merge_configs svc worldID endpoints [] mr = mr"
| "merge_configs svc worldID endpoints ((k, c) # cs) mr =
     merge_configs svc worldID endpoints cs
       (if config_matches svc worldID c then (True, UpdateRule (merged_rule worldID endpoints c) (snd mr)) else mr)"

definition merge_world :: "string \<Rightarrow> (string, RoutingRule) gomap \<Rightarrow> int \<Rightarrow> ServiceEntry list \<Rightarrow> Router \<Rightarrow> Router" where
  "merge_world svc configs worldID entries r =
     (if entries = [] then r
      else let endpoints = map endpoint_of entries
        in case merge_configs svc worldID endpoints configs (False, r) of
             (matched, r') \<Rightarrow> if matched then r' else UpdateRule (default_rule svc worldID endpoints) r')"

fun mergeConsulEndpoints :: "string \<Rightarrow> (string, RoutingRule) gomap \<Rightarrow> services \<Rightarrow> Router \<Rightarrow> Router" where
  "mergeConsulEndpoints svc configs [] r = r"
| "mergeConsulEndpoints svc configs ((worldID, entries) # ss) r =
     mergeConsulEndpoints svc configs ss (merge_world svc configs worldID entries r)"

text \<open>\<open>onConsulServicesUpdate\<close>: \<open>None\<close> is the nil map.\<close>

definition onConsulServicesUpdate :: "ConsulConfig \<Rightarrow> services option \<Rightarrow> routing_state \<Rightarrow> routing_state" where
  "onConsulServicesUpdate cfg svcs s =
     (case svcs of
        None \<Rightarrow> s
      | Some m \<Rightarrow> s\<lparr>rs_router := mergeConsulEndpoints (consul_ServiceName cfg) (routingConfigs s) m (rs_router s)\<rparr>)"

text \<open>
  \<open>onRoutingRulesUpdate\<close>.  \<open>discovery\<close> says whether there is a Consul client, \<open>reply\<close> what
  Consul answers to the refresh it triggers.
\<close>

definition onRoutingRulesUpdate :: "ConsulConfig \<Rightarrow> bool \<Rightarrow> consul_reply \<Rightarrow> redis_rules option \<Rightarrow> routing_state \<Rightarrow> routing_state res" where
  "onRoutingRulesUpdate cfg discovery reply rules0 s =
     (case rules0 of
        None \<Rightarrow> Ok s
      | Some rs \<Rightarrow>
          (case store_configs rs (routingConfigs s) of
             Panic m \<Rightarrow> Panic m
           | Err e \<Rightarrow> Err e
           | Ok configs \<Rightarrow>
               let s1 = s\<lparr>routingConfigs := configs\<rparr>
               in if Enabled cfg \<and> discovery then
                    (case DiscoverServices reply (Namespace cfg) of
                       Ok svcs \<Rightarrow> Ok (s1\<lparr>rs_router := mergeConsulEndpoints (consul_ServiceName cfg) configs svcs (rs_router s)\<rparr>)
                     | _ \<Rightarrow> Ok s1)
                  else Ok (s1\<lparr>rs_router := update_rules rs (rs_router s)\<rparr>)))"

definition loadConfigFromRedis :: "ConsulConfig \<Rightarrow> redis_rules res \<Rightarrow> routing_state \<Rightarrow> go_error option \<times> routing_state res" where
  "loadConfigFromRedis cfg loaded s =
     (case loaded of
        Err e \<Rightarrow> (Some (Errorf ''failed to load routing rules: '' (Some e)), Ok s)
      | Panic m \<Rightarrow> (None, Panic m)
      | Ok rs \<Rightarrow>
          (case store_configs rs (routingConfigs s) of
             Panic m \<Rightarrow> (None, Panic m)
           | Err e \<Rightarrow> (Some e, Ok s)
           | Ok configs \<Rightarrow>
               (None, Ok (if \<not> Enabled cfg
                  then s\<lparr>routingConfigs := configs, rs_router := update_rules rs (rs_router s)\<rparr>
                  else s\<lparr>routingConfigs := configs\<rparr>))))"

section \<open>Loading and refreshing\<close>

text \<open>The answer of Redis to the read of the rules; \<open>parse\<close> is the JSON decoder.\<close>

datatype redis_reply = RedisNil | RedisErr go_error | RedisData string

definition LoadRoutingRules :: "(string \<Rightarrow> redis_rules option res) \<Rightarrow> redis_reply \<Rightarrow> redis_rules option res" where
  "LoadRoutingRules parse reply =
     (case reply of
        RedisNil \<Rightarrow> Ok None
      | RedisErr e \<Rightarrow> Err (Errorf ''failed to load routing rules: '' (Some e))
      | RedisData data \<Rightarrow>
          (case parse data of
             Ok rs \<Rightarrow> Ok rs
           | Err e \<Rightarrow> Err (Errorf ''failed to parse routing rules: '' (Some e))
           | Panic m \<Rightarrow> Panic m))"

text \<open>
  \<open>RefreshLoop\<close>, the part for the rules: at each tick a failed load or an absent map is
  skipped, and a panic of the callback ends the process.
\<close>

fun RefreshLoop :: "ConsulConfig \<Rightarrow> bool \<Rightarrow> (redis_rules option res \<times> consul_reply) list \<Rightarrow> routing_state \<Rightarrow> routing_state res" where
  "RefreshLoop cfg discovery [] s = Ok s"
| "RefreshLoop cfg discovery ((Ok (Some rs), reply) # ticks) s =
     (case onRoutingRulesUpdate cfg discovery reply (Some rs) s of
        Ok s' \<Rightarrow> RefreshLoop cfg discovery ticks s'
      | Err e \<Rightarrow> Err e
      | Panic m \<Rightarrow> Panic m)"
| "RefreshLoop cfg discovery ((Panic m, reply) # ticks) s = Panic m"
| "RefreshLoop cfg discovery (_ # ticks) s = RefreshLoop cfg discovery ticks s"

text \<open>\<open>StartRefreshLoop\<close> of Consul: the first discovery and those of the ticks.\<close>

fun StartRefreshLoop :: "ConsulConfig \<Rightarrow> consul_reply list \<Rightarrow> routing_state \<Rightarrow> routing_state" where
  "StartRefreshLoop cfg [] s = s"
| "StartRefreshLoop cfg (reply # replies) s =
     StartRefreshLoop cfg replies
       (case DiscoverServices reply (Namespace cfg) of
          Ok svcs \<Rightarrow> onConsulServicesUpdate cfg (Some svcs) s
        | _ \<Rightarrow> s)"

section \<open>Decimal round trip\<close>

lemma is_digit_digit_char [simp]: "d < 10 \<Longrightarrow> is_digit (digit_char d)"
  by (simp add: is_digit_def digit_char_def)

lemma digits_value_snoc: "digits_value (s @ [c]) = 10 * digits_value s + (of_char c - 48)"
  by (simp add: digits_value_def)

lemma digits_value_dec_nat [simp]: "digits_value (dec_nat n) = n"
proof (induction n rule: dec_nat.induct)
  case (1 n)
  show ?case
  proof (cases "n < 10")
    case True
    then show ?thesis by (simp add: dec_nat.simps [of n] digits_value_def digit_char_def)
  next
    case False
    have "digits_value (dec_nat n) = 10 * digits_value (dec_nat (n div 10)) + (of_char (digit_char (n mod 10)) - 48)"
      using False by (simp add: dec_nat.simps [of n] digits_value_snoc)
    also have "of_char (digit_char (n mod 10)) - 48 = n mod 10" by (simp add: digit_char_def)
    finally show ?thesis using "1.IH" [OF False] by simp
  qed
qed

lemma dec_nat_digits: "list_all is_digit (dec_nat n)"
  by (auto simp: list_all_iff dest!: dec_nat_chars)

lemma dec_nat_first: "dec_nat n = c # cs \<Longrightarrow> c \<noteq> CHR ''-'' \<and> c \<noteq> CHR ''+''"
proof -
  assume "dec_nat n = c # cs"
  then have "is_digit c" using dec_nat_digits [of n] by simp
  then show ?thesis by (auto simp: is_digit_def)
qed

lemma Atoi_dec_int:
  assumes "- (2 ^ 63) \<le> i" and "i < 2 ^ 63"
  shows "Atoi (dec_int i) = Some i"
proof (cases "i < 0")
  case True
  then show ?thesis using assms dec_nat_digits [of "nat (- i)"] by (simp add: Atoi_def dec_int_def)
next
  case False
  then obtain c cs where "dec_nat (nat i) = c # cs" by (cases "dec_nat (nat i)") auto
  with False show ?thesis using assms dec_nat_digits [of "nat i"] dec_nat_first [of "nat i" c cs]
      digits_value_dec_nat [of "nat i"]
    by (simp add: Atoi_def dec_int_def)
qed

section \<open>Grouping of instances\<close>

definition of_world :: "string \<Rightarrow> int \<Rightarrow> ServiceEntry list \<Rightarrow> ServiceEntry list" where
  "of_world namespace w es = filter (\<lambda>e. instance_world namespace e = Some w) es"

lemma group_services_get:
  "gomap_ok result \<Longrightarrow> gomap_ok (group_services ns es result) \<and>
     gomap_get (group_services ns es result) w =
       (if of_world ns w es = [] then gomap_get result w
        else Some ((case gomap_get result w of None \<Rightarrow> [] | Some l \<Rightarrow> l) @ of_world ns w es))"
proof (induction ns es result rule: group_services.induct)
  case (1 ns result)
  then show ?case by (simp add: of_world_def)
next
  case (2 ns e es result)
  show ?case
  proof (cases "instance_world ns e")
    case None
    then show ?thesis using 2 by (simp add: of_world_def)
  next
    case (Some v)
    then show ?thesis using "2.IH"(2) [OF Some] "2.prems" by (auto simp: of_world_def)
  qed
qed

text \<open>
  Discovery groups the healthy instances by world: the entry of a world is the list, in
  Consul's order, of exactly the instances of the namespace asked for whose \<open>world_id\<close> is
  that number in decimal, and a world without such an instance has no entry.
\<close>

theorem DiscoverServices_groups:
  "\<exists>svcs. DiscoverServices (Decoded es) namespace = Ok svcs \<and> gomap_ok svcs \<and>
    gomap_get svcs w = (if of_world namespace w es = [] then None else Some (of_world namespace w es)) \<and>
    (\<forall>e. - (2 ^ 63) \<le> w \<and> w < 2 ^ 63 \<and> meta e ''world_id'' = dec_int w \<and> (namespace = [] \<or> meta e ''namespace'' = namespace) \<longrightarrow>
       instance_world namespace e = Some w)"
  using group_services_get [of "[]" namespace es w] dec_int_nonempty [of w]
  by (auto simp: DiscoverServices_def instance_world_def Atoi_dec_int Let_def)

theorem DiscoverServices_groups_witness:
  "\<exists>svcs. DiscoverServices (Decoded [\<lparr>se_Address = ''10.0.0.1'', se_Port = 7, se_Meta = [(''world_id'', ''12'')]\<rparr>]) [] = Ok svcs \<and>
     gomap_get svcs 12 = Some [\<lparr>se_Address = ''10.0.0.1'', se_Port = 7, se_Meta = [(''world_id'', ''12'')]\<rparr>]"
proof -
  let ?e = "\<lparr>se_Address = ''10.0.0.1'', se_Port = 7, se_Meta = [(''world_id'', ''12'')]\<rparr>"
  have "dec_int 12 = ''12''" by code_simp
  then have "instance_world [] ?e = Some 12"
    using DiscoverServices_groups [of "[?e]" "[]" 12] by (auto simp: meta_def gomap_get_def)
  then have "of_world [] 12 [?e] = [?e]" by (simp add: of_world_def)
  then show ?thesis using DiscoverServices_groups [of "[?e]" "[]" 12] by auto
qed

section \<open>Merging\<close>

text \<open>The rule stored for exactly this server type and world.\<close>

definition exact_rule :: "Router \<Rightarrow> int \<Rightarrow> int \<Rightarrow> RoutingRule option" where
  "exact_rule r t w = gomap_get (rules r) (makeRuleKey t w)"

lemma exact_update:
  "exact_rule (UpdateRule rule r) t w =
     (if t = ServerType rule \<and> max w 0 = max (rule_WorldID rule) 0 then Some rule else exact_rule r t w)"
  by (simp add: exact_rule_def UpdateRule_def makeRuleKey_eq)

definition matching :: "string \<Rightarrow> int \<Rightarrow> (string, RoutingRule) gomap \<Rightarrow> RoutingRule list" where
  "matching svc w cs = filter (config_matches svc w) (map snd cs)"

lemma merge_configs_matched: "fst (merge_configs svc w eps cs mr) \<longleftrightarrow> fst mr \<or> matching svc w cs \<noteq> []"
  by (induction svc w eps cs mr rule: merge_configs.induct) (auto simp: matching_def)

lemma merge_configs_other:
  "max w' 0 \<noteq> max w 0 \<Longrightarrow> exact_rule (snd (merge_configs svc w eps cs mr)) t w' = exact_rule (snd mr) t w'"
  by (induction svc w eps cs mr rule: merge_configs.induct) (auto simp: exact_update merged_rule_def)

text \<open>The entry of the merged world: the last matching configuration of the type, if any.\<close>

lemma merge_configs_world:
  "exact_rule (snd (merge_configs svc w eps cs mr)) t w =
     (case rev (filter (\<lambda>c. ServerType c = t) (matching svc w cs)) of
        [] \<Rightarrow> exact_rule (snd mr) t w
      | c # _ \<Rightarrow> Some (merged_rule w eps c))"
proof (induction svc w eps cs mr rule: merge_configs.induct)
  case (1 svc w eps mr)
  then show ?case by (simp add: matching_def)
next
  case (2 svc w eps k c cs mr)
  then show ?case
    by (auto simp: matching_def exact_update merged_rule_def split: list.split)
qed

lemma merge_world_other:
  "max w' 0 \<noteq> max w 0 \<Longrightarrow> exact_rule (merge_world svc cs w es r) t w' = exact_rule r t w'"
  using merge_configs_other [of w' w svc "map endpoint_of es" cs "(False, r)" t]
  by (auto simp: merge_world_def exact_update default_rule_def Let_def split: prod.split)

lemma merge_world_hit:
  assumes "es \<noteq> []"
  shows "exact_rule (merge_world svc cs w es r) t w =
    (case rev (filter (\<lambda>c. ServerType c = t) (matching svc w cs)) of
       c # _ \<Rightarrow> Some (merged_rule w (map endpoint_of es) c)
     | [] \<Rightarrow> if matching svc w cs = [] \<and> t = 200 then Some (default_rule svc w (map endpoint_of es)) else exact_rule r t w)"
proof (cases "merge_configs svc w (map endpoint_of es) cs (False, r)")
  case (Pair matched r')
  have m: "matched \<longleftrightarrow> matching svc w cs \<noteq> []"
    using merge_configs_matched [of svc w "map endpoint_of es" cs "(False, r)"] Pair by simp
  have e: "exact_rule r' t w = (case rev (filter (\<lambda>c. ServerType c = t) (matching svc w cs)) of
      [] \<Rightarrow> exact_rule r t w | c # _ \<Rightarrow> Some (merged_rule w (map endpoint_of es) c))"
    using merge_configs_world [of svc w "map endpoint_of es" cs "(False, r)" t, unfolded snd_conv] Pair by simp
  show ?thesis
  proof (cases "matching svc w cs = []")
    case True
    then show ?thesis using assms Pair m e by (simp add: merge_world_def exact_update default_rule_def)
  next
    case False
    then show ?thesis using assms Pair m e by (simp add: merge_world_def split: list.split)
  qed
qed

lemma merge_all:
  assumes "gomap_ok svcs" and "0 < w"
  shows "exact_rule (mergeConsulEndpoints svc cs svcs r) t w =
    (case gomap_get svcs w of
       None \<Rightarrow> exact_rule r t w
     | Some es \<Rightarrow> exact_rule (merge_world svc cs w es r) t w)"
  using assms(1)
proof (induction svc cs svcs r rule: mergeConsulEndpoints.induct)
  case (2 svc cs v es ss r)
  have ok: "gomap_ok ss" "v \<notin> fst ` set ss" using "2.prems" by (simp_all add: gomap_ok_def)
  show ?case
  proof (cases "v = w")
    case True
    then have "gomap_get ss w = None" using ok(2) by (simp add: gomap_get_None)
    with "2.IH" [OF ok(1)] True show ?thesis by (simp add: gomap_get_def)
  next
    case False
    then have "max w 0 \<noteq> max v 0" using assms(2) by (auto simp: max_def)
    note other = merge_world_other [OF this, of svc cs es r t]
    have "exact_rule (merge_world svc cs w es' (merge_world svc cs v es r)) t w = exact_rule (merge_world svc cs w es' r) t w"
      if "es' \<noteq> []" for es'
      using that other by (simp add: merge_world_hit split: list.split)
    then have "exact_rule (merge_world svc cs w es' (merge_world svc cs v es r)) t w = exact_rule (merge_world svc cs w es' r) t w" for es'
      using other by (cases "es' = []") (simp_all add: merge_world_def)
    with "2.IH" [OF ok(1)] False other show ?thesis by (simp add: gomap_get_def split: option.split)
  qed
qed simp



end
