(* ===== verification/GrpcTransport.thy ===== *)
theory GrpcTransport
  imports GatewayPrelude
begin

text \<open>
  \<open>internal/transport/grpc/manager.go\<close>: one gRPC stream per backend address.  Clients are
  objects in a heap, the \<open>sync.Map\<close> maps addresses to references with its atomic
  operations, and the goroutines started in the background are recorded.  What the gRPC
  library answers to an attempt to connect or to a send is an input.
\<close>

section \<open>State\<close>

type_synonym grpc_conn = nat
type_synonym grpc_stream = nat
type_synonym client_ref = nat

record Client =
  cl_conn :: grpc_conn
  cl_stream :: grpc_stream
  reconnectAttempts :: int

datatype goroutine = RecvLoop string client_ref | Reconnect string

record grpc_manager =
  clients :: "(string, client_ref) gomap"
  gm_gatewayName :: string
  gm_keepaliveTime :: duration
  gm_reconnectInterval :: duration
  maxReconnectAttempts :: int
  ctx_done :: bool
  gobj :: "client_ref \<Rightarrow> Client"
  gnext :: client_ref
  closed_conns :: "grpc_conn list"
  cancelled :: "grpc_stream list"
  spawned :: "goroutine list"

text \<open>The packet handler of the manager is an argument of \<open>recvLoop\<close>, its only user.\<close>

definition NewGrpcManager :: "string \<Rightarrow> duration \<Rightarrow> duration \<Rightarrow> int \<Rightarrow> grpc_manager" where
  "NewGrpcManager gatewayName keepaliveTime interval maxAttempts =
     \<lparr>clients = [], gm_gatewayName = gatewayName, gm_keepaliveTime = keepaliveTime,
      gm_reconnectInterval = interval, maxReconnectAttempts = maxAttempts, ctx_done = False,
      gobj = (\<lambda>_. \<lparr>cl_conn = 0, cl_stream = 0, reconnectAttempts = 0\<rparr>), gnext = 0, closed_conns = [],
      cancelled = [], spawned = []\<rparr>"

definition close_client :: "client_ref \<Rightarrow> grpc_manager \<Rightarrow> grpc_manager" where
  "close_client c m = m\<lparr>closed_conns := closed_conns m @ [cl_conn (gobj m c)],
     cancelled := cancelled m @ [cl_stream (gobj m c)]\<rparr>"

definition spawn :: "goroutine \<Rightarrow> grpc_manager \<Rightarrow> grpc_manager" where
  "spawn g m = m\<lparr>spawned := spawned m @ [g]\<rparr>"

text \<open>\<open>sync.Map.CompareAndDelete\<close>\<close>

definition CompareAndDelete :: "string \<Rightarrow> client_ref \<Rightarrow> grpc_manager \<Rightarrow> bool \<times> grpc_manager" where
  "CompareAndDelete addr c m =
     (if gomap_get (clients m) addr = Some c then (True, m\<lparr>clients := gomap_del addr (clients m)\<rparr>) else (False, m))"

section \<open>Connecting\<close>

datatype connect_attempt =
    NewClientFails go_error
  | StreamFails grpc_conn go_error
  | Connected grpc_conn grpc_stream

text \<open>
  The loop of at most three attempts, from attempt \<open>i\<close>: the connection and stream or the
  last error, the connections closed and the waits made.
\<close>

abbreviation maxRetries :: nat where "maxRetries \<equiv> 3"

function connect_loop :: "(nat \<Rightarrow> connect_attempt) \<Rightarrow> nat \<Rightarrow> go_error option \<Rightarrow>
    (grpc_conn \<times> grpc_stream) option \<times> go_error option \<times> grpc_conn list \<times> duration list" where
  "connect_loop out i err =
     (if \<not> i < maxRetries then (None, err, [], [])
      else
        let sleeps = (if 0 < i then [100 * 2 ^ (i - 1) * millisecond] else [])
        in case out i of
             NewClientFails e \<Rightarrow>
               (case connect_loop out (Suc i) (Some e) of (r, e', cl, sl) \<Rightarrow> (r, e', cl, sleeps @ sl))
           | StreamFails c e \<Rightarrow>
               (case connect_loop out (Suc i) (Some e) of (r, e', cl, sl) \<Rightarrow> (r, e', c # cl, sleeps @ sl))
           | Connected c s \<Rightarrow> (Some (c, s), None, [], sleeps))"
  by pat_completeness auto
termination
  by (relation "measure (\<lambda>(out, i, err). maxRetries - i)") auto

declare connect_loop.simps [simp del]

text \<open>The fast path of \<open>getClient\<close>.\<close>

definition get_load :: "string \<Rightarrow> grpc_manager \<Rightarrow> client_ref option" where
  "get_load addr m = gomap_get (clients m) addr"

text \<open>The slow path up to the start of the receiving goroutine.\<close>

definition get_connect :: "string \<Rightarrow> (nat \<Rightarrow> connect_attempt) \<Rightarrow> grpc_manager \<Rightarrow> client_ref res \<times> grpc_manager" where
  "get_connect addr out m =
     (case connect_loop out 0 None of
        (Some (c, s), err, cl, sl) \<Rightarrow>
          let r = gnext m
          in (Ok r, spawn (RecvLoop addr r)
                (m\<lparr>closed_conns := closed_conns m @ cl,
                   gobj := (gobj m)(r := \<lparr>cl_conn = c, cl_stream = s, reconnectAttempts = 0\<rparr>),
                   gnext := gnext m + 1\<rparr>))
      | (None, err, cl, sl) \<Rightarrow>
          (Err (Errorf (''failed to create stream to '' @ addr @ '' after '' @ dec_nat maxRetries @ '' attempts: '') err),
           m\<lparr>closed_conns := closed_conns m @ cl\<rparr>))"

text \<open>\<open>LoadOrStore\<close> and what follows it.\<close>

definition get_store :: "string \<Rightarrow> client_ref \<Rightarrow> grpc_manager \<Rightarrow> client_ref \<times> grpc_manager" where
  "get_store addr r m =
     (case gomap_get (clients m) addr of
        Some existing \<Rightarrow> (existing, close_client r m)
      | None \<Rightarrow> (r, m\<lparr>clients := gomap_put addr r (clients m)\<rparr>))"

definition getClient :: "string \<Rightarrow> (nat \<Rightarrow> connect_attempt) \<Rightarrow> grpc_manager \<Rightarrow> client_ref res \<times> grpc_manager" where
  "getClient addr out m =
     (case get_load addr m of
        Some c \<Rightarrow> (Ok c, m)
      | None \<Rightarrow>
          (case get_connect addr out m of
             (Ok r, m') \<Rightarrow> (case get_store addr r m' of (c, m'') \<Rightarrow> (Ok c, m''))
           | (Err e, m') \<Rightarrow> (Err e, m')
           | (Panic s, m') \<Rightarrow> (Panic s, m')))"

section \<open>Sending, receiving, reconnecting\<close>

text \<open>\<open>Send\<close>; \<open>sent\<close> is the error of \<open>stream.Send\<close>, if any.\<close>

definition Grpc_Send :: "string \<Rightarrow> (nat \<Rightarrow> connect_attempt) \<Rightarrow> go_error option \<Rightarrow> grpc_manager \<Rightarrow> go_error option \<times> grpc_manager" where
  "Grpc_Send addr out sent m =
     (case getClient addr out m of
        (Err e, m') \<Rightarrow> (Some e, m')
      | (Panic s, m') \<Rightarrow> (Some (ErrIO s), m')
      | (Ok c, m') \<Rightarrow>
          (case sent of
             None \<Rightarrow> (None, m')
           | Some e \<Rightarrow>
               (Some (Errorf ''send failed: '' (Some e)),
                case CompareAndDelete addr c m' of
                  (True, m'') \<Rightarrow> spawn (Reconnect addr) (close_client c m'')
                | (False, m'') \<Rightarrow> m'')))"

text \<open>The deferred part of \<open>recvLoop\<close>, when its stream has ended.\<close>

definition recvLoop_exit :: "string \<Rightarrow> client_ref \<Rightarrow> grpc_manager \<Rightarrow> grpc_manager" where
  "recvLoop_exit addr c m =
     (if gomap_get (clients m) addr = Some c then
        (case CompareAndDelete addr c m of
           (True, m') \<Rightarrow> spawn (Reconnect addr) (close_client c m')
         | (False, m') \<Rightarrow> m')
      else m)"

text \<open>
  \<open>recvLoop\<close>: packets until the stream fails; the handler acts on a state of its own and a
  panic in it is recovered from.
\<close>

fun recvLoop :: "('p \<Rightarrow> 's \<Rightarrow> 's res) option \<Rightarrow> 'p list \<Rightarrow> 's \<Rightarrow> 's" where
  "recvLoop h [] s = s"
| "recvLoop None (p # ps) s = recvLoop None ps s"
| "recvLoop (Some f) (p # ps) s = recvLoop (Some f) ps (case f p s of Ok s' \<Rightarrow> s' | _ \<Rightarrow> s)"

text \<open>FNV-1a, 32 bits.\<close>

definition fnv32a :: "bytes \<Rightarrow> 32 word" where
  "fnv32a bs = fold (\<lambda>b h. (h XOR ucast b) * 16777619) bs 2166136261"

text \<open>
  The wait of \<open>reconnect\<close>: the capped base and the jitter of the address.  The base is
  computed in 64 bits.
\<close>

definition reconnect_backoff :: "string \<Rightarrow> int \<Rightarrow> grpc_manager \<Rightarrow> duration" where
  "reconnect_backoff addr att m =
     (let baseBackoff = sint (100 * push_bit (nat att) 1 * 1000000 :: 64 word);
          maxBackoff = gm_reconnectInterval m * 10;
          capped = (if maxBackoff < baseBackoff then maxBackoff else baseBackoff);
          jitterValue = int (unat (fnv32a (string_bytes addr)) mod 100) * millisecond
      in capped + jitterValue)"

text \<open>
  One run of \<open>reconnect\<close>: the wait it makes, if any, and the manager after it.  \<open>waited\<close> is
  \<open>False\<close> when the manager is shut down during the wait.
\<close>

definition reconnect :: "string \<Rightarrow> bool \<Rightarrow> (nat \<Rightarrow> connect_attempt) \<Rightarrow> grpc_manager \<Rightarrow> duration option \<times> grpc_manager" where
  "reconnect addr waited out m =
     (if gomap_get (clients m) addr \<noteq> None then (None, m)
      else
        let att = (case gomap_get (clients m) addr of Some c \<Rightarrow> reconnectAttempts (gobj m c) | None \<Rightarrow> 0);
            known = gomap_get (clients m) addr \<noteq> None
        in if known \<and> 0 < maxReconnectAttempts m \<and> maxReconnectAttempts m \<le> att then (None, m)
           else
             let wt = reconnect_backoff addr att m
             in if ctx_done m \<or> \<not> waited then (Some wt, m)
                else (case getClient addr out m of
                  (Ok c, m') \<Rightarrow>
                    (Some wt, case gomap_get (clients m') addr of
                        Some c' \<Rightarrow> m'\<lparr>gobj := (gobj m')(c' := (gobj m' c')\<lparr>reconnectAttempts := 0\<rparr>)\<rparr>
                      | None \<Rightarrow> m')
                | (_, m') \<Rightarrow>
                    (Some wt, spawn (Reconnect addr)
                       (case gomap_get (clients m') addr of
                          Some c' \<Rightarrow> m'\<lparr>gobj := (gobj m')(c' := (gobj m' c')\<lparr>reconnectAttempts := reconnectAttempts (gobj m' c') + 1\<rparr>)\<rparr>
                        | None \<Rightarrow> m'))))"

definition Grpc_Close :: "grpc_manager \<Rightarrow> grpc_manager" where
  "Grpc_Close m =
     (let m1 = m\<lparr>ctx_done := True\<rparr>;
          m2 = fold close_client (map snd (clients m1)) m1
      in m2\<lparr>clients := []\<rparr>)"

section \<open>No connection is lost\<close>

text \<open>
  Goroutines interleave between the atomic operations.  The set holds the clients that were
  connected and not yet offered to the map, with their address.
\<close>

inductive grpc_step :: "grpc_manager \<times> (string \<times> client_ref) set \<Rightarrow> grpc_manager \<times> (string \<times> client_ref) set \<Rightarrow> bool" where
  connect: "get_connect addr out m = (Ok r, m') \<Longrightarrow> grpc_step (m, P) (m', insert (addr, r) P)"
| connect_fails: "get_connect addr out m = (Err e, m') \<Longrightarrow> grpc_step (m, P) (m', P)"
| store: "(addr, r) \<in> P \<Longrightarrow> get_store addr r m = (c, m') \<Longrightarrow> grpc_step (m, P) (m', P - {(addr, r)})"
| stream_lost: "CompareAndDelete addr c m = (True, m') \<Longrightarrow>
    grpc_step (m, P) (spawn (Reconnect addr) (close_client c m'), P)"
| count_attempts: "grpc_step (m, P) (m\<lparr>gobj := (gobj m)(c := (gobj m c)\<lparr>reconnectAttempts := k\<rparr>)\<rparr>, P)"

inductive grpc_reachable :: "grpc_manager \<times> (string \<times> client_ref) set \<Rightarrow> bool" where
  grpc_start: "grpc_reachable (NewGrpcManager g t d k, {})"
| grpc_more: "grpc_reachable s \<Longrightarrow> grpc_step s s' \<Longrightarrow> grpc_reachable s'"

definition grpc_inv :: "grpc_manager \<times> (string \<times> client_ref) set \<Rightarrow> bool" where
  "grpc_inv s \<longleftrightarrow> (case s of (m, P) \<Rightarrow>
     (\<forall>a r. gomap_get (clients m) a = Some r \<longrightarrow> r < gnext m) \<and>
     (\<forall>a b r. gomap_get (clients m) a = Some r \<and> gomap_get (clients m) b = Some r \<longrightarrow> a = b) \<and>
     (\<forall>a r. (a, r) \<in> P \<longrightarrow> r < gnext m \<and> (\<forall>b. gomap_get (clients m) b \<noteq> Some r) \<and> (\<forall>b. (b, r) \<in> P \<longrightarrow> a = b)) \<and>
     (\<forall>r < gnext m. (\<exists>a. (a, r) \<in> P) \<or> (\<exists>a. gomap_get (clients m) a = Some r) \<or> cl_conn (gobj m r) \<in> set (closed_conns m)))"

lemma get_connect_cases:
  assumes "get_connect addr out m = (res, m')"
  obtains (ok) cl c s where "res = Ok (gnext m)"
      "m' = m\<lparr>closed_conns := closed_conns m @ cl, gobj := (gobj m)(gnext m := \<lparr>cl_conn = c, cl_stream = s, reconnectAttempts = 0\<rparr>),
              gnext := gnext m + 1, spawned := spawned m @ [RecvLoop addr (gnext m)]\<rparr>"
    | (err) cl e where "res = Err e" "m' = m\<lparr>closed_conns := closed_conns m @ cl\<rparr>"
  using assms by (auto simp: get_connect_def spawn_def Let_def split: prod.splits option.splits)

lemma grpc_inv_connect:
  assumes "grpc_inv (m, P)" and "get_connect addr out m = (Ok r, m')"
  shows "grpc_inv (m', insert (addr, r) P)"
proof (cases rule: get_connect_cases [OF assms(2)])
  case (1 cl c s)
  then have r: "r = gnext m" by simp
  have old: "gomap_get (clients m) a = Some x \<Longrightarrow> x < gnext m" "(a, x) \<in> P \<Longrightarrow> x < gnext m" for a x
    using assms(1) by (auto simp: grpc_inv_def)
  have "gomap_get (clients m) a \<noteq> Some (gnext m)" "(a, gnext m) \<notin> P" for a
    using old [of a "gnext m"] by auto
  then show ?thesis using assms(1) unfolding 1(2) r grpc_inv_def
    by (auto simp: less_Suc_eq dest: old)
qed simp

lemma grpc_inv_step: "grpc_step s s' \<Longrightarrow> grpc_inv s \<Longrightarrow> grpc_inv s'"
proof (induction rule: grpc_step.induct)
  case (connect addr out m r m' P)
  then show ?case by (blast intro: grpc_inv_connect)
next
  case (connect_fails addr out m e m' P)
  then show ?case by (cases rule: get_connect_cases [OF connect_fails.hyps]) (auto simp: grpc_inv_def)
next
  case (store addr r P m c m')
  show ?case
  proof (cases "gomap_get (clients m) addr")
    case None
    then have m': "m' = m\<lparr>clients := gomap_put addr r (clients m)\<rparr>" using store.hyps by (auto simp: get_store_def)
    show ?thesis using store.prems store.hyps(1) None unfolding m' grpc_inv_def
      by (auto split: if_splits) (metis option.distinct(1))+
  next
    case (Some x)
    then have m': "m' = close_client r m" using store.hyps by (simp add: get_store_def)
    show ?thesis using store.prems store.hyps(1) unfolding m' grpc_inv_def
      by (auto simp: close_client_def)
  qed
next
  case (stream_lost addr c m m' P)
  then have c: "gomap_get (clients m) addr = Some c" "m' = m\<lparr>clients := gomap_del addr (clients m)\<rparr>"
    by (auto simp: CompareAndDelete_def split: if_splits)
  show ?case using stream_lost.prems c(1) unfolding c(2) grpc_inv_def
    by (auto simp: close_client_def spawn_def split: if_splits) (metis option.inject)+
next
  case (count_attempts m P c k)
  then show ?case by (auto simp: grpc_inv_def)
qed

lemma grpc_reachable_inv: "grpc_reachable s \<Longrightarrow> grpc_inv s"
proof (induction rule: grpc_reachable.induct)
  case (grpc_start g t d k)
  then show ?case by (simp add: grpc_inv_def NewGrpcManager_def)
next
  case (grpc_more s s')
  then show ?case by (blast intro: grpc_inv_step)
qed

lemma store_twice:
  assumes "get_store a r1 m = (c1, m1)" and "get_store a r2 m1 = (c2, m2)"
  shows "c1 = c2 \<and> gomap_get (clients m2) a = Some c1 \<and> cl_conn (gobj m2 r2) \<in> set (closed_conns m2)"
  using assms by (auto simp: get_store_def close_client_def split: option.splits)



section \<open>Connecting and reconnecting\<close>

lemma connect_loop_fails:
  assumes "\<forall>i < 3. \<not> (\<exists>c s. out i = Connected c s)"
  shows "fst (connect_loop out 0 None) = None"
proof -
  have "out 0 \<noteq> Connected c s" "out 1 \<noteq> Connected c s" "out 2 \<noteq> Connected c s" for c s
    using assms by (metis zero_less_numeral one_less_numeral_iff semiring_norm(77) numeral_less_iff semiring_norm(81) lessI eval_nat_numeral)+
  then show ?thesis
    by (cases "out 0"; cases "out 1"; cases "out 2")
      (auto simp: connect_loop.simps [of _ 0] connect_loop.simps [of _ "Suc 0"] connect_loop.simps [of _ "Suc (Suc 0)"]
        connect_loop.simps [of _ "Suc (Suc (Suc 0))"] numeral_2_eq_2 Let_def)
qed

text \<open>A run of the reconnecting goroutine after which the next one is started.\<close>

fun reconnect_rounds :: "string \<Rightarrow> (nat \<Rightarrow> connect_attempt) \<Rightarrow> nat \<Rightarrow> grpc_manager \<Rightarrow> duration list \<times> grpc_manager" where
  "reconnect_rounds addr out 0 m = ([], m)"
| "reconnect_rounds addr out (Suc n) m =
     (case reconnect addr True out m of
        (None, m') \<Rightarrow> ([], m')
      | (Some d, m') \<Rightarrow> apfst (Cons d) (reconnect_rounds addr out n m'))"

lemma reconnect_fails_once:
  assumes "\<forall>i < 3. \<not> (\<exists>c s. out i = Connected c s)" and "gomap_get (clients m) addr = None" and "\<not> ctx_done m"
  shows "\<exists>cl. reconnect addr True out m =
    (Some (reconnect_backoff addr 0 m), m\<lparr>closed_conns := closed_conns m @ cl, spawned := spawned m @ [Reconnect addr]\<rparr>)"
proof -
  obtain err cl sl where "connect_loop out 0 None = (None, err, cl, sl)"
    using connect_loop_fails [OF assms(1)] by (cases "connect_loop out 0 None") auto
  then show ?thesis using assms(2,3)
    by (auto simp: reconnect_def getClient_def get_load_def get_connect_def spawn_def Let_def)
qed

text \<open>
  The limit on reconnect attempts has no effect: while a backend stays unreachable every
  run of \<open>reconnect\<close> waits the same time, that of attempt zero, and starts the next run,
  for any number of runs and whatever \<open>maxReconnectAttempts\<close> is.
\<close>

theorem reconnect_never_gives_up:
  assumes "\<forall>i < 3. \<not> (\<exists>c s. out i = Connected c s)" and "gomap_get (clients m) addr = None" and "\<not> ctx_done m"
  shows "fst (reconnect_rounds addr out n m) = replicate n (reconnect_backoff addr 0 m) \<and>
    spawned (snd (reconnect_rounds addr out n m)) = spawned m @ replicate n (Reconnect addr)"
  using assms(2,3)
proof (induction n arbitrary: m)
  case (Suc n)
  obtain cl where r: "reconnect addr True out m =
      (Some (reconnect_backoff addr 0 m), m\<lparr>closed_conns := closed_conns m @ cl, spawned := spawned m @ [Reconnect addr]\<rparr>)"
    using reconnect_fails_once [OF assms(1) Suc.prems] by blast
  have "reconnect_backoff addr 0 (m\<lparr>closed_conns := closed_conns m @ cl, spawned := spawned m @ [Reconnect addr]\<rparr>) =
      reconnect_backoff addr 0 m" by (simp add: reconnect_backoff_def)
  with r Suc.IH [of "m\<lparr>closed_conns := closed_conns m @ cl, spawned := spawned m @ [Reconnect addr]\<rparr>"] Suc.prems
  show ?case by simp
qed simp

theorem reconnect_never_gives_up_witness:
  "length (fst (reconnect_rounds ''b:1'' (\<lambda>_. NewClientFails ErrTimeout) 50 (NewGrpcManager ''gw'' (30 * second) (5 * second) 3))) = 50"
  using reconnect_never_gives_up [of "\<lambda>_. NewClientFails ErrTimeout" "NewGrpcManager ''gw'' (30 * second) (5 * second) 3" "''b:1''" 50]
  by (simp add: NewGrpcManager_def)

end
