(* ===== verification/Forward.thy ===== *)
theory Forward
  imports WebSocket
begin

text \<open>
  \<open>forwardConnection\<close> of \<open>internal/gateway/gateway.go\<close>: two goroutines that carry packets of
  the client to the backend and messages of the backend to the client.  They share the two
  connections, the buffer pool and the context; a run is any interleaving of their rounds,
  each with the branch its \<open>select\<close> takes.  The branch \<open>default\<close> may be taken after the
  context was cancelled, since the choice is made before the read that follows it.
\<close>

section \<open>The client's connection\<close>

text \<open>
  The dynamic types of \<open>sess.ClientConn\<close>: the sniffed TCP connection, or the WebSocket
  adapter, each over the socket it reads and writes.
\<close>

datatype client_conn = TCPClient "conn bufio" | WSClient WebSocketConn

primrec cc_socket :: "client_conn \<Rightarrow> conn" where
  "cc_socket (TCPClient b) = bf_rd b"
| "cc_socket (WSClient w) = ws_conn w"

primrec cc_Read :: "client_conn \<Rightarrow> nat \<Rightarrow> rd_result \<times> client_conn" where
  "cc_Read (TCPClient b) n = (case sniff_read b n of (res, b') \<Rightarrow> (res, TCPClient b'))"
| "cc_Read (WSClient w) n = (case ws_Read w n of (res, w') \<Rightarrow> (res, WSClient w'))"

primrec cc_Write :: "client_conn \<Rightarrow> bytes \<Rightarrow> go_error option \<times> client_conn" where
  "cc_Write (TCPClient b) p = (case conn_Write (bf_rd b) p of (e, c) \<Rightarrow> (e, TCPClient (b\<lparr>bf_rd := c\<rparr>)))"
| "cc_Write (WSClient w) p = (case ws_Write w p of (e, w') \<Rightarrow> (e, WSClient w'))"

primrec cc_Close :: "client_conn \<Rightarrow> client_conn" where
  "cc_Close (TCPClient b) = TCPClient (b\<lparr>bf_rd := snd (conn_Close (bf_rd b))\<rparr>)"
| "cc_Close (WSClient w) = WSClient (snd (ws_Close w))"

text \<open>Setting a deadline fails on a closed connection only.\<close>

definition deadline_fails :: "conn \<Rightarrow> bool" where
  "deadline_fails c \<longleftrightarrow> cclosed c"

primrec cc_content :: "client_conn \<Rightarrow> bytes" where
  "cc_content (TCPClient b) = bf_buf b @ conn_content (bf_rd b)"
| "cc_content (WSClient w) = ws_content w"

primrec cc_ending :: "client_conn \<Rightarrow> stop" where
  "cc_ending (TCPClient b) = conn_ending (bf_rd b)"
| "cc_ending (WSClient w) = ws_ending w"

interpretation cc_rd: byte_reader cc_Read cc_content cc_ending
proof
  fix n :: nat and c
  assume "0 < n" and "cc_content c \<noteq> []"
  then show "\<exists>b bs r'. cc_Read c n = (Got b bs, r') \<and> length bs < n \<and>
      cc_content c = b # bs @ cc_content r' \<and> cc_ending r' = cc_ending c"
    using sniff_rd.read_got [of n] ws_rd.read_got [of n] by (cases c) fastforce+
next
  fix n :: nat and c
  assume "0 < n" and "cc_content c = []"
  then show "\<exists>r'. cc_Read c n = (stop_result (cc_ending c), r')"
    using sniff_rd.read_end [of n] ws_rd.read_end [of n] by (cases c) fastforce+
qed

abbreviation client_read :: "client_conn bufio rd" where "client_read \<equiv> bufio_Read cc_Read"

text \<open>What the forwarding goroutine will still read from its client.\<close>

definition client_content :: "client_conn bufio \<Rightarrow> bytes" where
  "client_content r = bf_buf r @ cc_content (bf_rd r)"

definition client_ending :: "client_conn bufio \<Rightarrow> stop" where
  "client_ending r = cc_ending (bf_rd r)"

interpretation fwd_rd: byte_reader client_read client_content client_ending
  unfolding client_content_def client_ending_def by (rule cc_rd.bufio_is_reader)

section \<open>State of a forwarded session\<close>

text \<open>Where a goroutine is: in its loop, returned, or ended by a panic.\<close>

datatype loop_state = Looping | Left | Crashed string

text \<open>
  \<open>fw_client\<close> is \<open>clientReader\<close>, the buffered reader over \<open>sess.ClientConn\<close>, and \<open>fw_done\<close>
  the context being cancelled.
\<close>

record fwd =
  fw_client :: "client_conn bufio"
  fw_backend :: conn
  fw_buffers :: buffer_pool
  fw_bytesIn :: int
  fw_bytesOut :: int
  fw_lastActive :: time
  fw_done :: bool
  fw_up :: loop_state
  fw_down :: loop_state

text \<open>
  What a round takes from outside: the buffer \<open>sync.Pool\<close> hands out, the trace context (\<open>None\<close>
  when propagation is off or the span is not valid) and the clock.
\<close>

record round_env =
  re_buffer :: nat
  re_trace :: "trace_map option"
  re_now :: time

text \<open>The two settings of the session.\<close>

record fwd_conf =
  fc_maxMessageSize :: int
  fc_sessionID :: "64 word"

text \<open>\<open>pooledBuf\<close> of a slice, given back to the pool: it has the slice's full capacity.\<close>

definition put_pooled :: "slice option \<Rightarrow> buffer_pool \<Rightarrow> buffer_pool" where
  "put_pooled d p = (case d of None \<Rightarrow> p | Some sl \<Rightarrow> if buffer_size \<le> sl_cap sl then buffer_Put (sl_cap sl) p else p)"

section \<open>Client to backend\<close>

text \<open>The deferred calls of the goroutine: the backend is closed, then the context cancelled.\<close>

definition up_leave :: "loop_state \<Rightarrow> fwd \<Rightarrow> fwd" where
  "up_leave st s = s\<lparr>fw_backend := snd (conn_Close (fw_backend s)), fw_done := True, fw_up := st\<rparr>"

definition up_packet :: "fwd_conf \<Rightarrow> round_env \<Rightarrow> fwd \<Rightarrow> fwd" where
  "up_packet cf e s =
     (case ReadFullPacket client_read (fw_client s) (fc_maxMessageSize cf) (re_buffer e) (fw_buffers s) of
        (Panic m, r, p) \<Rightarrow> up_leave (Crashed m) (s\<lparr>fw_client := r, fw_buffers := p\<rparr>)
      | (Err err, r, p) \<Rightarrow> up_leave Left (s\<lparr>fw_client := r, fw_buffers := p\<rparr>)
      | (Ok (clientHeader, messageData), r, p) \<Rightarrow>
          let s1 = s\<lparr>fw_client := r, fw_buffers := put_pooled messageData p,
                     fw_bytesIn := fw_bytesIn s + int (length (payload messageData)), fw_lastActive := re_now e\<rparr>
          in if deadline_fails (fw_backend s1) then up_leave Left s1
             else (case WriteServerMessage conn_Write (fw_backend s1) (ucast (cmh_MessageID clientHeader))
                          (fc_sessionID cf) (payload messageData) [re_trace e] of
                     (Some err, b) \<Rightarrow> up_leave Left (s1\<lparr>fw_backend := b\<rparr>)
                   | (None, b) \<Rightarrow> s1\<lparr>fw_backend := b\<rparr>))"

text \<open>The branch a \<open>select\<close> takes.\<close>

datatype select_case = CtxDone | Tick | Default

definition up_round :: "fwd_conf \<Rightarrow> select_case \<Rightarrow> round_env \<Rightarrow> fwd \<Rightarrow> fwd" where
  "up_round cf sel e s =
     (if fw_up s \<noteq> Looping then s
      else case sel of
        CtxDone \<Rightarrow> if fw_done s then up_leave Left s else s
      | Tick \<Rightarrow> if deadline_fails (cc_socket (bf_rd (fw_client s))) then up_leave Left s else s
      | Default \<Rightarrow> up_packet cf e s)"

section \<open>Backend to client\<close>

definition down_leave :: "loop_state \<Rightarrow> fwd \<Rightarrow> fwd" where
  "down_leave st s = s\<lparr>fw_client := (fw_client s)\<lparr>bf_rd := cc_Close (bf_rd (fw_client s))\<rparr>, fw_done := True, fw_down := st\<rparr>"

text \<open>The payload of a message, into a pooled buffer when it fits in one.\<close>

definition read_payload :: "nat \<Rightarrow> nat \<Rightarrow> conn \<Rightarrow> buffer_pool \<Rightarrow> slice option res \<times> conn \<times> buffer_pool" where
  "read_payload messageDataLen i b p =
     (if messageDataLen = 0 then (Ok None, b, p)
      else
        let (pooled, p') =
          (if messageDataLen \<le> buffer_size then (case buffer_Get i p of (c, q) \<Rightarrow> (Some c, q)) else (None, p))
        in (case read_into conn_Read b messageDataLen pooled p' of
              (Ok d, b', p'') \<Rightarrow> (Ok (Some d), b', p'')
            | (Err err, b', p'') \<Rightarrow> (Err err, b', p'')
            | (Panic m, b', p'') \<Rightarrow> (Panic m, b', p'')))"

text \<open>\<open>pooledBuf\<close> of this direction is nil for a payload that needed a buffer of its own.\<close>

definition put_payload :: "slice option \<Rightarrow> buffer_pool \<Rightarrow> buffer_pool" where
  "put_payload d p =
     (case d of None \<Rightarrow> p | Some sl \<Rightarrow> if length (sl_data sl) \<le> buffer_size then buffer_Put (sl_cap sl) p else p)"

text \<open>The header written before a payload of the backend, with a 16-bit length.\<close>

definition reply_header :: "nat \<Rightarrow> 32 word \<Rightarrow> ClientMessageHeader" where
  "reply_header payloadLen messageType =
     \<lparr>cmh_Length = of_nat payloadLen, cmh_MessageID = ucast messageType, cmh_ServerID = 0\<rparr>"

definition write_reply :: "client_conn \<Rightarrow> 32 word \<Rightarrow> bytes \<Rightarrow> go_error option \<times> client_conn" where
  "write_reply c messageType messageData =
     (case WriteClientMessageHeader cc_Write c (reply_header (length messageData) messageType) of
        (Some err, c') \<Rightarrow> (Some err, c')
      | (None, c') \<Rightarrow> if 0 < length messageData then cc_Write c' messageData else (None, c'))"

definition down_message :: "round_env \<Rightarrow> fwd \<Rightarrow> fwd" where
  "down_message e s =
     (if deadline_fails (fw_backend s) then down_leave Left s
      else case ReadServerMessageHeader conn_Read (fw_backend s) of
        (Panic m, b) \<Rightarrow> down_leave (Crashed m) (s\<lparr>fw_backend := b\<rparr>)
      | (Err err, b) \<Rightarrow> down_leave Left (s\<lparr>fw_backend := b\<rparr>)
      | (Ok serverHeader, b1) \<Rightarrow>
          (case ReadGateMsgHeader conn_Read b1 of
             (Panic m, b) \<Rightarrow> down_leave (Crashed m) (s\<lparr>fw_backend := b\<rparr>)
           | (Err err, b) \<Rightarrow> down_leave Left (s\<lparr>fw_backend := b\<rparr>)
           | (Ok gateHeader, b2) \<Rightarrow>
               let messageDataLen = sint (smh_Length serverHeader) - 9
               in if messageDataLen < 0 then down_leave Left (s\<lparr>fw_backend := b2\<rparr>)
                  else (case read_payload (nat messageDataLen) (re_buffer e) b2 (fw_buffers s) of
                    (Panic m, b, p) \<Rightarrow> down_leave (Crashed m) (s\<lparr>fw_backend := b, fw_buffers := p\<rparr>)
                  | (Err err, b, p) \<Rightarrow> down_leave Left (s\<lparr>fw_backend := b, fw_buffers := p\<rparr>)
                  | (Ok messageData, b, p) \<Rightarrow>
                      let s1 = s\<lparr>fw_backend := b, fw_buffers := put_payload messageData p,
                                 fw_bytesOut := fw_bytesOut s + messageDataLen\<rparr>;
                          c = bf_rd (fw_client s1)
                      in if deadline_fails (cc_socket c) then down_leave Left s1
                         else (case write_reply c (smh_Type serverHeader) (payload messageData) of
                           (Some err, c') \<Rightarrow> down_leave Left (s1\<lparr>fw_client := (fw_client s1)\<lparr>bf_rd := c'\<rparr>\<rparr>)
                         | (None, c') \<Rightarrow> s1\<lparr>fw_client := (fw_client s1)\<lparr>bf_rd := c'\<rparr>, fw_lastActive := re_now e\<rparr>))))"

definition down_round :: "select_case \<Rightarrow> round_env \<Rightarrow> fwd \<Rightarrow> fwd" where
  "down_round sel e s =
     (if fw_down s \<noteq> Looping then s
      else case sel of
        CtxDone \<Rightarrow> if fw_done s then down_leave Left s else s
      | Tick \<Rightarrow> s
      | Default \<Rightarrow> down_message e s)"

section \<open>A forwarded session\<close>

text \<open>The state when the goroutine has been started and the first deadline of the backend is set.\<close>

definition fwd_start :: "client_conn \<Rightarrow> conn \<Rightarrow> buffer_pool \<Rightarrow> int \<Rightarrow> int \<Rightarrow> time \<Rightarrow> fwd" where
  "fwd_start c b p bytesIn bytesOut t =
     (let s = \<lparr>fw_client = bufio_NewReader c, fw_backend = b, fw_buffers = p, fw_bytesIn = bytesIn,
               fw_bytesOut = bytesOut, fw_lastActive = t, fw_done = False, fw_up = Looping, fw_down = Looping\<rparr>
      in if deadline_fails b then down_leave Left s else s)"

datatype fwd_event = Up select_case round_env | Down select_case round_env

primrec fwd_step :: "fwd_conf \<Rightarrow> fwd_event \<Rightarrow> fwd \<Rightarrow> fwd" where
  "fwd_step cf (Up sel e) s = up_round cf sel e s"
| "fwd_step cf (Down sel e) s = down_round sel e s"

definition forwardConnection :: "fwd_conf \<Rightarrow> fwd_event list \<Rightarrow> fwd \<Rightarrow> fwd" where
  "forwardConnection cf evs s = fold (fwd_step cf) evs s"

section \<open>Closing cuts a stream short\<close>

lemma parse_frame_extend:
  assumes ok: "parse_frame n s (Stops e) = Ok (f, rest)"
  shows "parse_frame n (s @ t) ending = Ok (f, rest @ t)"
proof -
  obtain h1 h2 u where s: "s = h1 # h2 # u" using ok by (auto simp: parse_frame_def split: list.splits)
  define l where "l = h2 AND 0x7F"
  define k where "k = (if l = 126 then 2 else if l = 127 then 8 else 0 :: nat)"
  define m where "m u = (if l = 126 then uint (be_word (take 2 u) :: 16 word)
                     else if l = 127 then sint (be_word (take 8 u) :: 64 word) else uint l)" for u
  have eq: "parse_frame n (h1 # h2 # u) ending =
      (if (h2 AND 0x80) = 0 then Err ErrWebSocketFrameMask
       else if length u < k then short_read u ending
       else if 0 < n \<and> n < m u then Err ErrMessageTooLarge
       else if length (drop k u) < 4 then short_read (drop k u) ending
       else if m u < 0 \<or> maxAlloc < m u then Panic ''makeslice: len out of range''
       else if length (drop 4 (drop k u)) < nat (m u) then short_read (drop 4 (drop k u)) ending
       else Ok (\<lparr>ws_fin = ((h1 AND 0x80) \<noteq> 0), ws_opcode = h1 AND 0x0F,
                 ws_payload = unmask (take 4 (drop k u)) (take (nat (m u)) (drop 4 (drop k u)))\<rparr>,
                drop (nat (m u)) (drop 4 (drop k u))))" for u ending
    unfolding parse_frame_def list.case Let_def m_def k_def l_def by (rule refl)
  have c: "(h2 AND 0x80) \<noteq> 0" "k \<le> length u" "\<not> (0 < n \<and> n < m u)" "4 \<le> length (drop k u)"
      "\<not> (m u < 0 \<or> maxAlloc < m u)" "nat (m u) \<le> length (drop 4 (drop k u))"
      "(f, rest) = (\<lparr>ws_fin = ((h1 AND 0x80) \<noteq> 0), ws_opcode = h1 AND 0x0F,
                 ws_payload = unmask (take 4 (drop k u)) (take (nat (m u)) (drop 4 (drop k u)))\<rparr>,
                drop (nat (m u)) (drop 4 (drop k u)))"
    using ok unfolding s eq by (simp_all split: if_splits)
  have "m (u @ t) = m u" using c(2) by (auto simp: m_def k_def split: if_splits)
  then show ?thesis using c unfolding s append_Cons eq by simp linarith
qed

lemma ws_stream_extend:
  "prefix (fst (ws_stream n frag s (Stops e))) (fst (ws_stream n frag (s @ t) ending))"
proof (induction n frag s "Stops e" rule: ws_stream.induct)
  case (1 n frag s)
  show ?case
  proof (cases "parse_frame n s (Stops e)")
    case (Ok fr)
    obtain f rest where fr: "fr = (f, rest)" by (cases fr)
    have "parse_frame n (s @ t) ending = Ok (f, rest @ t)"
      using Ok fr by (intro parse_frame_extend) simp
    then show ?thesis
      using "1" [OF Ok [unfolded fr]] Ok fr
      by (subst (1 2) ws_stream.simps) (auto simp: Let_def)
  next
    case (Err err)
    then show ?thesis by (subst ws_stream.simps) simp
  next
    case (Panic m)
    then show ?thesis by (subst ws_stream.simps) simp
  qed
qed

lemma prefix_append_mono: "prefix xs ys \<Longrightarrow> prefix (zs @ xs) (zs @ ys)"
  by simp

lemma conn_Close_simps [simp]:
  "cout (snd (conn_Close c)) = cout c" "cclosed (snd (conn_Close c))" "conn_content (snd (conn_Close c)) = []"
  "conn_ending (snd (conn_Close c)) = Stops ErrClosed" "croom (snd (conn_Close c)) = croom c"
  by (auto simp: conn_Close_def conn_content_def conn_ending_def)

lemma cc_Close_prefix: "prefix (cc_content (cc_Close c)) (cc_content c)"
proof (cases c)
  case (TCPClient b)
  then show ?thesis by simp
next
  case (WSClient w)
  define w1 where "w1 = (if ws_closeOnce w then w else (ws_control w wsOpcodeClose [])\<lparr>ws_closeOnce := True\<rparr>)"
  have w1: "ws_raw w1 = ws_raw w" "ws_maxPayload w1 = ws_maxPayload w" "ws_pending w1 = ws_pending w"
      "ws_fragmentBuf w1 = ws_fragmentBuf w"
    by (simp_all add: w1_def) (simp add: ws_raw_def ws_control_raw [unfolded ws_raw_def])
  define w2 where "w2 = snd (ws_Close w)"
  have w2: "w2 = ws_set_conn (snd (conn_Close (ws_conn w1))) w1"
    by (simp add: w2_def ws_Close_def w1_def [symmetric] Let_def split: prod.splits)
  have f: "ws_maxPayload w2 = ws_maxPayload w" "ws_pending w2 = ws_pending w" "ws_fragmentBuf w2 = ws_fragmentBuf w"
      "ws_raw w2 = bf_buf (ws_reader w1)" "conn_ending (ws_conn w2) = Stops ErrClosed"
    by (simp_all add: w2 w1 ws_set_conn_def ws_raw_def)
  have "ws_raw w = bf_buf (ws_reader w1) @ conn_content (ws_conn w1)" using w1(1) by (simp add: ws_raw_def)
  then have "prefix (fst (ws_rest w2)) (fst (ws_rest w))"
    unfolding ws_rest_def f by (simp add: ws_stream_extend)
  then show ?thesis using WSClient f(2) by (simp add: ws_content_def w2_def [symmetric])
qed

section \<open>Reads and writes leave the other direction alone\<close>

text \<open>What every read keeps, the reading routines keep.\<close>

lemma ReadFull_loop_keeps:
  assumes "\<And>r n. P r \<Longrightarrow> P (snd (rd r n))" and "P r"
  shows "P (snd (ReadFull_loop rd r n acc))"
  using assms(2)
proof (induction n arbitrary: r acc rule: less_induct)
  case (less n)
  show ?case
  proof (cases "n = 0")
    case False
    obtain res r' where r: "rd r n = (res, r')" by (cases "rd r n")
    then have "P r'" using assms(1) [OF less.prems, of n] by simp
    then show ?thesis using False r less.IH [of "n - Suc (length (case res of Got b bs \<Rightarrow> bs | _ \<Rightarrow> []))" r']
      by (cases res) (simp_all add: ReadFull_loop.simps [of rd r n])
  qed (simp add: ReadFull_loop.simps less.prems)
qed

lemma ReadFull_keeps:
  assumes "\<And>r n. P r \<Longrightarrow> P (snd (rd r n))" and "P r" and "ReadFull rd r n = (res, r')"
  shows "P r'"
  using ReadFull_loop_keeps [of P rd, OF assms(1,2), of n "[]"] assms(3) by (simp add: ReadFull_def)

lemma ReadFullPacket_keeps:
  assumes "\<And>r n. P r \<Longrightarrow> P (snd (rd r n))" and "P r" and "ReadFullPacket rd r m i p = (res, r', p')"
  shows "P r'"
proof -
  note full = ReadFull_keeps [of P rd, OF assms(1)]
  have parse: "P r1" if "ParseClientMessageHeader rd r0 = (x, r1)" "P r0" for x r0 r1
    using that full [of r0 8] by (auto simp: ParseClientMessageHeader_def split: prod.splits res.splits)
  have into: "P r1" if "read_into rd r0 n pooled q = (x, r1, q1)" "P r0" for x r0 r1 n pooled q q1
    using that full [of r0 n] by (auto simp: read_into_def split: prod.splits res.splits option.splits if_splits)
  show ?thesis using assms(2,3)
    by (auto simp: ReadFullPacket_def Let_def dest: parse intro: into split: prod.splits res.splits if_splits)
qed

lemma ReadFull_preserves:
  assumes "\<And>r n. P (snd (rd r n)) = P r"
  shows "P (snd (ReadFull rd r n)) = P r"
  using ReadFull_keeps [of "\<lambda>x. P x = P r" rd r n] assms by (metis prod.collapse)

lemma ReadFullPacket_preserves:
  assumes "\<And>r n. P (snd (rd r n)) = P r" and "ReadFullPacket rd r m i p = (res, r', p')"
  shows "P r' = P r"
  using ReadFullPacket_keeps [of "\<lambda>x. P x = P r" rd r m i p res r' p'] assms by metis

text \<open>The bytes written to a plain client, none for an adapter.\<close>

primrec plain_out :: "client_conn \<Rightarrow> bytes option" where
  "plain_out (TCPClient b) = Some (cout (bf_rd b))"
| "plain_out (WSClient w) = None"

lemma conn_Read_cout [simp]: "cout (snd (conn_Read c n)) = cout c" "cclosed (snd (conn_Read c n)) = cclosed c"
    "croom (snd (conn_Read c n)) = croom c"
  by (auto simp: conn_Read_def split: list.splits)

lemma bufio_Read_preserves:
  assumes "\<And>r n. P (snd (rd r n)) = P r"
  shows "P (bf_rd (snd (bufio_Read rd b n))) = P (bf_rd b)"
  using assms [of "bf_rd b" n] assms [of "bf_rd b" bufio_size]
  by (auto simp: bufio_Read_def split: list.splits prod.splits rd_result.splits)

lemma cc_Read_plain [simp]: "plain_out (snd (cc_Read c n)) = plain_out c"
  using bufio_Read_preserves [of cout conn_Read "case c of TCPClient b \<Rightarrow> b" n]
  by (cases c) (auto split: prod.splits)

lemma client_packet_plain:
  "ReadFullPacket client_read r m i p = (res, r', p') \<Longrightarrow> plain_out (bf_rd r') = plain_out (bf_rd r)"
  using ReadFullPacket_preserves [of "\<lambda>r. plain_out (bf_rd r)" client_read r m i p res r' p']
    bufio_Read_preserves [of plain_out cc_Read] by simp

text \<open>Reading through the adapter answers control frames but never closes the socket.\<close>

lemma writeFrame_closed [simp]: "cclosed (snd (writeFrame c opc p fin)) = cclosed c"
  by (auto simp: writeFrame_def conn_Write_def split: prod.splits option.splits if_splits)

lemma readFrame_preserves:
  fixes P :: "conn \<Rightarrow> 'a"
  assumes "\<And>c n. P (snd (conn_Read c n)) = P c"
  shows "P (bf_rd (snd (readFrame sniff_read n b))) = P (bf_rd b)"
proof -
  let ?P = "\<lambda>b. P (bf_rd b)"
  have rd: "?P (snd (sniff_read b n)) = ?P b" for b n
    by (rule bufio_Read_preserves, rule assms)
  have full: "?P (snd (ReadFull sniff_read b n)) = ?P b" for b n by (rule ReadFull_preserves, rule rd)
  have byte: "?P (snd (ReadByte sniff_read b)) = ?P b" for b
    using rd [of b 1] by (auto simp: ReadByte_def split: prod.splits rd_result.splits)
  have bind: "?P (snd (rs_bind m f)) = ?P b" if "?P (snd m) = ?P b" "\<And>a b'. ?P b' = ?P b \<Longrightarrow> ?P (snd (f a b')) = ?P b"
    for m :: "'x res \<times> conn bufio" and f :: "'x \<Rightarrow> conn bufio \<Rightarrow> 'y res \<times> conn bufio" and b
    using that by (cases m; cases "fst m") (auto simp: rs_bind_def)
  have len: "?P (snd (readPayloadLen sniff_read l b)) = ?P b" for l b
    using full by (auto simp: readPayloadLen_def intro!: bind)
  show ?thesis
    unfolding readFrame_def by (auto simp: byte full len intro!: bind)
qed

lemma readFrame_closed: "readFrame sniff_read n b = (res, b') \<Longrightarrow> cclosed (bf_rd b') = cclosed (bf_rd b)"
  using readFrame_preserves [of cclosed n b] by simp

lemma ws_control_closed [simp]: "cclosed (ws_conn (ws_control w opc p)) = cclosed (ws_conn w)"
  by (simp add: ws_control_def ws_set_conn_def writeControlFrame_def)

lemma nextDataPayload_closed: "cclosed (ws_conn (snd (nextDataPayload w))) = cclosed (ws_conn w)"
proof (induction w rule: nextDataPayload.induct)
  case (1 w)
  obtain res b where f: "readFrame sniff_read (ws_maxPayload w) (ws_reader w) = (res, b)"
    by (cases "readFrame sniff_read (ws_maxPayload w) (ws_reader w)")
  note c = readFrame_closed [OF f]
  show ?case
  proof (cases res)
    case (Ok fr)
    note IH = "1.IH" [OF f [unfolded Ok, symmetric] refl refl]
    show ?thesis using IH by (subst nextDataPayload.simps) (auto simp: f Ok Let_def c)
  qed (simp_all add: nextDataPayload.simps [of w] f c)
qed

lemma ws_fill_closed: "cclosed (ws_conn (snd (ws_fill w))) = cclosed (ws_conn w)"
proof (induction w rule: ws_fill.induct)
  case (1 w)
  obtain res w' where n: "nextDataPayload w = (res, w')" by (cases "nextDataPayload w")
  then have "cclosed (ws_conn w') = cclosed (ws_conn w)" using nextDataPayload_closed [of w] by simp
  then show ?case using "1.IH" [OF _ n [symmetric]]
    by (cases "ws_pending w = []"; cases res) (simp_all add: ws_fill.simps [of w] n)
qed

lemma cc_Read_closed [simp]: "cclosed (cc_socket (snd (cc_Read c n))) = cclosed (cc_socket c)"
proof (cases c)
  case (TCPClient b)
  then show ?thesis using bufio_Read_preserves [of cclosed conn_Read b n] by (auto split: prod.splits)
next
  case (WSClient w)
  then show ?thesis using ws_fill_closed [of w] by (auto simp: ws_Read_def split: prod.splits res.splits list.splits)
qed

lemma client_packet_closed:
  "ReadFullPacket client_read r m i p = (res, r', p') \<Longrightarrow> cclosed (cc_socket (bf_rd r')) = cclosed (cc_socket (bf_rd r))"
  using ReadFullPacket_preserves [of "\<lambda>r. cclosed (cc_socket (bf_rd r))" client_read r m i p res r' p']
    bufio_Read_preserves [of "\<lambda>c. cclosed (cc_socket c)" cc_Read] by simp

lemma backend_read_out:
  "cout (snd (ReadFull conn_Read c n)) = cout c" "cclosed (snd (ReadFull conn_Read c n)) = cclosed c"
  "croom (snd (ReadFull conn_Read c n)) = croom c"
  by (rule ReadFull_preserves, simp)+

lemma conn_Write_conn:
  "conn_Write c p = (e, c') \<Longrightarrow> conn_content c' = conn_content c \<and> cclosed c' = cclosed c"
  by (auto simp: conn_Write_def conn_content_def split: if_splits option.splits)

lemma write_all_conn:
  "write_all conn_Write c ps = (e, c') \<Longrightarrow> conn_content c' = conn_content c \<and> cclosed c' = cclosed c"
proof (induction ps arbitrary: c)
  case (Cons p ps)
  obtain e1 c1 where w: "conn_Write c p = (e1, c1)" by (cases "conn_Write c p")
  from conn_Write_conn [OF w] Cons.IH [of c1] Cons.prems w show ?case by (cases e1) auto
qed simp

lemma write_server_message_conn:
  "WriteServerMessage conn_Write c t sid d tcs = (e, c') \<Longrightarrow> conn_content c' = conn_content c \<and> cclosed c' = cclosed c"
  unfolding WriteServerMessage_pieces by (rule write_all_conn)

lemma write_all_open:
  "\<not> cclosed c \<Longrightarrow> croom c = None \<Longrightarrow> write_all conn_Write c ps = (None, c\<lparr>cout := cout c @ concat ps\<rparr>)"
  by (induction ps arbitrary: c) (simp_all add: conn_Write_open)

lemma write_server_message_open:
  "\<not> cclosed c \<Longrightarrow> croom c = None \<Longrightarrow> WriteServerMessage conn_Write c t sid d tcs =
     (None, c\<lparr>cout := cout c @ server_message_bytes t (gate_header sid tcs) d\<rparr>)"
  by (simp add: WriteServerMessage_pieces write_all_open concat_server_message_pieces)

lemma cc_Write_content: "cc_Write c p = (e, c') \<Longrightarrow> cc_content c' = cc_content c \<and> cc_ending c' = cc_ending c"
proof (cases c)
  case (TCPClient b)
  assume "cc_Write c p = (e, c')"
  then show ?thesis using TCPClient
    by (auto simp: conn_Write_def conn_content_def conn_ending_def split: prod.splits if_splits option.splits)
next
  case (WSClient w)
  assume "cc_Write c p = (e, c')"
  then obtain c1 where w: "writeFrame (ws_conn w) wsOpcodeBinary p True = (e, c1)" "c' = WSClient (ws_set_conn c1 w)"
    using WSClient by (auto simp: ws_Write_def split: prod.splits)
  from writeFrame_conn [OF w(1)] show ?thesis
    by (simp add: w(2) WSClient ws_content_def ws_ending_def ws_rest_def ws_raw_def ws_set_conn_def)
qed

section \<open>Packets reach the backend in order\<close>

type_synonym sent_packet = "ClientMessageHeader \<times> bytes \<times> trace_map option"

text \<open>A packet as the client encodes it, and as the backend is sent it.\<close>

fun client_bytes :: "sent_packet \<Rightarrow> bytes" where
  "client_bytes (h, d, tc) = client_header_bytes h @ d"

fun backend_bytes :: "64 word \<Rightarrow> sent_packet \<Rightarrow> bytes" where
  "backend_bytes sid (h, d, tc) = server_message_bytes (ucast (cmh_MessageID h)) (gate_header sid [tc]) d"

fun whole_packet :: "sent_packet \<Rightarrow> bool" where
  "whole_packet (h, d, tc) \<longleftrightarrow> length d = unat (cmh_Length h)"

definition packets_size :: "sent_packet list \<Rightarrow> int" where
  "packets_size ps = int (length (concat (map (\<lambda>(h, d, tc). d) ps)))"

text \<open>
  \<open>ps\<close> is the list of packets forwarded so far: they are at the front of the client's
  stream \<open>stream\<close>, and the backend has received their messages after \<open>out\<close>.  A message
  written in part can only be the last one of a goroutine that has left.
\<close>

definition up_progress :: "fwd_conf \<Rightarrow> bytes \<Rightarrow> bytes \<Rightarrow> int \<Rightarrow> sent_packet list \<Rightarrow> bytes \<Rightarrow> fwd \<Rightarrow> bool" where
  "up_progress cf stream out n ps part s \<longleftrightarrow>
     list_all whole_packet ps \<and> prefix (concat (map client_bytes ps)) stream \<and>
     cout (fw_backend s) = out @ concat (map (backend_bytes (fc_sessionID cf)) ps) @ part \<and>
     (part \<noteq> [] \<longrightarrow> (\<exists>p. whole_packet p \<and> prefix (concat (map client_bytes (ps @ [p]))) stream \<and>
        prefix part (backend_bytes (fc_sessionID cf) p))) \<and>
     (fw_up s = Looping \<longrightarrow> part = [] \<and> fw_bytesIn s = n + packets_size ps \<and>
        prefix (concat (map client_bytes ps) @ client_content (fw_client s)) stream)"

definition up_inv :: "fwd_conf \<Rightarrow> bytes \<Rightarrow> bytes \<Rightarrow> int \<Rightarrow> fwd \<Rightarrow> bool" where
  "up_inv cf stream out n s \<longleftrightarrow> pool_ok (fw_buffers s) \<and> (\<exists>ps part. up_progress cf stream out n ps part s)"

lemma up_leave_simps [simp]:
  "fw_client (up_leave st s) = fw_client s" "fw_buffers (up_leave st s) = fw_buffers s" "fw_up (up_leave st s) = st"
  "fw_down (up_leave st s) = fw_down s" "fw_bytesIn (up_leave st s) = fw_bytesIn s" "fw_bytesOut (up_leave st s) = fw_bytesOut s"
  "fw_done (up_leave st s)" "fw_backend (up_leave st s) = snd (conn_Close (fw_backend s))"
  by (simp_all add: up_leave_def)

lemma down_leave_simps [simp]:
  "bf_buf (fw_client (down_leave st s)) = bf_buf (fw_client s)"
  "bf_rd (fw_client (down_leave st s)) = cc_Close (bf_rd (fw_client s))"
  "fw_buffers (down_leave st s) = fw_buffers s" "fw_up (down_leave st s) = fw_up s"
  "fw_down (down_leave st s) = st" "fw_bytesIn (down_leave st s) = fw_bytesIn s" "fw_bytesOut (down_leave st s) = fw_bytesOut s"
  "fw_done (down_leave st s)" "fw_backend (down_leave st s) = fw_backend s"
  by (simp_all add: down_leave_def)

lemma up_packet_down [simp]: "fw_down (up_packet cf e s) = fw_down s"
  by (auto simp: up_packet_def Let_def split: prod.splits res.splits option.splits)

lemma up_round_down [simp]: "fw_down (up_round cf sel e s) = fw_down s"
  by (cases sel) (simp_all add: up_round_def)

lemma up_rounds_down [simp]: "fw_down (forwardConnection cf (map (\<lambda>(sel, e). Up sel e) rounds) s) = fw_down s"
  by (induction rounds arbitrary: s) (auto simp: forwardConnection_def)

lemma pool_ok_put [simp]: "pool_ok p \<Longrightarrow> pool_ok (put_pooled d p)" "pool_ok p \<Longrightarrow> pool_ok (put_payload d p)"
  by (auto simp: put_pooled_def put_payload_def split: option.splits)

lemma parse_packet_whole: "parse_packet m s e = Ok (h, d) \<Longrightarrow> length d = unat (cmh_Length h)"
  by (auto simp: parse_packet_def Let_def split: if_splits)

text \<open>Leaving, by any goroutine, keeps what was achieved.\<close>

lemma up_progress_leave:
  assumes "up_progress cf stream out n ps part s" and "cout (fw_backend s') = cout (fw_backend s)" and "fw_up s' \<noteq> Looping"
  shows "up_progress cf stream out n ps part s'"
  using assms by (auto simp: up_progress_def)

text \<open>A write to an open backend sends the message, or a prefix of it with an error.\<close>

lemma write_backend_outcome:
  assumes "\<not> cclosed c" and w: "WriteServerMessage conn_Write c (ucast (cmh_MessageID h)) sid d [tc] = (err, c')"
  obtains q where "prefix q (backend_bytes sid (h, d, tc))" "cout c' = cout c @ q" "err = None \<longrightarrow> q = backend_bytes sid (h, d, tc)"
    "conn_content c' = conn_content c" "cclosed c' = cclosed c" "croom c = None \<longrightarrow> croom c' = None \<and> err = None"
proof -
  have "\<exists>q. prefix q (backend_bytes sid (h, d, tc)) \<and> cout c' = cout c @ q \<and> (err = None \<longrightarrow> q = backend_bytes sid (h, d, tc))"
  proof (cases err)
    case None
    from conn_wr.WriteServerMessage_ok [OF w [unfolded None]] None show ?thesis by simp
  next
    case (Some x)
    from conn_wr.WriteServerMessage_err [OF w [unfolded Some]] Some show ?thesis by simp
  qed
  moreover have "croom c = None \<longrightarrow> croom c' = None \<and> err = None"
    by (intro impI) (use w in \<open>auto simp: write_server_message_open [OF assms(1)]\<close>)
  ultimately show thesis using that write_server_message_conn [OF w] by metis
qed

text \<open>The three ways a round of the goroutine can end.\<close>

lemma up_packet_cases:
  assumes pool: "pool_ok (fw_buffers s)"
  obtains (read_fails) st r p where "st \<noteq> Looping" "pool_ok p"
      "\<not> is_ok (parse_packet (fc_maxMessageSize cf) (client_content (fw_client s)) (client_ending (fw_client s)))"
      "plain_out (bf_rd r) = plain_out (bf_rd (fw_client s))"
      "cclosed (cc_socket (bf_rd r)) = cclosed (cc_socket (bf_rd (fw_client s)))"
      "up_packet cf e s = up_leave st (s\<lparr>fw_client := r, fw_buffers := p\<rparr>)"
  | (packet) h d r p b q and err :: "go_error option" where "pool_ok p" "length d = unat (cmh_Length h)"
      "parse_packet (fc_maxMessageSize cf) (client_content (fw_client s)) (client_ending (fw_client s)) = Ok (h, d)"
      "client_content (fw_client s) = client_bytes (h, d, re_trace e) @ client_content r"
      "client_ending r = client_ending (fw_client s)"
      "plain_out (bf_rd r) = plain_out (bf_rd (fw_client s))"
      "cclosed (cc_socket (bf_rd r)) = cclosed (cc_socket (bf_rd (fw_client s)))"
      "cout b = cout (fw_backend s) @ q" "prefix q (backend_bytes (fc_sessionID cf) (h, d, re_trace e))"
      "err = None \<longrightarrow> q = backend_bytes (fc_sessionID cf) (h, d, re_trace e)"
      "err = None \<longleftrightarrow> \<not> cclosed (fw_backend s) \<and> fst (WriteServerMessage conn_Write (fw_backend s) (ucast (cmh_MessageID h))
         (fc_sessionID cf) d [re_trace e]) = None"
      "conn_content b = conn_content (fw_backend s)" "cclosed b = cclosed (fw_backend s)"
      "croom (fw_backend s) = None \<longrightarrow> croom b = None \<and> (\<not> cclosed (fw_backend s) \<longrightarrow> err = None)"
      "let s' = s\<lparr>fw_client := r, fw_buffers := p, fw_bytesIn := fw_bytesIn s + int (length d),
          fw_lastActive := re_now e, fw_backend := b\<rparr>
       in up_packet cf e s = (case err of None \<Rightarrow> s' | Some x \<Rightarrow> up_leave Left s')"
proof -
  obtain res r p where rp: "ReadFullPacket client_read (fw_client s) (fc_maxMessageSize cf) (re_buffer e) (fw_buffers s) = (res, r, p)"
    by (cases "ReadFullPacket client_read (fw_client s) (fc_maxMessageSize cf) (re_buffer e) (fw_buffers s)")
  note ref = fwd_rd.ReadFullPacket_refines [OF pool, of "fw_client s" "fc_maxMessageSize cf" "re_buffer e", unfolded rp]
  note plain = client_packet_plain [OF rp] client_packet_closed [OF rp]
  from ref have p: "pool_ok p" by auto
  show thesis
  proof (cases res)
    case (Ok hd)
    obtain h sl where hd: "hd = (h, sl)" by (cases hd)
    let ?d = "payload sl"
    have parse: "parse_packet (fc_maxMessageSize cf) (client_content (fw_client s)) (client_ending (fw_client s)) = Ok (h, ?d)"
      and rest: "client_content (fw_client s) = client_bytes (h, ?d, re_trace e) @ client_content r"
        "client_ending r = client_ending (fw_client s)"
      using ref Ok hd by (auto split: res.splits)
    show thesis
    proof (cases "cclosed (fw_backend s)")
      case True
      then show thesis
        by (intro packet [OF _ parse_packet_whole [OF parse] parse rest plain, of "put_pooled sl p" "fw_backend s" "[]" "Some ErrClosed"])
          (simp_all add: p up_packet_def rp Ok hd deadline_fails_def Let_def)
    next
      case False
      obtain err0 b0 where w: "WriteServerMessage conn_Write (fw_backend s) (ucast (cmh_MessageID h)) (fc_sessionID cf) ?d [re_trace e] = (err0, b0)"
        by fastforce
      obtain q where q: "prefix q (backend_bytes (fc_sessionID cf) (h, ?d, re_trace e))" "cout b0 = cout (fw_backend s) @ q"
        "err0 = None \<longrightarrow> q = backend_bytes (fc_sessionID cf) (h, ?d, re_trace e)" and
        same: "conn_content b0 = conn_content (fw_backend s)" "cclosed b0 = cclosed (fw_backend s)"
          "croom (fw_backend s) = None \<longrightarrow> croom b0 = None \<and> err0 = None"
        by (rule write_backend_outcome [OF False w])
      show thesis
        by (rule packet [OF _ parse_packet_whole [OF parse] parse rest plain q(2,1,3), of "put_pooled sl p"])
          (use False w same in \<open>cases err0; simp add: p up_packet_def rp Ok hd deadline_fails_def Let_def\<close>)+
    qed
  next
    case (Err x)
    with ref have "\<not> is_ok (parse_packet (fc_maxMessageSize cf) (client_content (fw_client s)) (client_ending (fw_client s)))"
      by (auto split: res.splits prod.splits)
    then show thesis by (intro read_fails [of Left, OF _ p _ plain]) (simp_all add: up_packet_def rp Err)
  next
    case (Panic m)
    with ref have "\<not> is_ok (parse_packet (fc_maxMessageSize cf) (client_content (fw_client s)) (client_ending (fw_client s)))"
      by (auto split: res.splits prod.splits)
    then show thesis by (intro read_fails [of "Crashed m", OF _ p _ plain]) (simp_all add: up_packet_def rp Panic)
  qed
qed

lemma up_packet_inv:
  assumes inv: "up_inv cf stream out n s" and loop: "fw_up s = Looping"
  shows "up_inv cf stream out n (up_packet cf e s)"
proof -
  from inv loop obtain ps where pool: "pool_ok (fw_buffers s)" and prog: "up_progress cf stream out n ps [] s"
    by (auto simp: up_inv_def up_progress_def)
  from pool show ?thesis
  proof (cases rule: up_packet_cases [of s cf e])
    case (read_fails st r p)
    then show ?thesis using up_progress_leave [OF prog, of "up_packet cf e s"] by (auto simp: up_inv_def)
  next
    case (packet h d r p b q err)
    let ?pk = "(h, d, re_trace e)"
    have pre: "prefix (concat (map client_bytes (ps @ [?pk])) @ client_content r) stream"
      using prog loop packet(4) by (simp add: up_progress_def)
    show ?thesis
    proof (cases err)
      case None
      then have "up_progress cf stream out n (ps @ [?pk]) [] (up_packet cf e s)"
        using prog loop pre packet by (auto simp: up_progress_def packets_size_def prefix_def Let_def)
      then show ?thesis using None packet by (auto simp: up_inv_def Let_def)
    next
      case (Some x)
      have "prefix (concat (map client_bytes (ps @ [?pk]))) stream" using pre by (rule append_prefixD)
      then have "up_progress cf stream out n ps q (up_packet cf e s)"
        using prog loop packet Some by (auto simp: up_progress_def Let_def intro!: exI [of _ ?pk])
      then show ?thesis using Some packet by (auto simp: up_inv_def Let_def)
    qed
  qed
qed

section \<open>Messages reach the client in order\<close>

type_synonym reply = "ServerMessageHeader \<times> bytes \<times> bytes"

text \<open>A message as the backend encodes it, and as the client is sent it.\<close>

definition server_header_bytes :: "ServerMessageHeader \<Rightarrow> bytes" where
  "server_header_bytes h = le_bytes 4 (smh_Length h) @ le_bytes 4 (smh_Type h) @ le_bytes 4 (smh_ServerID h) @ le_bytes 8 (smh_ObjectID h)"

fun reply_source :: "reply \<Rightarrow> bytes" where
  "reply_source (h, g, d) = server_header_bytes h @ g @ d"

fun reply_bytes :: "reply \<Rightarrow> bytes" where
  "reply_bytes (h, g, d) = client_header_bytes (reply_header (length d) (smh_Type h)) @ d"

fun whole_reply :: "reply \<Rightarrow> bool" where
  "whole_reply (h, g, d) \<longleftrightarrow> length g = 9 \<and> sint (smh_Length h) = 9 + int (length d)"

lemma server_header_decode:
  assumes "length buf = 20"
  shows "server_header_bytes \<lparr>smh_Length = le_word (take 4 buf), smh_Type = le_word (take 4 (drop 4 buf)),
     smh_ServerID = le_word (take 4 (drop 8 buf)), smh_ObjectID = le_word (drop 12 buf)\<rparr> = buf"
proof -
  have "take 4 buf @ take 4 (drop 4 buf) @ take 4 (drop 8 buf) @ take 8 (drop 12 buf) = buf"
    using assms append_take_drop_id [of 4 buf] append_take_drop_id [of 4 "drop 4 buf"]
      append_take_drop_id [of 4 "drop 8 buf"] by simp
  then show ?thesis using assms by (simp add: server_header_bytes_def)
qed

lemma ReadServerMessageHeader_inv:
  assumes "ReadServerMessageHeader conn_Read c = (res, c')"
  shows "cout c' = cout c \<and> cclosed c' = cclosed c \<and> croom c' = croom c \<and> (\<forall>h. res = Ok h \<longrightarrow> conn_content c = server_header_bytes h @ conn_content c')"
proof -
  obtain x c1 where f: "ReadFull conn_Read c 20 = (x, c1)" by (cases "ReadFull conn_Read c 20")
  have "conn_content c = buf @ conn_content c1 \<and> length buf = 20" if "x = Ok buf" for buf
    using conn_rd.ReadFull_inv [of c 20 buf c1] f that by simp
  with assms f backend_read_out [of c 20] show ?thesis
    by (auto simp: ReadServerMessageHeader_def server_header_decode split: res.splits)
qed

lemma ReadGateMsgHeader_inv:
  assumes "ReadGateMsgHeader conn_Read c = (res, c')"
  shows "cout c' = cout c \<and> cclosed c' = cclosed c \<and> croom c' = croom c \<and>
    (is_ok res \<longrightarrow> (\<exists>g. length g = 9 \<and> conn_content c = g @ conn_content c'))"
proof -
  obtain x c1 where f: "ReadFull conn_Read c 9 = (x, c1)" by (cases "ReadFull conn_Read c 9")
  have "conn_content c = buf @ conn_content c1 \<and> length buf = 9" if "x = Ok buf" for buf
    using conn_rd.ReadFull_inv [of c 9 buf c1] f that by simp
  with assms f backend_read_out [of c 9] show ?thesis
    by (auto simp: ReadGateMsgHeader_def split: res.splits)
qed

lemma read_payload_inv:
  assumes "read_payload n i c p = (res, c', p')" and "pool_ok p"
  shows "pool_ok p' \<and> cout c' = cout c \<and> cclosed c' = cclosed c \<and> croom c' = croom c \<and> (\<forall>m. res \<noteq> Panic m) \<and>
    (\<forall>d. res = Ok d \<longrightarrow> length (payload d) = n \<and> conn_content c = payload d @ conn_content c')"
proof (cases "n = 0")
  case True
  then show ?thesis using assms by (auto simp: read_payload_def payload_def)
next
  case False
  define g where "g = (if n \<le> buffer_size then (case buffer_Get i p of (k, q) \<Rightarrow> (Some k, q)) else (None, p))"
  obtain pooled q where g: "g = (pooled, q)" by (cases g)
  have q: "pool_ok q" "pred_option ((\<le>) n) pooled"
    using g assms(2) buffer_Get_cap [OF assms(2), of i] by (auto simp: g_def split: if_splits prod.splits)
  obtain x c1 p1 where r: "read_into conn_Read c n pooled q = (x, c1, p1)" by (cases "read_into conn_Read c n pooled q")
  then have out: "cout c1 = cout c" "cclosed c1 = cclosed c" "croom c1 = croom c"
    using backend_read_out [of c n]
    by (auto simp: read_into_def split: option.splits if_splits prod.splits res.splits)
  have "pool_ok p1 \<and> (\<forall>m. x \<noteq> Panic m) \<and> (\<forall>d. x = Ok d \<longrightarrow> length (sl_data d) = n \<and> conn_content c = sl_data d @ conn_content c1)"
  proof (cases "n \<le> length (conn_content c)")
    case True
    from conn_rd.read_into_ok [OF this q(2), of q] r q(1) True show ?thesis by auto
  next
    case False
    then have "length (conn_content c) < n" by simp
    from conn_rd.read_into_short [OF this q(2,1)] r show ?thesis by (auto simp: conn_ending_def)
  qed
  then show ?thesis using assms(1) False r out
    by (auto simp: read_payload_def g_def [symmetric] g payload_def split: res.splits)
qed

text \<open>A round of the other direction up to the message it read.\<close>

lemma down_message_read:
  assumes pool: "pool_ok (fw_buffers s)" and open_b: "\<not> cclosed (fw_backend s)"
  obtains (stops) st b p where "st \<noteq> Looping" "pool_ok p" "cout b = cout (fw_backend s)" "cclosed b = cclosed (fw_backend s)"
      "down_message e s = down_leave st (s\<lparr>fw_backend := b, fw_buffers := p\<rparr>)"
  | (reply) h g sl b p where "pool_ok p" "cout b = cout (fw_backend s)" "cclosed b = cclosed (fw_backend s)"
      "croom b = croom (fw_backend s)" "whole_reply (h, g, payload sl)"
      "conn_content (fw_backend s) = reply_source (h, g, payload sl) @ conn_content b"
      "down_message e s =
         (let s1 = s\<lparr>fw_backend := b, fw_buffers := put_payload sl p, fw_bytesOut := fw_bytesOut s + int (length (payload sl))\<rparr>
          in if deadline_fails (cc_socket (bf_rd (fw_client s))) then down_leave Left s1
             else case write_reply (bf_rd (fw_client s)) (smh_Type h) (payload sl) of
               (Some err, c) \<Rightarrow> down_leave Left (s1\<lparr>fw_client := (fw_client s)\<lparr>bf_rd := c\<rparr>\<rparr>)
             | (None, c) \<Rightarrow> s1\<lparr>fw_client := (fw_client s)\<lparr>bf_rd := c\<rparr>, fw_lastActive := re_now e\<rparr>)"
proof -
  obtain r1 b1 where h: "ReadServerMessageHeader conn_Read (fw_backend s) = (r1, b1)" by fastforce
  obtain r2 b2 where g: "ReadGateMsgHeader conn_Read b1 = (r2, b2)" by fastforce
  note inv = ReadServerMessageHeader_inv [OF h] ReadGateMsgHeader_inv [OF g]
  note step = down_message_def deadline_fails_def open_b h g
  have stop1: thesis if "\<not> is_ok r1"
    by (rule stops [of "case r1 of Panic m \<Rightarrow> Crashed m | _ \<Rightarrow> Left" "fw_buffers s" b1])
      (use that inv in \<open>cases r1; simp add: pool step\<close>)+
  have stop2: thesis if "r1 = Ok x" "\<not> is_ok r2" for x
    by (rule stops [of "case r2 of Panic m \<Rightarrow> Crashed m | _ \<Rightarrow> Left" "fw_buffers s" b2])
      (use that inv in \<open>cases r2; simp add: pool step\<close>)+
  show thesis
  proof (cases r1; cases r2)
    fix hd gh assume r: "r1 = Ok hd" "r2 = Ok gh"
    let ?n = "sint (smh_Length hd) - 9"
    obtain r3 b3 p3 where d: "read_payload (nat ?n) (re_buffer e) b2 (fw_buffers s) = (r3, b3, p3)"
      by (cases "read_payload (nat ?n) (re_buffer e) b2 (fw_buffers s)")
    note di = read_payload_inv [OF d pool]
    obtain gb where gb: "length gb = 9" "conn_content b1 = gb @ conn_content b2" using inv(2) r(2) by auto
    consider "?n < 0" | x where "\<not> ?n < 0" "r3 = Err x" | sl where "\<not> ?n < 0" "r3 = Ok sl" using di by (cases r3) auto
    then show thesis
    proof cases
      case 1
      then show thesis using inv by (intro stops [of Left "fw_buffers s" b2]) (simp_all add: pool step r)
    next
      case 2
      then show thesis using inv di by (intro stops [of Left p3 b3]) (simp_all add: step r d Let_def)
    next
      case 3
      then show thesis using inv di gb r
        by (intro reply [of p3 b3 hd gb sl]) (simp_all add: step d Let_def cong: option.case_cong)
    qed
  qed (use stop1 stop2 in auto)
qed

text \<open>The ways a round of the other direction can end.\<close>

lemma down_message_cases:
  assumes pool: "pool_ok (fw_buffers s)"
  obtains (stops) st b p k where "st \<noteq> Looping" "pool_ok p" "cout b = cout (fw_backend s)" "cclosed b = cclosed (fw_backend s)"
      "down_message e s = down_leave st (s\<lparr>fw_backend := b, fw_buffers := p, fw_bytesOut := k\<rparr>)"
  | (message) h g d b p c and err :: "go_error option" where "pool_ok p" "cout b = cout (fw_backend s)" "cclosed b = cclosed (fw_backend s)"
      "croom b = croom (fw_backend s)" "whole_reply (h, g, d)"
      "conn_content (fw_backend s) = reply_source (h, g, d) @ conn_content b"
      "write_reply (bf_rd (fw_client s)) (smh_Type h) d = (err, c)" "\<not> cclosed (cc_socket (bf_rd (fw_client s)))"
      "let s' = s\<lparr>fw_backend := b, fw_buffers := p, fw_bytesOut := fw_bytesOut s + int (length d),
          fw_client := (fw_client s)\<lparr>bf_rd := c\<rparr>\<rparr>
       in down_message e s = (case err of None \<Rightarrow> s'\<lparr>fw_lastActive := re_now e\<rparr> | Some x \<Rightarrow> down_leave Left s')"
proof (cases "cclosed (fw_backend s)")
  case True
  show thesis
    by (rule stops [of Left "fw_buffers s" "fw_backend s" "fw_bytesOut s"]) (simp_all add: pool True down_message_def deadline_fails_def)
next
  case False
  show thesis
  proof (cases rule: down_message_read [OF pool False, of e])
    case (1 st b p)
    then show thesis by (intro stops [of st p b "fw_bytesOut s"]) simp_all
  next
    case (2 h g sl b p)
    obtain err c where w: "write_reply (bf_rd (fw_client s)) (smh_Type h) (payload sl) = (err, c)" by fastforce
    show thesis
    proof (cases "cclosed (cc_socket (bf_rd (fw_client s)))")
      case True
      with 2 show thesis
        by (intro stops [of Left "put_payload sl p" b "fw_bytesOut s + int (length (payload sl))"]) (simp_all add: deadline_fails_def Let_def)
    next
      case False
      with 2 w show thesis
        by (intro message [of "put_payload sl p" b h g "payload sl" err c]) (simp_all add: deadline_fails_def Let_def split: option.split)
    qed
  qed
qed

lemma write_reply_content:
  assumes "write_reply c t d = (err, c')"
  shows "cc_content c' = cc_content c"
proof -
  obtain e1 c1 where w: "cc_Write c (client_header_bytes (reply_header (length d) t)) = (e1, c1)"
    by (cases "cc_Write c (client_header_bytes (reply_header (length d) t))")
  note 1 = cc_Write_content [OF w]
  show ?thesis
  proof (cases "e1 = None \<and> d \<noteq> []")
    case True
    then have "cc_Write c1 d = (err, c')" using assms w by (simp add: write_reply_def WriteClientMessageHeader_def)
    from cc_Write_content [OF this] 1 show ?thesis by simp
  next
    case False
    then have "c' = c1" using assms w by (cases e1) (auto simp: write_reply_def WriteClientMessageHeader_def)
    then show ?thesis using 1 by simp
  qed
qed

lemma cc_Write_plain:
  assumes "cc_Write c p = (err, c')" and "plain_out c = Some out"
  shows "\<exists>q. plain_out c' = Some (out @ q) \<and> prefix q p \<and> (err = None \<longrightarrow> q = p)"
proof -
  obtain b where c: "c = TCPClient b" using assms(2) by (cases c) auto
  obtain k where k: "conn_Write (bf_rd b) p = (err, k)" "c' = TCPClient (b\<lparr>bf_rd := k\<rparr>)"
    using assms(1) c by (auto split: prod.splits)
  have "\<exists>q. cout k = cout (bf_rd b) @ q \<and> prefix q p \<and> (err = None \<longrightarrow> q = p)"
    using conn_wr.write_ok [of "bf_rd b" p k] conn_wr.write_err [of "bf_rd b" p _ k] k(1) by (cases err) auto
  then show ?thesis using assms(2) c k(2) by auto
qed

lemma write_reply_plain:
  assumes "write_reply c t d = (err, c')" and "plain_out c = Some out"
  shows "\<exists>q. plain_out c' = Some (out @ q) \<and> prefix q (client_header_bytes (reply_header (length d) t) @ d) \<and>
    (err = None \<longrightarrow> q = client_header_bytes (reply_header (length d) t) @ d)"
proof -
  let ?h = "client_header_bytes (reply_header (length d) t)"
  obtain e1 c1 where w: "cc_Write c ?h = (e1, c1)" by (cases "cc_Write c ?h")
  from cc_Write_plain [OF this assms(2)] obtain q1 where
    1: "plain_out c1 = Some (out @ q1)" "prefix q1 ?h" "e1 = None \<longrightarrow> q1 = ?h" by blast
  show ?thesis
  proof (cases "e1 = None \<and> d \<noteq> []")
    case True
    then have "cc_Write c1 d = (err, c')" using assms w by (simp add: write_reply_def WriteClientMessageHeader_def)
    from cc_Write_plain [OF this 1(1)] 1(3) True show ?thesis by auto
  next
    case False
    then have "c' = c1" "err = e1" "d = [] \<or> err \<noteq> None"
      using assms w by (cases e1; auto simp: write_reply_def WriteClientMessageHeader_def)+
    then show ?thesis using 1 by (auto intro: prefix_prefix)
  qed
qed

lemma plain_out_Close [simp]: "plain_out (cc_Close c) = plain_out c"
  by (cases c) simp_all

section \<open>Both directions under any interleaving\<close>

definition down_progress :: "bytes \<Rightarrow> bytes \<Rightarrow> int \<Rightarrow> reply list \<Rightarrow> bytes \<Rightarrow> fwd \<Rightarrow> bool" where
  "down_progress stream out n rs part s \<longleftrightarrow>
     list_all whole_reply rs \<and> prefix (concat (map reply_source rs)) stream \<and>
     plain_out (bf_rd (fw_client s)) = Some (out @ concat (map reply_bytes rs) @ part) \<and>
     (part \<noteq> [] \<longrightarrow> (\<exists>r. whole_reply r \<and> prefix (concat (map reply_source (rs @ [r]))) stream \<and> prefix part (reply_bytes r))) \<and>
     (fw_down s = Looping \<longrightarrow> part = [] \<and> fw_bytesOut s = n + int (length (concat (map (\<lambda>(h, g, d). d) rs))) \<and>
        prefix (concat (map reply_source rs) @ conn_content (fw_backend s)) stream)"

definition down_inv :: "bytes \<Rightarrow> bytes \<Rightarrow> int \<Rightarrow> fwd \<Rightarrow> bool" where
  "down_inv stream out n s \<longleftrightarrow> pool_ok (fw_buffers s) \<and> (\<exists>rs part. down_progress stream out n rs part s)"

lemma down_progress_leave:
  assumes "down_progress stream out n rs part s" and "plain_out (bf_rd (fw_client s')) = plain_out (bf_rd (fw_client s))"
    and "fw_down s' \<noteq> Looping"
  shows "down_progress stream out n rs part s'"
  using assms by (auto simp: down_progress_def)

text \<open>A round of one direction leaves the progress of the other as it was.\<close>

lemma up_progress_frame:
  assumes "up_progress cf stream out n ps part s" and "cout (fw_backend s') = cout (fw_backend s)"
    and "fw_up s' = fw_up s" and "fw_bytesIn s' = fw_bytesIn s"
    and "prefix (client_content (fw_client s')) (client_content (fw_client s))"
  shows "up_progress cf stream out n ps part s'"
  using assms by (auto simp: up_progress_def intro: prefix_order.trans [OF prefix_append_mono])

lemma down_progress_frame:
  assumes "down_progress stream out n rs part s" and "plain_out (bf_rd (fw_client s')) = plain_out (bf_rd (fw_client s))"
    and "fw_down s' = fw_down s" and "fw_bytesOut s' = fw_bytesOut s"
    and "prefix (conn_content (fw_backend s')) (conn_content (fw_backend s))"
  shows "down_progress stream out n rs part s'"
  using assms by (auto simp: down_progress_def intro: prefix_order.trans [OF prefix_append_mono])

lemma client_content_close: "prefix (client_content (fw_client (down_leave st s))) (client_content (fw_client s))"
  by (simp add: client_content_def cc_Close_prefix)

lemma up_inv_down_message:
  assumes "up_inv cf stream out n s"
  shows "up_inv cf stream out n (down_message e s)"
proof -
  from assms obtain ps part where pool: "pool_ok (fw_buffers s)" and prog: "up_progress cf stream out n ps part s"
    by (auto simp: up_inv_def)
  from pool show ?thesis
  proof (cases rule: down_message_cases [of s e])
    case (stops st b p k)
    then show ?thesis
      using up_progress_frame [OF prog, of "down_message e s"]
        client_content_close [of st "s\<lparr>fw_backend := b, fw_buffers := p, fw_bytesOut := k\<rparr>"]
      by (auto simp: up_inv_def)
  next
    case (message h g d b p c err)
    have c: "client_content ((fw_client s)\<lparr>bf_rd := c\<rparr>) = client_content (fw_client s)"
      using write_reply_content [OF message(7)] by (simp add: client_content_def)
    show ?thesis
      using up_progress_frame [OF prog, of "down_message e s"] message
        client_content_close [of Left "s\<lparr>fw_backend := b, fw_buffers := p, fw_bytesOut := fw_bytesOut s + int (length d),
          fw_client := (fw_client s)\<lparr>bf_rd := c\<rparr>\<rparr>"]
      by (cases err) (auto simp: up_inv_def Let_def c)
  qed
qed

lemma down_message_inv:
  assumes inv: "down_inv stream out n s" and loop: "fw_down s = Looping"
  shows "down_inv stream out n (down_message e s)"
proof -
  from inv loop obtain rs where pool: "pool_ok (fw_buffers s)" and prog: "down_progress stream out n rs [] s"
    by (auto simp: down_inv_def down_progress_def)
  from pool show ?thesis
  proof (cases rule: down_message_cases [of s e])
    case (stops st b p k)
    then show ?thesis using down_progress_leave [OF prog, of "down_message e s"] by (auto simp: down_inv_def)
  next
    case (message h g d b p c err)
    let ?r = "(h, g, d)"
    obtain q where q: "plain_out c = Some (out @ concat (map reply_bytes rs) @ q)" "prefix q (reply_bytes ?r)"
        "err = None \<longrightarrow> q = reply_bytes ?r"
      using write_reply_plain [OF message(7)] prog by (auto simp: down_progress_def)
    have pre: "prefix (concat (map reply_source (rs @ [?r])) @ conn_content b) stream"
      using prog loop message(6) by (simp add: down_progress_def)
    show ?thesis
    proof (cases err)
      case None
      then have "down_progress stream out n (rs @ [?r]) [] (down_message e s)"
        using prog loop pre message q by (auto simp: down_progress_def prefix_def Let_def)
      then show ?thesis using None message by (auto simp: down_inv_def Let_def)
    next
      case (Some x)
      have "prefix (concat (map reply_source (rs @ [?r]))) stream" using pre by (rule append_prefixD)
      then have "down_progress stream out n rs q (down_message e s)"
        using prog loop message Some q by (auto simp: down_progress_def Let_def intro!: exI [of _ ?r])
      then show ?thesis using Some message by (auto simp: down_inv_def Let_def)
    qed
  qed
qed

lemma down_inv_up_packet:
  assumes "down_inv stream out n s"
  shows "down_inv stream out n (up_packet cf e s)"
proof -
  from assms obtain rs part where pool: "pool_ok (fw_buffers s)" and prog: "down_progress stream out n rs part s"
    by (auto simp: down_inv_def)
  from pool show ?thesis
  proof (cases rule: up_packet_cases [of s cf e])
    case (read_fails st r p)
    then show ?thesis using down_progress_frame [OF prog, of "up_packet cf e s"] by (auto simp: down_inv_def)
  next
    case (packet h d r p b q err)
    then show ?thesis using down_progress_frame [OF prog, of "up_packet cf e s"]
      by (cases err) (auto simp: down_inv_def Let_def)
  qed
qed

lemma up_inv_leave: "up_inv cf stream out n s \<Longrightarrow> st \<noteq> Looping \<Longrightarrow> up_inv cf stream out n (up_leave st s)"
  by (fastforce simp: up_inv_def intro: up_progress_leave [of _ _ _ _ _ _ s])

lemma up_inv_down_leave: "up_inv cf stream out n s \<Longrightarrow> up_inv cf stream out n (down_leave st s)"
  by (fastforce simp: up_inv_def intro: up_progress_frame [of _ _ _ _ _ _ s] client_content_close)

lemma down_inv_leave: "down_inv stream out n s \<Longrightarrow> st \<noteq> Looping \<Longrightarrow> down_inv stream out n (down_leave st s)"
  by (fastforce simp: down_inv_def intro: down_progress_leave [of _ _ _ _ _ s])

lemma down_inv_up_leave: "down_inv stream out n s \<Longrightarrow> down_inv stream out n (up_leave st s)"
  by (fastforce simp: down_inv_def intro: down_progress_frame [of _ _ _ _ _ s])

lemma up_inv_step: "up_inv cf stream out n s \<Longrightarrow> up_inv cf stream out n (fwd_step cf ev s)"
  by (cases ev)
    (auto simp: up_round_def down_round_def up_inv_leave up_inv_down_leave up_packet_inv up_inv_down_message split: select_case.split)

lemma down_inv_step: "down_inv stream out n s \<Longrightarrow> down_inv stream out n (fwd_step cf ev s)"
  by (cases ev)
    (auto simp: up_round_def down_round_def down_inv_leave down_inv_up_leave down_message_inv down_inv_up_packet split: select_case.split)

lemma forward_invariant:
  assumes "\<And>ev s. I s \<Longrightarrow> I (fwd_step cf ev s)" and "I s"
  shows "I (forwardConnection cf evs s)"
  unfolding forwardConnection_def by (rule fold_invariant [where Q = "\<lambda>_. True"]) (simp_all add: assms)

section \<open>Order\<close>

type_synonym client_packet = "ClientMessageHeader \<times> bytes"

definition encoded :: "client_packet list \<Rightarrow> bytes" where
  "encoded ps = concat (map (\<lambda>(h, d). client_header_bytes h @ d) ps)"

text \<open>A client that sends one packet of two bytes, an idle backend, and two rounds.\<close>

definition sample_packet :: client_packet where
  "sample_packet = (\<lparr>cmh_Length = 2, cmh_MessageID = 7, cmh_ServerID = 0\<rparr>, [5, 6])"

definition sample_client :: client_conn where
  "sample_client = TCPClient \<lparr>bf_buf = [], bf_rd =
     \<lparr>cin = [encoded [sample_packet]], cend = EOF, cout = [], croom = None, cclosed = False\<rparr>\<rparr>"

definition idle_backend :: conn where
  "idle_backend = \<lparr>cin = [], cend = ErrTimeout, cout = [], croom = None, cclosed = False\<rparr>"

definition sample_round :: round_env where
  "sample_round = \<lparr>re_buffer = 0, re_trace = None, re_now = 0\<rparr>"

definition sample_conf :: fwd_conf where
  "sample_conf = \<lparr>fc_maxMessageSize = 1024, fc_sessionID = 9\<rparr>"

lemma sample_client_simps:
  "cc_content sample_client = encoded [sample_packet]" "plain_out sample_client = Some []"
  "cc_socket sample_client = \<lparr>cin = [encoded [sample_packet]], cend = EOF, cout = [], croom = None, cclosed = False\<rparr>"
  by (simp_all add: sample_client_def conn_content_def)

text \<open>
  C7. Forwarding to the backend.  Whatever the interleaving of the two goroutines, the
  branches of their \<open>select\<close>s, the segmentation of the streams and the failures of the
  connections, the backend has received, after what it had before, exactly the messages of
  the packets at the front of the client's stream, in order and under the session's ID; only
  the last message, of a goroutine that has left, can be cut short.
\<close>

theorem forward_up_in_order:
  assumes "pool_ok p"
  shows "\<exists>ps part. up_progress cf (cc_content c) (cout b) k ps part (forwardConnection cf evs (fwd_start c b p k n t))"
proof -
  have "up_inv cf (cc_content c) (cout b) k (fwd_start c b p k n t)"
    using assms
    by (auto simp: fwd_start_def Let_def bufio_NewReader_def up_inv_def up_progress_def packets_size_def
        client_content_def cc_Close_prefix intro!: exI [of _ "[]"])
  from forward_invariant [where I = "up_inv cf (cc_content c) (cout b) k", OF up_inv_step this]
  show ?thesis by (auto simp: up_inv_def)
qed

theorem forward_up_in_order_witness:
  "\<exists>ps part. up_progress sample_conf (encoded [sample_packet]) [] 0 ps part
     (forwardConnection sample_conf [Down Default sample_round, Up Default sample_round] (fwd_start sample_client idle_backend [] 0 0 0))"
  using forward_up_in_order [of "[]" sample_conf sample_client idle_backend 0 "[Down Default sample_round, Up Default sample_round]" 0 0]
  by (simp add: sample_client_simps idle_backend_def)

text \<open>
  C8. Forwarding to the client.  Under the same conditions a TCP client has received exactly
  the messages at the front of the backend's stream, in order, each as a header with the
  16-bit length and message ID followed by the payload.
\<close>

theorem forward_down_in_order:
  assumes "pool_ok p" and "plain_out c = Some out"
  shows "\<exists>rs part. down_progress (conn_content b) out n rs part (forwardConnection cf evs (fwd_start c b p k n t))"
proof -
  have "down_inv (conn_content b) out n (fwd_start c b p k n t)"
    using assms
    by (auto simp: fwd_start_def Let_def bufio_NewReader_def down_inv_def down_progress_def intro!: exI [of _ "[]"])
  from forward_invariant [where I = "down_inv (conn_content b) out n", OF down_inv_step this]
  show ?thesis by (auto simp: down_inv_def)
qed

theorem forward_down_in_order_witness:
  "\<exists>rs part. down_progress [1, 2, 3] [] 0 rs part
     (forwardConnection sample_conf [Up Tick sample_round, Down Default sample_round]
        (fwd_start sample_client (idle_backend\<lparr>cin := [[1, 2], [3]]\<rparr>) [] 0 0 0))"
  using forward_down_in_order [of "[]" sample_client "[]" "idle_backend\<lparr>cin := [[1, 2], [3]]\<rparr>" 0 sample_conf
      "[Up Tick sample_round, Down Default sample_round]" 0 0]
  by (simp add: sample_client_simps idle_backend_def conn_content_def)

text \<open>
  C10. The length of a reply is written in 16 bits: a client that reads the reply as a packet
  gets its payload exactly when that is shorter than 65536 bytes.  A longer message of the
  backend is passed on with a wrong length, and the client takes the rest of it for packets.
\<close>

theorem reply_readable_iff:
  "(\<exists>hd. parse_packet 0 (reply_bytes (h, g, d) @ rest) e = Ok (hd, d)) \<longleftrightarrow> length d < 65536"
proof -
  let ?n = "length d mod 65536"
  have n: "unat (cmh_Length (reply_header (length d) (smh_Type h))) = ?n"
    by (simp add: reply_header_def unat_of_nat)
  have parse: "parse_packet 0 (reply_bytes (h, g, d) @ rest) e = Ok (reply_header (length d) (smh_Type h), take ?n (d @ rest))"
    by (simp add: parse_packet_def Let_def n)
  have "take ?n (d @ rest) = d \<longleftrightarrow> length d < 65536"
  proof
    assume "take ?n (d @ rest) = d"
    then have "length d \<le> ?n" by (metis length_take min.cobounded2)
    also have "?n < 65536" by simp
    finally show "length d < 65536" .
  qed simp
  then show ?thesis unfolding parse by blast
qed

section \<open>Every packet is delivered\<close>

definition untraced :: "sent_packet \<Rightarrow> client_packet" where
  "untraced p = (case p of (h, d, tc) \<Rightarrow> (h, d))"

definition sendable :: "int \<Rightarrow> client_packet \<Rightarrow> bool" where
  "sendable m p \<longleftrightarrow> length (snd p) = unat (cmh_Length (fst p)) \<and> (0 < m \<longrightarrow> int (length (snd p)) \<le> m)"

lemma parse_encoded:
  "sendable m (h, d) \<Longrightarrow> parse_packet m (encoded ((h, d) # ps)) e = Ok (h, d)"
  by (auto simp: parse_packet_def encoded_def sendable_def Let_def)

text \<open>
  While the other direction goes on, the goroutine has sent \<open>ds\<close> and has \<open>rest\<close> to send,
  or has sent everything and left; \<open>k\<close> is the number of its rounds so far.
\<close>

definition delivering :: "fwd_conf \<Rightarrow> client_packet list \<Rightarrow> bytes \<Rightarrow> nat \<Rightarrow> sent_packet list \<Rightarrow> client_packet list \<Rightarrow> fwd \<Rightarrow> bool" where
  "delivering cf ps out k ds rest s \<longleftrightarrow>
     \<not> cclosed (cc_socket (bf_rd (fw_client s))) \<and> croom (fw_backend s) = None \<and> map untraced ds @ rest = ps \<and>
     cout (fw_backend s) = out @ concat (map (backend_bytes (fc_sessionID cf)) ds) \<and>
     (if fw_up s = Looping
      then \<not> cclosed (fw_backend s) \<and> \<not> fw_done s \<and> client_content (fw_client s) = encoded rest \<and> k \<le> length ds
      else rest = [] \<and> cclosed (fw_backend s) \<and> fw_done s)"

definition deliver_inv :: "fwd_conf \<Rightarrow> client_packet list \<Rightarrow> bytes \<Rightarrow> nat \<Rightarrow> fwd \<Rightarrow> bool" where
  "deliver_inv cf ps out k s \<longleftrightarrow> pool_ok (fw_buffers s) \<and>
     (fw_down s = Looping \<longrightarrow> (\<exists>ds rest. delivering cf ps out k ds rest s))"

fun is_send :: "fwd_event \<Rightarrow> bool" where
  "is_send (Up Default e) = True"
| "is_send _ = False"

lemma deliver_up_packet:
  assumes inv: "deliver_inv cf ps out k s" and loop: "fw_up s = Looping" and ok: "list_all (sendable (fc_maxMessageSize cf)) ps"
  shows "deliver_inv cf ps out (Suc k) (up_packet cf e s)"
proof (cases "fw_down s = Looping")
  case True
  from inv True obtain ds rest where pool: "pool_ok (fw_buffers s)" and d: "delivering cf ps out k ds rest s"
    by (auto simp: deliver_inv_def)
  have c: "client_content (fw_client s) = encoded rest" and send: "list_all (sendable (fc_maxMessageSize cf)) rest"
    using d loop ok by (auto simp: delivering_def)
  from pool show ?thesis
  proof (cases rule: up_packet_cases [of s cf e])
    case (read_fails st r p)
    have "rest = []"
      using read_fails(3) c send by (cases rest) (auto simp: parse_encoded)
    with read_fails d loop have "delivering cf ps out (Suc k) ds [] (up_packet cf e s)"
      by (auto simp: delivering_def)
    then show ?thesis using read_fails by (auto simp: deliver_inv_def)
  next
    case (packet h d' r p b q err)
    have "rest \<noteq> []" using packet(3) c by (auto simp: parse_packet_def encoded_def)
    then obtain h0 d0 rest' where rest: "rest = (h0, d0) # rest'" by (cases rest) auto
    then have hd: "h0 = h" "d0 = d'"
      using packet(3) c send parse_encoded [of "fc_maxMessageSize cf" h0 d0 rest' "client_ending (fw_client s)"] by auto
    have "err = None" using packet(14) d loop by (auto simp: delivering_def)
    moreover have "client_content r = encoded rest'" using packet(4) c rest hd by (simp add: encoded_def)
    ultimately have "delivering cf ps out (Suc k) (ds @ [(h, d', re_trace e)]) rest' (up_packet cf e s)"
      using d packet rest hd loop by (auto simp: delivering_def untraced_def Let_def)
    then show ?thesis using packet \<open>err = None\<close> by (auto simp: deliver_inv_def Let_def)
  qed
next
  case False
  from inv have "pool_ok (fw_buffers s)" by (simp add: deliver_inv_def)
  then show ?thesis using False
    by (cases rule: up_packet_cases [of s cf e])
      (auto simp: deliver_inv_def Let_def split: option.splits)
qed

lemma cc_Write_closed: "cc_Write c p = (e, c') \<Longrightarrow> cclosed (cc_socket c') = cclosed (cc_socket c)"
proof (cases c)
  case (TCPClient b)
  assume "cc_Write c p = (e, c')"
  then show ?thesis using TCPClient by (auto split: prod.splits dest: conn_Write_conn)
next
  case (WSClient w)
  assume "cc_Write c p = (e, c')"
  moreover obtain e' k where "writeFrame (ws_conn w) wsOpcodeBinary p True = (e', k)"
    by (cases "writeFrame (ws_conn w) wsOpcodeBinary p True")
  ultimately show ?thesis using WSClient writeFrame_closed [of "ws_conn w" wsOpcodeBinary p True]
    by (auto simp: ws_Write_def ws_set_conn_def)
qed

lemma write_reply_closed: "write_reply c t d = (err, c') \<Longrightarrow> cclosed (cc_socket c') = cclosed (cc_socket c)"
  by (auto simp: write_reply_def WriteClientMessageHeader_def dest!: cc_Write_closed split: prod.splits option.splits if_splits)

lemma deliver_down_message:
  assumes inv: "deliver_inv cf ps out k s" and loop: "fw_down s = Looping"
  shows "deliver_inv cf ps out k (down_message e s)"
proof -
  from inv loop obtain ds rest where pool: "pool_ok (fw_buffers s)" and d: "delivering cf ps out k ds rest s"
    by (auto simp: deliver_inv_def)
  from pool show ?thesis
  proof (cases rule: down_message_cases [of s e])
    case (stops st b p kk)
    then show ?thesis by (auto simp: deliver_inv_def)
  next
    case (message h g d' b p c err)
    show ?thesis
    proof (cases err)
      case None
      have "client_content ((fw_client s)\<lparr>bf_rd := c\<rparr>) = client_content (fw_client s)"
        "cclosed (cc_socket c) = cclosed (cc_socket (bf_rd (fw_client s)))"
        using write_reply_content [OF message(7)] write_reply_closed [OF message(7)] by (simp_all add: client_content_def)
      with None message d have "delivering cf ps out k ds rest (down_message e s)"
        by (auto simp: delivering_def Let_def)
      then show ?thesis using None message by (auto simp: deliver_inv_def Let_def)
    next
      case (Some x)
      then show ?thesis using message by (auto simp: deliver_inv_def Let_def)
    qed
  qed
qed

lemma deliver_step:
  assumes inv: "deliver_inv cf ps out k s" and ok: "list_all (sendable (fc_maxMessageSize cf)) ps"
  shows "deliver_inv cf ps out (k + (if is_send ev then 1 else 0)) (fwd_step cf ev s)"
proof (cases ev)
  case (Up sel e)
  show ?thesis
  proof (cases "fw_up s = Looping")
    case True
    have "up_round cf CtxDone e s = s \<or> fw_down s \<noteq> Looping" "up_round cf Tick e s = s \<or> fw_down s \<noteq> Looping"
      using inv True by (auto simp: up_round_def deliver_inv_def delivering_def deadline_fails_def)
    moreover have "fw_down (up_round cf sel e s) = fw_down s \<and> fw_buffers (up_round cf sel e s) = fw_buffers s" if "sel \<noteq> Default" for sel
      using that by (cases sel) (auto simp: up_round_def)
    ultimately have "deliver_inv cf ps out k (up_round cf CtxDone e s)" "deliver_inv cf ps out k (up_round cf Tick e s)"
      using inv by (fastforce simp: deliver_inv_def)+
    then show ?thesis using deliver_up_packet [OF inv True ok, of e] True Up
      by (cases sel) (simp_all add: up_round_def)
  next
    case False
    then show ?thesis using inv Up by (auto simp: up_round_def deliver_inv_def delivering_def)
  qed
next
  case (Down sel e)
  have "deliver_inv cf ps out k (down_leave Left s)" using inv by (auto simp: deliver_inv_def)
  then show ?thesis using inv deliver_down_message [OF inv, of e] Down
    by (cases sel) (auto simp: down_round_def)
qed


lemma deliver_run:
  assumes "deliver_inv cf ps out k s" and "list_all (sendable (fc_maxMessageSize cf)) ps"
  shows "deliver_inv cf ps out (k + length (filter is_send evs)) (forwardConnection cf evs s)"
  using assms(1)
proof (induction evs arbitrary: k s)
  case (Cons ev evs)
  from Cons.IH [OF deliver_step [OF Cons.prems assms(2), of ev]] show ?case
    by (cases "is_send ev") (simp_all add: forwardConnection_def)
qed (simp add: forwardConnection_def)

text \<open>
  Delivery.  When the client sends whole packets within the size limit, the backend
  takes what is written and the other direction goes on, then after more rounds than there
  are packets the backend has received the message of every packet, in order, and its
  connection is closed; nothing depends on how the rounds are interleaved.
\<close>

theorem forward_delivers:
  assumes "cc_content c = encoded ps" and "list_all (sendable (fc_maxMessageSize cf)) ps"
    and "\<not> cclosed (cc_socket c)" and "\<not> cclosed b" and "croom b = None" and "pool_ok p"
    and "length ps < length (filter is_send evs)"
    and run: "forwardConnection cf evs (fwd_start c b p k n t) = s" and "fw_down s = Looping"
  shows "\<exists>sent. map untraced sent = ps \<and>
    cout (fw_backend s) = cout b @ concat (map (backend_bytes (fc_sessionID cf)) sent) \<and>
    fw_up s \<noteq> Looping \<and> cclosed (fw_backend s) \<and> fw_done s"
proof -
  have "delivering cf ps (cout b) 0 [] ps (fwd_start c b p k n t)"
    using assms(1-5)
    by (simp add: fwd_start_def Let_def deadline_fails_def bufio_NewReader_def delivering_def client_content_def)
  moreover have "pool_ok (fw_buffers (fwd_start c b p k n t))" using assms(6) by (simp add: fwd_start_def Let_def)
  ultimately have "deliver_inv cf ps (cout b) 0 (fwd_start c b p k n t)" by (auto simp: deliver_inv_def)
  from deliver_run [OF this assms(2), of evs] run assms(9)
  obtain ds rest where d: "delivering cf ps (cout b) (length (filter is_send evs)) ds rest s"
    by (auto simp: deliver_inv_def)
  have "fw_up s \<noteq> Looping"
  proof
    assume "fw_up s = Looping"
    with d have "length (filter is_send evs) \<le> length ds" "length ds \<le> length ps" by (auto simp: delivering_def)
    with assms(7) show False by simp
  qed
  with d show ?thesis by (auto simp: delivering_def intro!: exI [of _ ds])
qed

theorem forward_delivers_witness:
  "\<exists>sent. map untraced sent = [sample_packet] \<and>
     cout (fw_backend (forwardConnection sample_conf (map (\<lambda>(sel, e). Up sel e) [(Default, sample_round), (Default, sample_round)])
       (fwd_start sample_client idle_backend [] 0 0 0))) = concat (map (backend_bytes 9) sent)"
proof -
  let ?evs = "map (\<lambda>(sel, e). Up sel e) [(Default, sample_round), (Default, sample_round)]"
  have start: "fw_down (fwd_start sample_client idle_backend [] 0 0 0) = Looping"
    by (simp add: fwd_start_def idle_backend_def deadline_fails_def)
  let ?s = "forwardConnection sample_conf ?evs (fwd_start sample_client idle_backend [] 0 0 0)"
  have "\<exists>sent. map untraced sent = [sample_packet] \<and>
      cout (fw_backend ?s) = cout idle_backend @ concat (map (backend_bytes (fc_sessionID sample_conf)) sent) \<and>
      fw_up ?s \<noteq> Looping \<and> cclosed (fw_backend ?s) \<and> fw_done ?s"
  proof (rule forward_delivers [OF sample_client_simps(1) _ _ _ _ _ _ refl])
    show "fw_down ?s = Looping" unfolding up_rounds_down by (rule start)
  qed (simp_all add: sample_client_simps idle_backend_def sendable_def sample_packet_def sample_conf_def)
  then obtain sent where "map untraced sent = [sample_packet]"
      "cout (fw_backend ?s) = cout idle_backend @ concat (map (backend_bytes (fc_sessionID sample_conf)) sent)"
    by (elim exE conjE)
  moreover have "cout idle_backend = []" "fc_sessionID sample_conf = 9" by (simp_all add: idle_backend_def sample_conf_def)
  ultimately show ?thesis by (intro exI [of _ sent] conjI) simp_all
qed

section \<open>One end closes both\<close>

lemma up_round_shrinks:
  assumes "pool_ok (fw_buffers s)" and "fw_up s = Looping" and "fw_done s" and "cclosed (cc_socket (bf_rd (fw_client s)))"
  shows "fw_up (up_round cf sel e s) \<noteq> Looping \<or>
    length (client_content (fw_client (up_round cf sel e s))) < length (client_content (fw_client s))"
proof (cases sel)
  case Default
  from assms(1) show ?thesis
  proof (cases rule: up_packet_cases [of s cf e])
    case (packet h d r p b q err)
    then show ?thesis using Default assms(2) by (cases err) (auto simp: up_round_def Let_def)
  qed (use Default assms(2) in \<open>simp add: up_round_def\<close>)
qed (use assms in \<open>auto simp: up_round_def deadline_fails_def\<close>)


lemma cc_Close_closed [simp]: "cclosed (cc_socket (cc_Close c))"
  by (cases c) (auto simp: ws_Close_def ws_set_conn_def Let_def conn_Close_def split: prod.splits)

text \<open>A goroutine that has left has closed its connection and cancelled the context.\<close>

definition close_inv :: "fwd \<Rightarrow> bool" where
  "close_inv s \<longleftrightarrow> pool_ok (fw_buffers s) \<and>
     (fw_up s \<noteq> Looping \<longrightarrow> cclosed (fw_backend s) \<and> fw_done s) \<and>
     (fw_down s \<noteq> Looping \<longrightarrow> cclosed (cc_socket (bf_rd (fw_client s))) \<and> fw_done s)"

lemma close_inv_up_packet: "close_inv s \<Longrightarrow> close_inv (up_packet cf e s)"
proof -
  assume inv: "close_inv s"
  then have "pool_ok (fw_buffers s)" by (simp add: close_inv_def)
  then show ?thesis using inv
    by (cases rule: up_packet_cases [of s cf e])
      (auto simp: close_inv_def Let_def split: option.splits)
qed

lemma close_inv_down_message: "close_inv s \<Longrightarrow> close_inv (down_message e s)"
proof -
  assume inv: "close_inv s"
  then have "pool_ok (fw_buffers s)" by (simp add: close_inv_def)
  then show ?thesis
  proof (cases rule: down_message_cases [of s e])
    case (message h g d b p c err)
    then show ?thesis using inv write_reply_closed [OF message(7)]
      by (cases err) (auto simp: close_inv_def Let_def)
  qed (use inv in \<open>auto simp: close_inv_def\<close>)
qed

lemma close_inv_step: "close_inv s \<Longrightarrow> close_inv (fwd_step cf ev s)"
proof (cases ev)
  case (Up sel e)
  assume inv: "close_inv s"
  then have "close_inv (up_leave Left s)" by (auto simp: close_inv_def)
  then show ?thesis using Up inv close_inv_up_packet [OF inv] by (cases sel) (auto simp: up_round_def)
next
  case (Down sel e)
  assume inv: "close_inv s"
  then have "close_inv (down_leave Left s)" by (auto simp: close_inv_def)
  then show ?thesis using Down inv close_inv_down_message [OF inv] by (cases sel) (auto simp: down_round_def)
qed

lemma forward_close_inv: "pool_ok p \<Longrightarrow> close_inv (forwardConnection cf evs (fwd_start c b p k n t))"
  by (rule forward_invariant [where I = close_inv, OF close_inv_step])
    (auto simp: close_inv_def fwd_start_def Let_def bufio_NewReader_def deadline_fails_def)

text \<open>The rounds left to a goroutine whose client was closed under it.\<close>

lemma up_rounds_end:
  assumes "close_inv s" and "fw_down s \<noteq> Looping" and "length (client_content (fw_client s)) < length rounds"
  shows "fw_up (forwardConnection cf (map (\<lambda>(sel, e). Up sel e) rounds) s) \<noteq> Looping"
  using assms
proof (induction rounds arbitrary: s)
  case (Cons r rounds)
  obtain sel e where r: "r = (sel, e)" by (cases r)
  let ?s = "up_round cf sel e s"
  have inv: "close_inv ?s" using close_inv_step [OF Cons.prems(1), of cf "Up sel e"] by simp
  show ?case
  proof (cases "fw_up s = Looping \<and> fw_up ?s = Looping")
    case True
    have "length (client_content (fw_client ?s)) < length (client_content (fw_client s))"
      using up_round_shrinks [of s cf sel e] Cons.prems(1,2) True by (auto simp: close_inv_def)
    then show ?thesis using Cons.IH [OF inv] Cons.prems r by (simp add: forwardConnection_def)
  next
    case False
    have stay: "fw_up (forwardConnection cf (map (\<lambda>(sel, e). Up sel e) rs) s) \<noteq> Looping" if "fw_up s \<noteq> Looping" for rs s
      using that by (induction rs) (auto simp: forwardConnection_def up_round_def)
    have "fw_up ?s \<noteq> Looping" using False by (auto simp: up_round_def)
    from stay [OF this] show ?thesis by (simp add: forwardConnection_def r)
  qed
qed simp

text \<open>
  C9. A forwarded session ends as a whole.  In every run, once the goroutine of the client
  has left, the next look of the other at its \<open>select\<close> or at the backend ends it too; once
  the goroutine of the backend has left, that of the client ends after at most as many
  rounds as bytes are still buffered.  Then both connections are closed.
\<close>

theorem forward_teardown:
  assumes "pool_ok p" and s: "s = forwardConnection cf evs (fwd_start c b p k n t)"
  shows "(fw_up s \<noteq> Looping \<longrightarrow> (\<forall>sel e. sel \<noteq> Tick \<longrightarrow>
      (let s' = down_round sel e s in fw_down s' \<noteq> Looping \<and> cclosed (fw_backend s') \<and> cclosed (cc_socket (bf_rd (fw_client s')))))) \<and>
    (fw_down s \<noteq> Looping \<longrightarrow> (\<forall>rounds. length (client_content (fw_client s)) < length rounds \<longrightarrow>
      (let s' = forwardConnection cf (map (\<lambda>(sel, e). Up sel e) rounds) s in fw_up s' \<noteq> Looping \<and>
        cclosed (fw_backend s') \<and> cclosed (cc_socket (bf_rd (fw_client s'))))))"
proof (intro conjI impI allI)
  have inv: "close_inv s" unfolding s by (rule forward_close_inv [OF assms(1)])
  fix sel e assume up: "fw_up s \<noteq> Looping" and sel: "sel \<noteq> Tick"
  have "fw_down (down_round sel e s) \<noteq> Looping"
    using up sel inv by (cases sel) (auto simp: down_round_def down_message_def deadline_fails_def close_inv_def)
  moreover have "close_inv (down_round sel e s)" "fw_up (down_round sel e s) = fw_up s"
    using close_inv_step [OF inv, of cf "Down sel e"] sel up inv
    by (cases sel; auto simp: down_round_def down_message_def deadline_fails_def close_inv_def)+
  ultimately show "let s' = down_round sel e s in fw_down s' \<noteq> Looping \<and> cclosed (fw_backend s') \<and> cclosed (cc_socket (bf_rd (fw_client s')))"
    using up by (simp add: close_inv_def Let_def)
next
  have inv: "close_inv s" unfolding s by (rule forward_close_inv [OF assms(1)])
  fix rounds :: "(select_case \<times> round_env) list"
  assume down: "fw_down s \<noteq> Looping" and len: "length (client_content (fw_client s)) < length rounds"
  let ?s = "forwardConnection cf (map (\<lambda>(sel, e). Up sel e) rounds) s"
  have "fw_up ?s \<noteq> Looping" by (rule up_rounds_end [OF inv down len])
  moreover have "close_inv ?s" by (rule forward_invariant [where I = close_inv, OF close_inv_step inv])
  ultimately show "let s' = ?s in fw_up s' \<noteq> Looping \<and> cclosed (fw_backend s') \<and> cclosed (cc_socket (bf_rd (fw_client s')))"
    using down by (simp add: close_inv_def Let_def)
qed


theorem forward_teardown_witness:
  "fw_up (forwardConnection sample_conf (map (\<lambda>(sel, e). Up sel e) (replicate 11 (Default, sample_round)))
     (fwd_start sample_client (idle_backend\<lparr>cclosed := True\<rparr>) [] 0 0 0)) \<noteq> Looping"
proof -
  let ?s = "fwd_start sample_client (idle_backend\<lparr>cclosed := True\<rparr>) [] 0 0 0"
  have "fw_down ?s \<noteq> Looping" by (simp add: fwd_start_def deadline_fails_def)
  moreover have "length (client_content (fw_client ?s)) < 11"
    by (simp add: fwd_start_def deadline_fails_def down_leave_def client_content_def sample_client_def bufio_NewReader_def)
  moreover have "?s = forwardConnection sample_conf [] ?s" by (simp add: forwardConnection_def)
  ultimately show ?thesis
    using forward_teardown [of "[]" ?s sample_conf "[]" sample_client "idle_backend\<lparr>cclosed := True\<rparr>" 0 0 0,
        THEN conjunct2, THEN mp, THEN spec [of _ "replicate 11 (Default, sample_round)"]]
    unfolding Let_def by simp
qed

end
