(* ===== verification/AccessLog.thy ===== *)
theory AccessLog
  imports GatewayPrelude
begin

text \<open>
  \<open>internal/middleware/accesslog.go\<close>: one access log entry per connection.  What is written
  is the list of fields handed to the zap logger; the logger itself is third-party.  A float
  field keeps the quotient it is computed from.
\<close>

section \<open>Entries and fields\<close>

record AccessLogEntry =
  al_Timestamp :: int
  al_DurationNs :: int
  al_TraceID :: string
  al_SpanID :: string
  al_ClientAddr :: string
  al_BackendAddr :: string
  al_SessionID :: "64 word"
  al_ServerType :: int
  al_WorldID :: int
  al_BytesIn :: int
  al_BytesOut :: int
  al_Status :: string
  al_Error :: string

text \<open>The zero value of the struct, for literals that leave fields out.\<close>

definition zero_entry :: AccessLogEntry where
  "zero_entry = \<lparr>al_Timestamp = 0, al_DurationNs = 0, al_TraceID = [], al_SpanID = [], al_ClientAddr = [],
     al_BackendAddr = [], al_SessionID = 0, al_ServerType = 0, al_WorldID = 0, al_BytesIn = 0, al_BytesOut = 0,
     al_Status = [], al_Error = []\<rparr>"

datatype zap_value = VString string | VInt int | VQuotient int int

type_synonym zap_field = "string \<times> zap_value"

section \<open>The logger\<close>

text \<open>\<open>globalAccessLogger\<close> (\<open>None\<close> is nil) with its flag \<open>enabled\<close>, \<open>accessLoggerOnce\<close>, and the lines written.\<close>

record access_logger =
  alg_enabled :: "bool option"
  alg_once :: bool
  alg_lines :: "zap_field list list"

definition InitAccessLogger :: "bool \<Rightarrow> access_logger \<Rightarrow> access_logger" where
  "InitAccessLogger enabled l = (if alg_once l then l else l\<lparr>alg_enabled := Some enabled, alg_once := True\<rparr>)"

text \<open>\<open>logger.SeverityInfo\<close>\<close>

abbreviation SeverityInfo :: int where "SeverityInfo \<equiv> 9"

definition access_fields :: "AccessLogEntry \<Rightarrow> zap_field list" where
  "access_fields e =
     [(''client.address'', VString (al_ClientAddr e)), (''status'', VString (al_Status e))] @
     (if 0 < al_DurationNs e
      then [(''duration_ns'', VInt (al_DurationNs e)), (''duration_ms'', VQuotient (al_DurationNs e) 1000000)] else []) @
     (if al_TraceID e \<noteq> [] then [(''trace_id'', VString (al_TraceID e))] else []) @
     (if al_SpanID e \<noteq> [] then [(''span_id'', VString (al_SpanID e))] else []) @
     (if al_SessionID e \<noteq> 0 then [(''session.id'', VInt (sint (al_SessionID e)))] else []) @
     (if al_ServerType e \<noteq> 0 then [(''server.type'', VInt (al_ServerType e))] else []) @
     (if al_WorldID e \<noteq> 0 then [(''world.id'', VInt (al_WorldID e))] else []) @
     (if al_BackendAddr e \<noteq> [] then [(''server.address'', VString (al_BackendAddr e))] else []) @
     (if 0 < al_BytesIn e then [(''network.io.receive'', VInt (al_BytesIn e))] else []) @
     (if 0 < al_BytesOut e then [(''network.io.send'', VInt (al_BytesOut e))] else []) @
     (if al_Error e \<noteq> [] then [(''error.message'', VString (al_Error e))] else []) @
     [(''severity_number'', VInt SeverityInfo)]"

text \<open>\<open>LogAccess\<close>; \<open>span\<close> holds trace and span ID of the context when its span is valid.\<close>

definition LogAccess :: "(string \<times> string) option \<Rightarrow> AccessLogEntry \<Rightarrow> access_logger \<Rightarrow> access_logger" where
  "LogAccess span e l =
     (case alg_enabled l of
        None \<Rightarrow> l
      | Some enabled \<Rightarrow>
          if \<not> enabled then l
          else
            let e' = (case span of None \<Rightarrow> e | Some (tid, sid) \<Rightarrow> e\<lparr>al_TraceID := tid, al_SpanID := sid\<rparr>)
            in l\<lparr>alg_lines := alg_lines l @ [access_fields e']\<rparr>)"

section \<open>Helpers for common lines\<close>

definition LogSessionEstablished ::
  "(string \<times> string) option \<Rightarrow> 64 word \<Rightarrow> string \<Rightarrow> string \<Rightarrow> int \<Rightarrow> int \<Rightarrow> int \<Rightarrow> access_logger \<Rightarrow> access_logger" where
  "LogSessionEstablished span sessionID clientAddr backendAddr serverType worldID durationNs =
     LogAccess span (zero_entry\<lparr>al_SessionID := sessionID, al_ClientAddr := clientAddr, al_BackendAddr := backendAddr,
       al_ServerType := serverType, al_WorldID := worldID, al_DurationNs := durationNs, al_Status := ''success''\<rparr>)"

definition LogSessionClosed ::
  "(string \<times> string) option \<Rightarrow> 64 word \<Rightarrow> string \<Rightarrow> string \<Rightarrow> int \<Rightarrow> int \<Rightarrow> int \<Rightarrow> int \<Rightarrow> int \<Rightarrow> access_logger \<Rightarrow> access_logger" where
  "LogSessionClosed span sessionID clientAddr backendAddr serverType worldID durationNs bytesIn bytesOut =
     LogAccess span (zero_entry\<lparr>al_SessionID := sessionID, al_ClientAddr := clientAddr, al_BackendAddr := backendAddr,
       al_ServerType := serverType, al_WorldID := worldID, al_DurationNs := durationNs, al_BytesIn := bytesIn,
       al_BytesOut := bytesOut, al_Status := ''closed''\<rparr>)"

definition LogConnectionRejected :: "(string \<times> string) option \<Rightarrow> string \<Rightarrow> string \<Rightarrow> access_logger \<Rightarrow> access_logger" where
  "LogConnectionRejected span clientAddr reason =
     LogAccess span (zero_entry\<lparr>al_ClientAddr := clientAddr, al_Status := ''rejected'', al_Error := reason\<rparr>)"

definition LogRoutingError ::
  "(string \<times> string) option \<Rightarrow> string \<Rightarrow> int \<Rightarrow> int \<Rightarrow> string \<Rightarrow> int \<Rightarrow> access_logger \<Rightarrow> access_logger" where
  "LogRoutingError span clientAddr serverType worldID err durationNs =
     LogAccess span (zero_entry\<lparr>al_ClientAddr := clientAddr, al_ServerType := serverType, al_WorldID := worldID,
       al_DurationNs := durationNs, al_Status := ''error'', al_Error := err\<rparr>)"

definition LogCircuitBreakerOpen ::
  "(string \<times> string) option \<Rightarrow> string \<Rightarrow> string \<Rightarrow> int \<Rightarrow> int \<Rightarrow> int \<Rightarrow> access_logger \<Rightarrow> access_logger" where
  "LogCircuitBreakerOpen span clientAddr backendAddr serverType worldID durationNs =
     LogAccess span (zero_entry\<lparr>al_ClientAddr := clientAddr, al_BackendAddr := backendAddr, al_ServerType := serverType,
       al_WorldID := worldID, al_DurationNs := durationNs, al_Status := ''rejected'', al_Error := ''circuit breaker open''\<rparr>)"

definition LogBackendError ::
  "(string \<times> string) option \<Rightarrow> 64 word \<Rightarrow> string \<Rightarrow> string \<Rightarrow> int \<Rightarrow> int \<Rightarrow> string \<Rightarrow> int \<Rightarrow> access_logger \<Rightarrow> access_logger" where
  "LogBackendError span sessionID clientAddr backendAddr serverType worldID err durationNs =
     LogAccess span (zero_entry\<lparr>al_SessionID := sessionID, al_ClientAddr := clientAddr, al_BackendAddr := backendAddr,
       al_ServerType := serverType, al_WorldID := worldID, al_DurationNs := durationNs, al_Status := ''error'', al_Error := err\<rparr>)"

section \<open>A line holds the whole entry\<close>

text \<open>Reading a line back: a field that is missing has its zero value.\<close>

definition string_field :: "string \<Rightarrow> zap_field list \<Rightarrow> string" where
  "string_field k fs = (case map_of fs k of Some (VString s) \<Rightarrow> s | _ \<Rightarrow> [])"

definition int_field :: "string \<Rightarrow> zap_field list \<Rightarrow> int" where
  "int_field k fs = (case map_of fs k of Some (VInt i) \<Rightarrow> i | _ \<Rightarrow> 0)"

definition read_line :: "zap_field list \<Rightarrow> AccessLogEntry" where
  "read_line fs = \<lparr>al_Timestamp = 0, al_DurationNs = int_field ''duration_ns'' fs, al_TraceID = string_field ''trace_id'' fs,
     al_SpanID = string_field ''span_id'' fs, al_ClientAddr = string_field ''client.address'' fs,
     al_BackendAddr = string_field ''server.address'' fs, al_SessionID = word_of_int (int_field ''session.id'' fs),
     al_ServerType = int_field ''server.type'' fs, al_WorldID = int_field ''world.id'' fs,
     al_BytesIn = int_field ''network.io.receive'' fs, al_BytesOut = int_field ''network.io.send'' fs,
     al_Status = string_field ''status'' fs, al_Error = string_field ''error.message'' fs\<rparr>"

text \<open>Looking up a key past an optional field, and in one.\<close>

lemma field_skip:
  "k' \<noteq> k \<Longrightarrow> map_of ((if c then [(k', v)] else []) @ fs) k = map_of fs k"
  "k' \<noteq> k \<Longrightarrow> k'' \<noteq> k \<Longrightarrow> map_of ((if c then [(k', v), (k'', w)] else []) @ fs) k = map_of fs k"
  by simp_all

lemma field_hit:
  "map_of ((if c then [(k, v)] else []) @ fs) k = (if c then Some v else map_of fs k)"
  "map_of ((if c then [(k, v), (k', w)] else []) @ fs) k = (if c then Some v else map_of fs k)"
  by simp_all

lemmas field_lookup = field_skip field_hit append.simps map_of.simps fst_conv snd_conv fun_upd_apply list.inject list.distinct
  char.inject simp_thms if_False if_True

lemma read_access_fields:
  assumes "0 \<le> al_DurationNs e" and "0 \<le> al_BytesIn e" and "0 \<le> al_BytesOut e" and "al_Timestamp e = 0"
  shows "read_line (access_fields e) = e"
proof -
  let ?f = "access_fields e"
  have "string_field ''client.address'' ?f = al_ClientAddr e" "string_field ''status'' ?f = al_Status e"
    "string_field ''trace_id'' ?f = al_TraceID e" "string_field ''span_id'' ?f = al_SpanID e"
    "string_field ''server.address'' ?f = al_BackendAddr e" "string_field ''error.message'' ?f = al_Error e"
    unfolding string_field_def access_fields_def by (simp_all only: field_lookup) simp_all
  moreover have "int_field ''duration_ns'' ?f = al_DurationNs e" "int_field ''network.io.receive'' ?f = al_BytesIn e"
    "int_field ''network.io.send'' ?f = al_BytesOut e" "int_field ''server.type'' ?f = al_ServerType e"
    "int_field ''world.id'' ?f = al_WorldID e" "word_of_int (int_field ''session.id'' ?f) = al_SessionID e"
    unfolding int_field_def access_fields_def by (simp_all only: field_lookup) (use assms(1-3) in simp_all)
  ultimately show ?thesis using assms(4) by (cases e) (simp add: read_line_def)
qed

text \<open>
  An access log line loses nothing: when the logger was initialised as enabled and the
  counters are not negative, logging an entry writes one line, and the entry, with the trace
  context filled in, can be read back from its fields.  Later initialisations change nothing.
\<close>

theorem LogAccess_roundtrip:
  assumes "\<not> alg_once l" and "0 \<le> al_DurationNs e" and "0 \<le> al_BytesIn e" and "0 \<le> al_BytesOut e" and "al_Timestamp e = 0"
    and "l' = LogAccess (Some (tid, sid)) e (InitAccessLogger b (InitAccessLogger True l))"
  shows "\<exists>line. alg_lines l' = alg_lines l @ [line] \<and> read_line line = e\<lparr>al_TraceID := tid, al_SpanID := sid\<rparr>"
  using assms read_access_fields [of "e\<lparr>al_TraceID := tid, al_SpanID := sid\<rparr>"]
  by (simp add: LogAccess_def InitAccessLogger_def)

theorem LogAccess_roundtrip_witness:
  "\<exists>line. alg_lines (LogAccess (Some (''ab'', ''cd'')) (zero_entry\<lparr>al_BytesIn := 7, al_Status := ''success''\<rparr>)
       (InitAccessLogger False (InitAccessLogger True \<lparr>alg_enabled = None, alg_once = False, alg_lines = []\<rparr>))) = [line] \<and>
     al_BytesIn (read_line line) = 7 \<and> al_TraceID (read_line line) = ''ab''"
  using LogAccess_roundtrip [of "\<lparr>alg_enabled = None, alg_once = False, alg_lines = []\<rparr>"
      "zero_entry\<lparr>al_BytesIn := 7, al_Status := ''success''\<rparr>", OF _ _ _ _ _ refl, of "''ab''" "''cd''" False]
  by (auto simp: zero_entry_def)

end
