(* ===== verification/Gateway.thy ===== *)
theory Gateway
  imports Forward Handshake Discovery ConnPool SessionStore SessionId CircuitBreaker Retry GrpcTransport AccessLog
begin

text \<open>
  The gateway object of \<open>internal/gateway/gateway.go\<close>: its state, put together from the
  components, its construction by \<open>New\<close>, the notifications of
  \<open>internal/gateway/connection_notify.go\<close>, and the packets that arrive from the backends over
  gRPC, \<open>internal/gateway/gateway_grpc.go\<close>.

  Client connections and sessions are shared by reference between the handlers and the
  goroutines that receive packets, so they live in stores of the state.  Locks are held by
  each method for its whole body or guard single reads, so methods are functions of the state.
\<close>

section \<open>State\<close>

text \<open>The message of the generated gRPC interface, \<open>api/gateway.proto\<close>; \<open>None\<close> is a nil map.\<close>

record GamePacket =
  gp_SessionId :: "64 word"
  gp_MsgId :: "32 word"
  gp_Payload :: bytes
  gp_Metadata :: "(string, string) gomap option"
  gp_TargetSessionIds :: "64 word list"

text \<open>
  \<open>g_clients\<close> and \<open>g_bytesOut\<close> are the client connections of the sessions and the counters
  \<open>connStats.bytesOut\<close> behind the pointers \<open>Session.BytesOut\<close>, \<open>g_net\<close> the sockets to the
  backends, \<open>g_grpc\<close> is nil unless the gateway was started in gRPC mode, and \<open>g_sent\<close> are the
  packets accepted by the gRPC streams, with their address.
\<close>

record Gateway =
  g_conf :: gateway_conf
  g_podName :: string
  g_gatewayName :: string
  g_sessions :: Manager
  g_sworld :: session_world
  g_nextSession :: session_ref
  g_clients :: "nat \<Rightarrow> client_conn"
  g_nextClient :: nat
  g_bytesOut :: "nat \<Rightarrow> int"
  g_pools :: PoolManager
  g_pworld :: pool_world
  g_net :: "net_conn \<Rightarrow> conn"
  g_grpc :: "grpc_manager option"
  g_sent :: "(string \<times> GamePacket) list"
  g_routing :: routing_state
  g_consul :: "ConsulDiscovery option"
  g_breakers :: breakers
  g_ids :: id_gen
  g_buffers :: buffer_pool
  g_access :: access_logger
  g_maxGoroutines :: int
  g_queueSize :: nat

abbreviation g_config :: "Gateway \<Rightarrow> Config" where "g_config g \<equiv> gw_config (g_conf g)"

text \<open>
  References of the session store: the connections of clients and the sockets of backends
  are kept apart.
\<close>

definition client_ref :: "nat \<Rightarrow> conn_ref" where "client_ref c = 2 * c"
definition backend_ref :: "net_conn \<Rightarrow> conn_ref" where "backend_ref n = 2 * n + 1"

text \<open>The client connection a reference of a session stands for.\<close>

definition client_of :: "conn_ref \<Rightarrow> nat" where "client_of r = r div 2"

lemma client_of_ref [simp]: "client_of (client_ref c) = c"
  by (simp add: client_of_def client_ref_def)

section \<open>Construction\<close>

text \<open>A socket nobody has opened.\<close>

definition no_conn :: conn where
  "no_conn = \<lparr>cin = [], cend = ErrClosed, cout = [], croom = None, cclosed = True\<rparr>"

definition no_session :: Session where
  "no_session = \<lparr>SessionID = 0, ClientConn = None, BackendConn = None, UserID = 0, RealmID = 0, ServiceType = [],
     WorldID = 0, InstID = 0, CreatedAt = 0, LastActiveAt = 0, State = SessionStateConnecting, BytesOut = None\<rparr>"

text \<open>
  \<open>New\<close>.  Inputs are the answer of Redis to \<open>Ping\<close>, the error of \<open>ants.NewPool\<close>, the number
  of CPUs, the variables \<open>POD_NAME\<close> and \<open>NODE_IP\<close>, and the clock (nanoseconds and
  milliseconds).  A negative queue size makes \<open>make(chan)\<close> panic.
\<close>

record start_env =
  se_ping :: "go_error option"
  se_ants :: "go_error option"
  se_numCPU :: int
  se_POD_NAME :: string
  se_NODE_IP :: string
  se_now :: time
  se_ms :: nat

definition New :: "start_env \<Rightarrow> Config \<Rightarrow> string \<Rightarrow> Gateway res" where
  "New env cfg podName =
     (case se_ping env of
        Some e \<Rightarrow> Err (Errorf ''failed to connect to Redis: '' (Some e))
      | None \<Rightarrow>
          let podHash = ucast (ChecksumIEEE (string_bytes podName) AND 0xFFFF);
              mg = MaxGoroutines (ConnectionPool cfg);
              maxGoroutines = (if mg = 0 then 10 * se_numCPU env else mg)
          in case se_ants env of
               Some e \<Rightarrow> Err (Errorf ''failed to create goroutine pool: '' (Some e))
             | None \<Rightarrow>
                 if ConnectionQueueSize (ConnectionPool cfg) < 0 then Panic ''makechan: size out of range''
                 else
                   let name1 = GatewayName (Server cfg);
                       name2 = (if name1 = [] then se_POD_NAME env else name1);
                       name3 = (if name2 = [] then podName else name2);
                       ri = consul_RefreshInterval (Consul cfg)
                   in Ok \<lparr>g_conf = \<lparr>gw_config = cfg, gw_rateLimiter = NewLimiter (cp_MaxConnections (ConnectionPool cfg)),
                             gw_ipLimiter = NewIPLimiter (MaxConnectionsPerIP (Security cfg)) (ConnectionRateLimit (Security cfg)) (se_now env)\<rparr>,
                          g_podName = podName, g_gatewayName = (if UseGrpc (Server cfg) then name3 else podName),
                          g_sessions = NewManager, g_sworld = \<lparr>heap = (\<lambda>_. no_session), closed = []\<rparr>, g_nextSession = 0,
                          g_clients = (\<lambda>_. TCPClient (bufio_NewReader no_conn)), g_nextClient = 0, g_bytesOut = (\<lambda>_. 0),
                          g_pools = NewPoolManager (ConnectionPool cfg),
                          g_pworld = \<lparr>obj = (\<lambda>_. \<lparr>conn = 0, createdAt = 0, lastUsedAt = 0, inUse = False\<rparr>), next_ref = 0, net_closed = []\<rparr>,
                          g_net = (\<lambda>_. no_conn),
                          g_grpc = (if UseGrpc (Server cfg)
                            then Some (NewGrpcManager name3 (HeartbeatInterval (Grpc cfg)) (ReconnectInterval (Grpc cfg)) (MaxReconnectAttempts (Grpc cfg)))
                            else None),
                          g_sent = [], g_routing = \<lparr>routingConfigs = [], rs_router = NewRouter\<rparr>,
                          g_consul = (if Enabled (Consul cfg) \<and> se_NODE_IP env \<noteq> []
                            then Some (NewDiscovery (''http://'' @ se_NODE_IP env @ '':8500'') (if ri = 0 then 10 * second else ri)) else None),
                          g_breakers = [], g_ids = fresh_gen podHash (se_ms env), g_buffers = [],
                          g_access = \<lparr>alg_enabled = None, alg_once = False, alg_lines = []\<rparr>,
                          g_maxGoroutines = maxGoroutines, g_queueSize = nat (ConnectionQueueSize (ConnectionPool cfg))\<rparr>)"

section \<open>Small helpers\<close>

text \<open>\<open>extractIP\<close>: everything before the last colon.\<close>

definition extractIP :: "string \<Rightarrow> string" where
  "extractIP addr = (if CHR '':'' \<in> set addr then rev (tl (dropWhile (\<lambda>c. c \<noteq> CHR '':'') (rev addr))) else addr)"

text \<open>A span context: trace ID and span ID in hex, each \<open>None\<close> when it is not valid.\<close>

record span_context =
  sc_trace :: "string option"
  sc_span :: "string option"

text \<open>A span context is valid when both of its IDs are.\<close>

definition extractTraceContext :: "span_context \<Rightarrow> trace_map option" where
  "extractTraceContext sc =
     (if sc_trace sc = None \<or> sc_span sc = None then None
      else case sc_trace sc of
        Some traceID \<Rightarrow>
          let m = [(''trace_id'', traceID)]
          in Some (case sc_span sc of Some spanID \<Rightarrow> gomap_put ''span_id'' spanID m | None \<Rightarrow> m)
      | None \<Rightarrow> None)"

definition routeToBackend :: "int \<Rightarrow> int \<Rightarrow> int \<Rightarrow> Gateway \<Rightarrow> string res \<times> Gateway" where
  "routeToBackend serverType worldID instID g =
     (case RouteByServerID serverType worldID instID (rs_router (g_routing g)) of
        (res, r) \<Rightarrow> (res, g\<lparr>g_routing := (g_routing g)\<lparr>rs_router := r\<rparr>\<rparr>))"

text \<open>
  \<open>err.Error()\<close>.  The text of an error made by \<open>fmt.Errorf\<close> is that in front of the wrapped
  error followed by the text of the latter; the size error has its text in full.
\<close>

fun error_text :: "go_error \<Rightarrow> string" where
  "error_text EOF = ''EOF''"
| "error_text ErrUnexpectedEOF = ''unexpected EOF''"
| "error_text ErrClosed = ''use of closed network connection''"
| "error_text ErrTimeout = ''i/o timeout''"
| "error_text (ErrIO s) = s"
| "error_text ErrCanceled = ''context canceled''"
| "error_text ErrDeadlineExceeded = ''context deadline exceeded''"
| "error_text ErrMessageTooLarge = ''message size exceeds maximum allowed''"
| "error_text ErrWebSocketFrameMask = ''websocket frame not masked''"
| "error_text ErrWebSocketFrameType = ''unsupported websocket frame type''"
| "error_text (Errorf s None) = s"
| "error_text (Errorf s (Some ErrMessageTooLarge)) = s"
| "error_text (Errorf s (Some e)) = s @ error_text e"

section \<open>Sending to a backend over gRPC\<close>

text \<open>What the gRPC library answers to one \<open>Send\<close>.\<close>

record send_env =
  sn_connect :: "nat \<Rightarrow> connect_attempt"
  sn_error :: "go_error option"
  sn_ms :: nat                              \<comment> \<open>\<open>time.Now().UnixMilli()\<close>\<close>

text \<open>The method on a nil manager panics.\<close>

definition grpc_Send :: "send_env \<Rightarrow> string \<Rightarrow> GamePacket \<Rightarrow> Gateway \<Rightarrow> unit res \<times> Gateway" where
  "grpc_Send env addr packet g =
     (case g_grpc g of
        None \<Rightarrow> (Panic ''nil pointer dereference'', g)
      | Some m \<Rightarrow>
          (case Grpc_Send addr (sn_connect env) (sn_error env) m of
             (Some err, m') \<Rightarrow> (Err err, g\<lparr>g_grpc := Some m'\<rparr>)
           | (None, m') \<Rightarrow> (Ok (), g\<lparr>g_grpc := Some m', g_sent := g_sent g @ [(addr, packet)]\<rparr>)))"

definition notifyBackendClientConnect ::
  "send_env \<Rightarrow> string \<Rightarrow> 64 word \<Rightarrow> string \<Rightarrow> string \<Rightarrow> Gateway \<Rightarrow> unit res \<times> Gateway" where
  "notifyBackendClientConnect env backendAddr sessionID clientIP protocol g =
     (if \<not> UseGrpc (Server (g_config g)) then (Ok (), g)
      else grpc_Send env backendAddr
        \<lparr>gp_SessionId = sessionID, gp_MsgId = 0, gp_Payload = [],
         gp_Metadata = Some [(''packet_type'', ''connect''), (''client_ip'', clientIP), (''protocol'', protocol),
           (''connect_time'', dec_nat (sn_ms env))], gp_TargetSessionIds = []\<rparr> g)"

text \<open>The error of the disconnect notification is only logged.\<close>

definition notifyBackendClientDisconnect :: "send_env \<Rightarrow> string \<Rightarrow> 64 word \<Rightarrow> string \<Rightarrow> Gateway \<Rightarrow> unit res \<times> Gateway" where
  "notifyBackendClientDisconnect env backendAddr sessionID reason g =
     (if \<not> UseGrpc (Server (g_config g)) then (Ok (), g)
      else case grpc_Send env backendAddr
        \<lparr>gp_SessionId = sessionID, gp_MsgId = 0, gp_Payload = [],
         gp_Metadata = Some [(''packet_type'', ''disconnect''), (''reason'', reason), (''disconnect_time'', dec_nat (sn_ms env))],
         gp_TargetSessionIds = []\<rparr> g of
        (Err err, g') \<Rightarrow> (Ok (), g')
      | (res, g') \<Rightarrow> (res, g'))"

section \<open>Closing what the session store closed\<close>

text \<open>\<open>Close\<close> on one connection of a session.\<close>

definition close_ref :: "conn_ref \<Rightarrow> Gateway \<Rightarrow> Gateway" where
  "close_ref r g =
     (if even r then g\<lparr>g_clients := (g_clients g)(client_of r := cc_Close (g_clients g (client_of r)))\<rparr>
      else g\<lparr>g_net := (g_net g)(r div 2 := snd (conn_Close (g_net g (r div 2))))\<rparr>)"

text \<open>One tick of the session cleanup that \<open>Start\<close> runs every five minutes.\<close>

definition session_cleanup_tick :: "time \<Rightarrow> Gateway \<Rightarrow> Gateway" where
  "session_cleanup_tick now g =
     (case CleanupIdle now (30 * minute) (g_sessions g) (g_sworld g) of
        (m, w, count) \<Rightarrow>
          fold close_ref (drop (length (closed (g_sworld g))) (closed w)) (g\<lparr>g_sessions := m, g_sworld := w\<rparr>))"

end
