(* ===== verification/GrpcBridge.thy ===== *)
theory GrpcBridge
  imports Gateway
begin

text \<open>
  \<open>internal/gateway/gateway_grpc.go\<close>: in gRPC mode packets of the backends are written to the
  clients of the sessions they name, and the packets of a client are sent on the stream of
  its backend.  The two directions run in different goroutines and share the gateway; a run
  of a session is any interleaving of the reads of its client, the packets that arrive from
  backends and the ticks of the session cleanup.
\<close>

section \<open>Packets from a backend\<close>

text \<open>Adding to the counter behind \<open>Session.BytesOut\<close>, unless it is nil.\<close>

definition add_bytesOut :: "nat option \<Rightarrow> int \<Rightarrow> Gateway \<Rightarrow> Gateway" where
  "add_bytesOut counter n g =
     (case counter of None \<Rightarrow> g | Some k \<Rightarrow> g\<lparr>g_bytesOut := (g_bytesOut g)(k := g_bytesOut g k + n)\<rparr>)"

definition set_client :: "nat \<Rightarrow> client_conn \<Rightarrow> Gateway \<Rightarrow> Gateway" where
  "set_client c cc g = g\<lparr>g_clients := (g_clients g)(c := cc)\<rparr>"

text \<open>The header of a packet to a client; both fields are cut to sixteen bits.\<close>

definition packet_header :: "GamePacket \<Rightarrow> ClientMessageHeader" where
  "packet_header packet =
     \<lparr>cmh_Length = of_nat (length (gp_Payload packet)), cmh_MessageID = ucast (gp_MsgId packet), cmh_ServerID = 0\<rparr>"

text \<open>Header and payload, as they are put together for one WebSocket frame.\<close>

definition full_message :: "GamePacket \<Rightarrow> bytes" where
  "full_message packet =
     le_bytes 2 (cmh_Length (packet_header packet)) @ le_bytes 2 (cmh_MessageID (packet_header packet)) @
     le_bytes 4 (cmh_ServerID (packet_header packet)) @ gp_Payload packet"

definition sendToSession :: "64 word \<Rightarrow> GamePacket \<Rightarrow> Gateway \<Rightarrow> Gateway" where
  "sendToSession sessionID packet g =
     (case Session_Get (g_sessions g) sessionID of
        None \<Rightarrow> g
      | Some r \<Rightarrow>
          let sess = heap (g_sworld g) r
          in case ClientConn sess of
               None \<Rightarrow> g
             | Some cr \<Rightarrow>
                 let c = client_of cr
                 in case g_clients g c of
                      WSClient w \<Rightarrow>
                        (case ws_Write w (full_message packet) of
                           (Some err, w') \<Rightarrow> set_client c (WSClient w') g
                         | (None, w') \<Rightarrow>
                             add_bytesOut (BytesOut sess) (int (length (full_message packet))) (set_client c (WSClient w') g))
                    | TCPClient b \<Rightarrow>
                        (case WriteClientMessageHeader cc_Write (TCPClient b) (packet_header packet) of
                           (Some err, cc1) \<Rightarrow> set_client c cc1 g
                         | (None, cc1) \<Rightarrow>
                             if 0 < length (gp_Payload packet) then
                               (case cc_Write cc1 (gp_Payload packet) of
                                  (Some err, cc2) \<Rightarrow> set_client c cc2 g
                                | (None, cc2) \<Rightarrow>
                                    add_bytesOut (BytesOut sess) (8 + int (length (gp_Payload packet))) (set_client c cc2 g))
                             else add_bytesOut (BytesOut sess) 8 (set_client c cc1 g)))"

definition handleServerDisconnect :: "64 word \<Rightarrow> Gateway \<Rightarrow> Gateway" where
  "handleServerDisconnect sessionID g =
     (case Session_Get (g_sessions g) sessionID of
        None \<Rightarrow> g
      | Some r \<Rightarrow>
          let g1 = (case ClientConn (heap (g_sworld g) r) of
                      None \<Rightarrow> g
                    | Some cr \<Rightarrow> set_client (client_of cr) (cc_Close (g_clients g (client_of cr))) g)
          in g1\<lparr>g_sessions := Session_Remove sessionID (g_sessions g1)\<rparr>)"

definition packet_type :: "GamePacket \<Rightarrow> string option" where
  "packet_type packet = (case gp_Metadata packet of None \<Rightarrow> None | Some md \<Rightarrow> gomap_get md ''packet_type'')"

definition handleGrpcPacket :: "GamePacket \<Rightarrow> Gateway \<Rightarrow> Gateway" where
  "handleGrpcPacket packet g =
     (if packet_type packet = Some ''server_connect'' then g
      else if packet_type packet = Some ''server_disconnect'' then
        (if gp_SessionId packet \<noteq> 0 then handleServerDisconnect (gp_SessionId packet) g else g)
      else if packet_type packet = Some ''pong'' then g
      else if 0 < length (gp_TargetSessionIds packet) then
        fold (\<lambda>sessID. sendToSession sessID packet) (gp_TargetSessionIds packet) g
      else if gp_SessionId packet \<noteq> 0 then sendToSession (gp_SessionId packet) packet g
      else g)"

section \<open>Packets of a client\<close>

text \<open>
  The reads of \<open>clientConn\<close>.  A TCP client is read as it is; over a WebSocket adapter the
  handler puts a second buffered reader.
\<close>

definition grpc_read :: "client_conn bufio rd" where
  "grpc_read b n =
     (case bf_rd b of
        TCPClient _ \<Rightarrow> (case cc_Read (bf_rd b) n of (res, cc) \<Rightarrow> (res, b\<lparr>bf_rd := cc\<rparr>))
      | WSClient _ \<Rightarrow> bufio_Read cc_Read b n)"

text \<open>
  The loop: \<open>gf_pending\<close> is what the second buffered reader holds, \<open>gf_bytesIn\<close> the counter
  of the connection.
\<close>

record grpc_fwd =
  gf_gw :: Gateway
  gf_pending :: bytes
  gf_bytesIn :: int
  gf_state :: loop_state

text \<open>What the loop reads once, on entry: session, client, backend and two settings.\<close>

record grpc_conf =
  gc_sessID :: "64 word"
  gc_client :: nat
  gc_backendAddr :: string
  gc_maxMessageSize :: int
  gc_trace :: bool

text \<open>The deferred cleanup.\<close>

definition grpc_leave :: "grpc_conf \<Rightarrow> loop_state \<Rightarrow> grpc_fwd \<Rightarrow> grpc_fwd" where
  "grpc_leave cf st s =
     s\<lparr>gf_gw := (gf_gw s)\<lparr>g_sessions := Session_Remove (gc_sessID cf) (g_sessions (gf_gw s))\<rparr>, gf_state := st\<rparr>"

definition grpc_packet :: "grpc_conf \<Rightarrow> round_env \<Rightarrow> ClientMessageHeader \<Rightarrow> bytes \<Rightarrow> GamePacket" where
  "grpc_packet cf e header d =
     \<lparr>gp_SessionId = gc_sessID cf, gp_MsgId = ucast (cmh_MessageID header), gp_Payload = d,
      gp_Metadata = (if gc_trace cf then re_trace e else None), gp_TargetSessionIds = []\<rparr>"

definition grpc_round :: "grpc_conf \<Rightarrow> round_env \<Rightarrow> send_env \<Rightarrow> grpc_fwd \<Rightarrow> grpc_fwd" where
  "grpc_round cf e sn s =
     (if gf_state s \<noteq> Looping then s
      else
        let g = gf_gw s
        in case ReadFullPacket grpc_read \<lparr>bf_buf = gf_pending s, bf_rd = g_clients g (gc_client cf)\<rparr>
                  (gc_maxMessageSize cf) (re_buffer e) (g_buffers g) of
             (res, r, p) \<Rightarrow>
               let g1 = (set_client (gc_client cf) (bf_rd r) g)\<lparr>g_buffers := p\<rparr>;
                   s1 = s\<lparr>gf_gw := g1, gf_pending := bf_buf r\<rparr>
               in case res of
                    Panic m \<Rightarrow> grpc_leave cf (Crashed m) s1
                  | Err err \<Rightarrow> grpc_leave cf Left s1
                  | Ok (header, d) \<Rightarrow>
                      (case grpc_Send sn (gc_backendAddr cf) (grpc_packet cf e header (payload d)) g1 of
                         (Panic m, g2) \<Rightarrow> grpc_leave cf (Crashed m) (s1\<lparr>gf_gw := g2\<rparr>)
                       | (Err err, g2) \<Rightarrow> grpc_leave cf Left (s1\<lparr>gf_gw := g2\<rparr>)
                       | (Ok _, g2) \<Rightarrow> s1\<lparr>gf_gw := g2, gf_bytesIn := gf_bytesIn s + int (length (payload d))\<rparr>))"

text \<open>The loop of a session among the other goroutines.\<close>

datatype grpc_event =
    ClientRound round_env send_env
  | BackendPacket GamePacket
  | CleanupTick time

primrec grpc_event_step :: "grpc_conf \<Rightarrow> grpc_event \<Rightarrow> grpc_fwd \<Rightarrow> grpc_fwd" where
  "grpc_event_step cf (ClientRound e sn) s = grpc_round cf e sn s"
| "grpc_event_step cf (BackendPacket packet) s = s\<lparr>gf_gw := handleGrpcPacket packet (gf_gw s)\<rparr>"
| "grpc_event_step cf (CleanupTick now) s = s\<lparr>gf_gw := session_cleanup_tick now (gf_gw s)\<rparr>"

definition grpc_start :: "int \<Rightarrow> Gateway \<Rightarrow> grpc_fwd" where
  "grpc_start bytesIn g = \<lparr>gf_gw = g, gf_pending = [], gf_bytesIn = bytesIn, gf_state = Looping\<rparr>"

definition forwardGrpcConnection :: "grpc_conf \<Rightarrow> grpc_event list \<Rightarrow> int \<Rightarrow> Gateway \<Rightarrow> grpc_fwd" where
  "forwardGrpcConnection cf evs bytesIn g = fold (grpc_event_step cf) evs (grpc_start bytesIn g)"

section \<open>Delivery to clients\<close>

text \<open>The connection of a client after more bytes were written to its socket.\<close>

primrec append_out :: "bytes \<Rightarrow> client_conn \<Rightarrow> client_conn" where
  "append_out bs (TCPClient b) = TCPClient (b\<lparr>bf_rd := (bf_rd b)\<lparr>cout := cout (bf_rd b) @ bs\<rparr>\<rparr>)"
| "append_out bs (WSClient w) = WSClient (ws_set_conn ((ws_conn w)\<lparr>cout := cout (ws_conn w) @ bs\<rparr>) w)"

text \<open>A message as it goes over the wire: as it is, or as one binary frame.\<close>

primrec client_wire :: "client_conn \<Rightarrow> bytes \<Rightarrow> bytes" where
  "client_wire (TCPClient _) msg = msg"
| "client_wire (WSClient _) msg = frame_header wsOpcodeBinary (length msg) True @ msg"

text \<open>The client connection of a session.\<close>

definition session_client :: "Gateway \<Rightarrow> 64 word \<Rightarrow> nat option" where
  "session_client g sid =
     (case Session_Get (g_sessions g) sid of
        None \<Rightarrow> None
      | Some r \<Rightarrow> map_option client_of (ClientConn (heap (g_sworld g) r)))"

text \<open>The counter of a session is that of its connection, as the handler sets it up.\<close>

definition counters_linked :: "Gateway \<Rightarrow> bool" where
  "counters_linked g \<longleftrightarrow> (\<forall>sid r. Session_Get (g_sessions g) sid = Some r \<longrightarrow>
     BytesOut (heap (g_sworld g) r) = map_option client_of (ClientConn (heap (g_sworld g) r)))"

lemma append_out_simps [simp]:
  "append_out bs' (append_out bs cc) = append_out (bs @ bs') cc" "append_out [] cc = cc"
  "client_wire (append_out bs cc) = client_wire cc" "writable (cc_socket (append_out bs cc)) = writable (cc_socket cc)"
  "cout (cc_socket (append_out bs cc)) = cout (cc_socket cc) @ bs"
  by (cases cc; simp add: ws_set_conn_def writable_def fun_eq_iff)+

lemma full_message_header: "full_message p = client_header_bytes (packet_header p) @ gp_Payload p"
  by (simp add: full_message_def client_header_bytes_def)

lemma length_full_message [simp]: "length (full_message p) = 8 + length (gp_Payload p)"
  by (simp add: full_message_header)

lemma ws_Write_writable:
  "writable (ws_conn w) \<Longrightarrow> ws_Write w p =
     (None, ws_set_conn ((ws_conn w)\<lparr>cout := cout (ws_conn w) @ frame_header wsOpcodeBinary (length p) True @ p\<rparr>) w)"
  by (simp add: ws_Write_def writeFrame_def conn_Write_open writable_def)

text \<open>What one call writes and counts, on a socket that takes it.\<close>

lemma sendToSession_delivers:
  assumes "counters_linked g" and "session_client g sid = Some c" and "writable (cc_socket (g_clients g c))"
  shows "sendToSession sid p g = add_bytesOut (Some c) (int (length (full_message p)))
    (set_client c (append_out (client_wire (g_clients g c) (full_message p)) (g_clients g c)) g)"
proof -
  obtain r cr where r: "Session_Get (g_sessions g) sid = Some r" "ClientConn (heap (g_sworld g) r) = Some cr" "client_of cr = c"
    using assms(2) by (auto simp: session_client_def split: option.splits)
  then have b: "BytesOut (heap (g_sworld g) r) = Some c" using assms(1) by (auto simp: counters_linked_def)
  show ?thesis
  proof (cases "g_clients g c")
    case (TCPClient b')
    then show ?thesis using r b assms(3)
      by (simp add: sendToSession_def WriteClientMessageHeader_def writable_def conn_Write_open full_message_header Let_def)
  next
    case (WSClient w)
    then show ?thesis using r b assms(3)
      by (simp add: sendToSession_def ws_Write_writable Let_def)
  qed
qed

lemma sendToSession_unknown: "session_client g sid = None \<Longrightarrow> sendToSession sid p g = g"
  by (auto simp: session_client_def sendToSession_def split: option.splits)

lemma session_client_cong:
  "g_sessions g' = g_sessions g \<Longrightarrow> g_sworld g' = g_sworld g \<Longrightarrow> session_client g' = session_client g"
  "g_sessions g' = g_sessions g \<Longrightarrow> g_sworld g' = g_sworld g \<Longrightarrow> counters_linked g' = counters_linked g"
  by (simp_all add: session_client_def counters_linked_def fun_eq_iff split: option.split)

lemma set_client_simps [simp]:
  "g_clients (set_client c cc g) = (g_clients g)(c := cc)" "g_sessions (set_client c cc g) = g_sessions g"
  "g_sworld (set_client c cc g) = g_sworld g" "g_bytesOut (set_client c cc g) = g_bytesOut g"
  "g_sent (set_client c cc g) = g_sent g" "g_buffers (set_client c cc g) = g_buffers g" "g_grpc (set_client c cc g) = g_grpc g"
  by (simp_all add: set_client_def)

lemma add_bytesOut_simps [simp]:
  "g_clients (add_bytesOut k n g) = g_clients g" "g_sessions (add_bytesOut k n g) = g_sessions g"
  "g_sworld (add_bytesOut k n g) = g_sworld g" "g_sent (add_bytesOut k n g) = g_sent g"
  "g_buffers (add_bytesOut k n g) = g_buffers g" "g_grpc (add_bytesOut k n g) = g_grpc g"
  "g_bytesOut (add_bytesOut (Some c) n g) = (g_bytesOut g)(c := g_bytesOut g c + n)"
  by (simp_all add: add_bytesOut_def split: option.split)

text \<open>How often a client is meant by a list of sessions.\<close>

definition copies :: "Gateway \<Rightarrow> 64 word list \<Rightarrow> nat \<Rightarrow> nat" where
  "copies g sids c = length (filter (\<lambda>sid. session_client g sid = Some c) sids)"

lemma deliver_all:
  assumes "counters_linked g" and "\<And>sid c. sid \<in> set sids \<Longrightarrow> session_client g sid = Some c \<Longrightarrow> writable (cc_socket (g_clients g c))"
  shows "(let g' = fold (\<lambda>sid. sendToSession sid p) sids g
    in g_sessions g' = g_sessions g \<and> g_sworld g' = g_sworld g \<and>
       (\<forall>c. g_clients g' c = append_out (concat (replicate (copies g sids c) (client_wire (g_clients g c) (full_message p)))) (g_clients g c) \<and>
          g_bytesOut g' c = g_bytesOut g c + int (copies g sids c * length (full_message p))))"
  using assms
proof (induction sids arbitrary: g)
  case Nil
  then show ?case by (simp add: copies_def)
next
  case (Cons sid sids)
  define g1 where "g1 = sendToSession sid p g"
  have eff: "g_sessions g1 = g_sessions g \<and> g_sworld g1 = g_sworld g \<and> (\<forall>c. g_clients g1 c = (if session_client g sid = Some c
        then append_out (client_wire (g_clients g c) (full_message p)) (g_clients g c) else g_clients g c)) \<and>
      (\<forall>c. g_bytesOut g1 c = g_bytesOut g c + (if session_client g sid = Some c then int (length (full_message p)) else 0))"
  proof (cases "session_client g sid")
    case None
    then show ?thesis by (simp add: g1_def sendToSession_unknown)
  next
    case (Some c)
    then show ?thesis using sendToSession_delivers [OF Cons.prems(1) Some Cons.prems(2) [OF _ Some]] by (simp add: g1_def)
  qed
  then have same: "g_sessions g1 = g_sessions g" "g_sworld g1 = g_sworld g" and
    step: "g_clients g1 c = (if session_client g sid = Some c
        then append_out (client_wire (g_clients g c) (full_message p)) (g_clients g c) else g_clients g c)"
      "g_bytesOut g1 c = g_bytesOut g c + (if session_client g sid = Some c then int (length (full_message p)) else 0)" for c
    by simp_all
  note cong = session_client_cong [OF same]
  have sc: "session_client g1 = session_client g" using cong by simp
  have "counters_linked g1" using cong(2) Cons.prems(1) by simp
  moreover have "writable (cc_socket (g_clients g1 c))" if "s \<in> set sids" "session_client g1 s = Some c" for s c
    using that Cons.prems(2) [of s c] step(1) [of c] by (simp add: sc)
  ultimately have IH: "let g' = fold (\<lambda>sid. sendToSession sid p) sids g1
    in g_sessions g' = g_sessions g1 \<and> g_sworld g' = g_sworld g1 \<and>
       (\<forall>c. g_clients g' c = append_out (concat (replicate (copies g1 sids c) (client_wire (g_clients g1 c) (full_message p)))) (g_clients g1 c) \<and>
          g_bytesOut g' c = g_bytesOut g1 c + int (copies g1 sids c * length (full_message p)))"
    by (rule Cons.IH)
  have cp: "copies g1 sids c = copies g sids c" for c by (simp add: copies_def sc)
  have cp': "copies g (sid # sids) c = (if session_client g sid = Some c then Suc (copies g sids c) else copies g sids c)" for c
    by (simp add: copies_def)
  show ?case using IH unfolding Let_def fold_Cons comp_apply g1_def [symmetric] cp
    by (simp add: same step cp' algebra_simps del: length_full_message)
qed

text \<open>The sessions a packet is for.\<close>

definition packet_targets :: "GamePacket \<Rightarrow> 64 word list" where
  "packet_targets p =
     (if gp_TargetSessionIds p \<noteq> [] then gp_TargetSessionIds p else if gp_SessionId p \<noteq> 0 then [gp_SessionId p] else [])"

definition lifecycle :: "GamePacket \<Rightarrow> bool" where
  "lifecycle p \<longleftrightarrow> packet_type p \<in> {Some ''server_connect'', Some ''server_disconnect'', Some ''pong''}"

lemma handleGrpcPacket_ordinary:
  "\<not> lifecycle p \<Longrightarrow> handleGrpcPacket p g = fold (\<lambda>sid. sendToSession sid p) (packet_targets p) g"
  by (auto simp: handleGrpcPacket_def lifecycle_def packet_targets_def)

section \<open>A sample gateway\<close>

definition sample_start :: start_env where
  "sample_start = \<lparr>se_ping = None, se_ants = None, se_numCPU = 4, se_POD_NAME = [], se_NODE_IP = [], se_now = 0, se_ms = 0\<rparr>"

definition sample_config :: Config where
  "sample_config = setDefaults (zero_config\<lparr>Server := (Server zero_config)\<lparr>UseGrpc := True\<rparr>\<rparr>)"

text \<open>Two clients, of sessions 5 and 6, one on TCP and one on WebSocket, in gRPC mode.\<close>

definition sample_ws_client :: client_conn where
  "sample_ws_client = WSClient (NewWebSocketConn (bufio_NewReader \<lparr>cin = [], cend = EOF, cout = [], croom = None, cclosed = False\<rparr>) 1024)"

definition sample_session :: "64 word \<Rightarrow> nat \<Rightarrow> Session" where
  "sample_session sid c = no_session\<lparr>SessionID := sid, ClientConn := Some (client_ref c), BytesOut := Some c\<rparr>"

definition sample_world :: session_world where
  "sample_world = \<lparr>heap = (\<lambda>r. if r = 0 then sample_session 5 0 else sample_session 6 1), closed = []\<rparr>"

definition sample_gateway :: Gateway where
  "sample_gateway = (case New sample_start sample_config ''pod'' of
     Ok g \<Rightarrow> g\<lparr>g_sessions := Session_Add sample_world 1 (Session_Add sample_world 0 NewManager), g_sworld := sample_world,
              g_clients := (\<lambda>c. if c = 0 then sample_client else sample_ws_client)\<rparr>
   | _ \<Rightarrow> undefined)"

lemma sample_config_fields:
  "UseGrpc (Server sample_config)" "ConnectionQueueSize (ConnectionPool sample_config) = 1000"
  by code_simp+

lemma sample_gateway_fields:
  "g_sessions sample_gateway = Session_Add sample_world 1 (Session_Add sample_world 0 NewManager)"
  "g_sworld sample_gateway = sample_world" "g_bytesOut sample_gateway = (\<lambda>_. 0)" "g_buffers sample_gateway = []"
  "g_clients sample_gateway = (\<lambda>c. if c = 0 then sample_client else sample_ws_client)" "g_sent sample_gateway = []"
  "\<exists>m. g_grpc sample_gateway = Some m \<and> clients m = []" "g_config sample_gateway = sample_config"
  by (auto simp: sample_gateway_def New_def sample_start_def Let_def sample_config_fields NewGrpcManager_def)

lemma sample_gateway_sessions:
  "Session_Get (g_sessions sample_gateway) sid = (if sid = 6 then Some 1 else if sid = 5 then Some 0 else None)"
  using Get_Add [OF Add_ok [OF NewManager_ok], of sample_world 1 0 sid] Get_Add [OF NewManager_ok, of sample_world 0 sid]
  by (simp add: sample_gateway_fields Get_empty sample_world_def sample_session_def no_session_def)

lemma sample_gateway_world: "heap (g_sworld sample_gateway) r = (if r = 0 then sample_session 5 0 else sample_session 6 1)"
  by (simp add: sample_gateway_fields(2) sample_world_def)

lemma sample_gateway_clients: "session_client sample_gateway sid = (if sid = 6 then Some 1 else if sid = 5 then Some 0 else None)"
  by (simp add: session_client_def sample_gateway_sessions sample_gateway_world sample_session_def)

lemma sample_gateway_linked: "counters_linked sample_gateway"
  by (auto simp: counters_linked_def sample_gateway_sessions sample_gateway_world sample_session_def split: if_splits)

lemma sample_gateway_writable: "writable (cc_socket (g_clients sample_gateway c))"
  by (simp add: sample_gateway_fields writable_def sample_client_def sample_ws_client_def NewWebSocketConn_def bufio_NewReader_def)

text \<open>
  C31. A packet of a backend that is no lifecycle event reaches exactly the clients of the
  sessions it names, once per mention, as one message each: header and payload on a TCP
  connection, one binary frame holding both on a WebSocket.  The connection of every other
  client, the sessions and everything else about the connections is unchanged, and the counter
  of each connection grows by the bytes of the messages.
\<close>

theorem grpc_packet_delivery:
  assumes "\<not> lifecycle p" and "counters_linked g"
    and "\<And>sid c. sid \<in> set (packet_targets p) \<Longrightarrow> session_client g sid = Some c \<Longrightarrow> writable (cc_socket (g_clients g c))"
  shows "g_sessions (handleGrpcPacket p g) = g_sessions g \<and> g_sworld (handleGrpcPacket p g) = g_sworld g \<and>
    g_clients (handleGrpcPacket p g) c =
      append_out (concat (replicate (copies g (packet_targets p) c) (client_wire (g_clients g c) (full_message p)))) (g_clients g c) \<and>
    g_bytesOut (handleGrpcPacket p g) c = g_bytesOut g c + int (copies g (packet_targets p) c * (8 + length (gp_Payload p)))"
  using deliver_all [where sids = "packet_targets p" and p = p, OF assms(2,3)] handleGrpcPacket_ordinary [OF assms(1)]
  by (simp add: Let_def)

text \<open>A broadcast to both sessions.\<close>

definition sample_broadcast :: GamePacket where
  "sample_broadcast = \<lparr>gp_SessionId = 0, gp_MsgId = 7, gp_Payload = [1, 2], gp_Metadata = None, gp_TargetSessionIds = [5, 6]\<rparr>"

theorem grpc_packet_delivery_witness:
  "cout (cc_socket (g_clients (handleGrpcPacket sample_broadcast sample_gateway) 0)) = [2, 0, 7, 0, 0, 0, 0, 0, 1, 2] \<and>
   cout (cc_socket (g_clients (handleGrpcPacket sample_broadcast sample_gateway) 1)) = [0x82, 10, 2, 0, 7, 0, 0, 0, 0, 0, 1, 2] \<and>
   g_bytesOut (handleGrpcPacket sample_broadcast sample_gateway) 1 = 10"
proof -
  have *: "\<not> lifecycle sample_broadcast" "packet_targets sample_broadcast = [5, 6]"
    by (simp_all add: lifecycle_def packet_type_def sample_broadcast_def packet_targets_def)
  have n: "copies sample_gateway [5, 6] 0 = 1" "copies sample_gateway [5, 6] 1 = 1"
    by (simp_all add: copies_def sample_gateway_clients)
  note d = grpc_packet_delivery [OF *(1) sample_gateway_linked sample_gateway_writable]
  have wire: "client_wire sample_client (full_message sample_broadcast) = [2, 0, 7, 0, 0, 0, 0, 0, 1, 2]"
    "client_wire sample_ws_client (full_message sample_broadcast) = [0x82, 10, 2, 0, 7, 0, 0, 0, 0, 0, 1, 2]"
    by code_simp+
  have out: "cout (cc_socket sample_client) = []" "cout (cc_socket sample_ws_client) = []"
    by (simp_all add: sample_client_def sample_ws_client_def NewWebSocketConn_def bufio_NewReader_def)
  have "cout (cc_socket (g_clients (handleGrpcPacket sample_broadcast sample_gateway) 0)) = [2, 0, 7, 0, 0, 0, 0, 0, 1, 2]"
    using d [of 0] by (simp add: *(2) n(1) sample_gateway_fields(5) wire out)
  moreover have "cout (cc_socket (g_clients (handleGrpcPacket sample_broadcast sample_gateway) 1)) = [0x82, 10, 2, 0, 7, 0, 0, 0, 0, 0, 1, 2]"
    using d [of 1] by (simp add: *(2) n(2) [simplified] sample_gateway_fields(5) wire out)
  moreover have "g_bytesOut (handleGrpcPacket sample_broadcast sample_gateway) 1 = 10"
    using d [of 1] by (simp add: *(2) n(2) [simplified] sample_gateway_fields(3)) (simp add: sample_broadcast_def)
  ultimately show ?thesis by blast
qed

section \<open>Disconnects by the server\<close>

lemma sendToSession_gone: "Session_Get (g_sessions g) sid = None \<Longrightarrow> sendToSession sid p g = g"
  by (simp add: sendToSession_def)

text \<open>
  Lifecycle packets.  A disconnect by the server closes the client of that session and
  removes the session, leaves every other client and session as it was, and packets that
  still arrive for the session are dropped; acceptance of a client and heartbeat answers change
  nothing.
\<close>

theorem grpc_lifecycle:
  assumes "store_ok (g_sworld g) (g_sessions g)" and "session_client g (gp_SessionId p) = Some c"
    and "gp_SessionId p \<noteq> 0" and "packet_type p = Some ''server_disconnect''"
  defines "g' \<equiv> handleGrpcPacket p g"
  shows "cclosed (cc_socket (g_clients g' c)) \<and> (\<forall>c'. c' \<noteq> c \<longrightarrow> g_clients g' c' = g_clients g c') \<and>
    (\<forall>sid. Session_Get (g_sessions g') sid = (if sid = gp_SessionId p then None else Session_Get (g_sessions g) sid)) \<and>
    (\<forall>q. \<not> lifecycle q \<and> packet_targets q = [gp_SessionId p] \<longrightarrow> handleGrpcPacket q g' = g') \<and>
    (\<forall>q. packet_type q = Some ''server_connect'' \<or> packet_type q = Some ''pong'' \<longrightarrow> handleGrpcPacket q g = g)"
proof -
  obtain r cr where r: "Session_Get (g_sessions g) (gp_SessionId p) = Some r" "ClientConn (heap (g_sworld g) r) = Some cr" "client_of cr = c"
    using assms(2) by (auto simp: session_client_def split: option.splits)
  have g': "g' = (set_client c (cc_Close (g_clients g c)) g)\<lparr>g_sessions := Session_Remove (gp_SessionId p) (g_sessions g)\<rparr>"
    unfolding g'_def using assms(3,4) r by (simp add: handleGrpcPacket_def handleServerDisconnect_def)
  have get: "Session_Get (g_sessions g') sid = (if sid = gp_SessionId p then None else Session_Get (g_sessions g) sid)" for sid
    using Get_Remove [OF assms(1)] by (simp add: g')
  have "handleGrpcPacket q g' = g'" if "\<not> lifecycle q" "packet_targets q = [gp_SessionId p]" for q
    using that get by (simp add: handleGrpcPacket_ordinary sendToSession_gone)
  then show ?thesis using get by (auto simp: g' handleGrpcPacket_def)
qed

definition sample_disconnect :: GamePacket where
  "sample_disconnect = \<lparr>gp_SessionId = 6, gp_MsgId = 0, gp_Payload = [], gp_Metadata = Some [(''packet_type'', ''server_disconnect'')],
     gp_TargetSessionIds = []\<rparr>"

lemma sample_gateway_store: "store_ok (g_sworld sample_gateway) (g_sessions sample_gateway)"
  by (simp add: sample_gateway_fields(1,2) Add_ok NewManager_ok)

theorem grpc_lifecycle_witness:
  "cclosed (cc_socket (g_clients (handleGrpcPacket sample_disconnect sample_gateway) 1)) \<and>
   Session_Get (g_sessions (handleGrpcPacket sample_disconnect sample_gateway)) 6 = None \<and>
   Session_Get (g_sessions (handleGrpcPacket sample_disconnect sample_gateway)) 5 = Some 0"
proof -
  have p: "gp_SessionId sample_disconnect = 6" "packet_type sample_disconnect = Some ''server_disconnect''"
    by (simp_all add: sample_disconnect_def packet_type_def gomap_get_def)
  show ?thesis
    using grpc_lifecycle [OF sample_gateway_store, of sample_disconnect 1] p by (simp add: sample_gateway_clients sample_gateway_sessions)
qed

section \<open>What the other goroutines leave alone\<close>

primrec is_ws :: "client_conn \<Rightarrow> bool" where
  "is_ws (TCPClient _) = False" | "is_ws (WSClient _) = True"

text \<open>
  From \<open>g\<close> to \<open>g'\<close> nothing was sent to a backend, no buffer taken and nothing read from a
  client; connections may have been written to or closed, which ends the stream early.
\<close>

definition undisturbed :: "Gateway \<Rightarrow> Gateway \<Rightarrow> bool" where
  "undisturbed g g' \<longleftrightarrow> g_sent g' = g_sent g \<and> g_buffers g' = g_buffers g \<and> heap (g_sworld g') = heap (g_sworld g) \<and>
     (store_ok (g_sworld g) (g_sessions g) \<longrightarrow> store_ok (g_sworld g') (g_sessions g')) \<and>
     (\<forall>c. is_ws (g_clients g' c) = is_ws (g_clients g c) \<and> prefix (cc_content (g_clients g' c)) (cc_content (g_clients g c)))"

lemma undisturbed_refl [simp]: "undisturbed g g"
  by (simp add: undisturbed_def)

lemma undisturbed_trans: "undisturbed g g' \<Longrightarrow> undisturbed g' g'' \<Longrightarrow> undisturbed g g''"
  unfolding undisturbed_def by (metis prefix_order.trans)

lemma undisturbed_fold: "(\<And>x g. undisturbed g (f x g)) \<Longrightarrow> undisturbed g (fold f xs g)"
  by (induction xs arbitrary: g) (auto intro: undisturbed_trans)

lemma cc_Write_kind: "cc_Write c p = (e, c') \<Longrightarrow> is_ws c' = is_ws c"
  by (cases c) (auto split: prod.splits)

lemma cc_Close_kind [simp]: "is_ws (cc_Close c) = is_ws c"
  by (cases c) auto

lemma undisturbed_set_client:
  "is_ws cc = is_ws (g_clients g c) \<Longrightarrow> prefix (cc_content cc) (cc_content (g_clients g c)) \<Longrightarrow> undisturbed g (set_client c cc g)"
  by (simp add: undisturbed_def)

lemma undisturbed_add_bytes: "undisturbed g g' \<Longrightarrow> undisturbed g (add_bytesOut k n g')"
  by (simp add: undisturbed_def)

lemma undisturbed_write:
  assumes "cc_Write cc p = (e, cc')" and "undisturbed g (set_client c cc g)"
  shows "undisturbed g (set_client c cc' g)"
proof (rule undisturbed_set_client)
  have "\<forall>c'. is_ws (((g_clients g)(c := cc)) c') = is_ws (g_clients g c') \<and>
      prefix (cc_content (((g_clients g)(c := cc)) c')) (cc_content (g_clients g c'))"
    using assms(2) unfolding undisturbed_def set_client_simps by blast
  from spec [OF this, of c] show "is_ws cc' = is_ws (g_clients g c)" "prefix (cc_content cc') (cc_content (g_clients g c))"
    using cc_Write_kind [OF assms(1)] cc_Write_content [OF assms(1)] by simp_all
qed

lemma undisturbed_sendToSession: "undisturbed g (sendToSession sid p g)"
proof (cases "session_client g sid")
  case None
  then show ?thesis by (simp add: sendToSession_unknown)
next
  case (Some c)
  then obtain r cr where r: "Session_Get (g_sessions g) sid = Some r" "ClientConn (heap (g_sworld g) r) = Some cr" "client_of cr = c"
    by (auto simp: session_client_def split: option.splits)
  have start: "undisturbed g (set_client c (g_clients g c) g)" by (simp add: undisturbed_set_client)
  note wr = undisturbed_write [of _ _ _ _ g c]
  show ?thesis
  proof (cases "g_clients g c")
    case (TCPClient b)
    then show ?thesis using r start wr
      by (auto simp: sendToSession_def WriteClientMessageHeader_def Let_def simp del: cc_Write.simps
          intro!: undisturbed_add_bytes split: prod.splits option.splits)
  next
    case (WSClient w)
    then show ?thesis using r start wr [of "WSClient w" "full_message p"]
      by (auto simp: sendToSession_def Let_def intro!: undisturbed_add_bytes split: prod.splits option.splits)
  qed
qed

lemma undisturbed_remove: "undisturbed g g' \<Longrightarrow> undisturbed g (g'\<lparr>g_sessions := Session_Remove sid (g_sessions g')\<rparr>)"
  by (auto simp: undisturbed_def intro: Remove_ok)

lemma undisturbed_close: "undisturbed g (set_client c (cc_Close (g_clients g c)) g)"
  by (simp add: undisturbed_set_client cc_Close_prefix)

lemma undisturbed_handleGrpcPacket: "undisturbed g (handleGrpcPacket p g)"
proof -
  have "undisturbed g (handleServerDisconnect sid g)" for sid
    using undisturbed_remove [OF undisturbed_close [of g]] undisturbed_remove [OF undisturbed_refl [of g]]
    by (auto simp: handleServerDisconnect_def Let_def split: option.splits)
  moreover have "undisturbed g (fold (\<lambda>sid. sendToSession sid p) sids g)" for sids
    by (rule undisturbed_fold) (rule undisturbed_sendToSession)
  ultimately show ?thesis by (simp add: handleGrpcPacket_def undisturbed_sendToSession)
qed

lemma undisturbed_close_ref: "undisturbed g (close_ref r g)"
  using undisturbed_close [of g "client_of r"] by (simp add: close_ref_def set_client_def) (simp add: undisturbed_def)

lemma undisturbed_cleanup: "undisturbed g (session_cleanup_tick now g)"
proof -
  obtain m w k where c: "CleanupIdle now (30 * minute) (g_sessions g) (g_sworld g) = (m, w, k)"
    by (cases "CleanupIdle now (30 * minute) (g_sessions g) (g_sworld g)")
  then have "heap w = heap (g_sworld g)" by (auto simp: CleanupIdle_eq)
  then have "undisturbed g (g\<lparr>g_sessions := m, g_sworld := w\<rparr>)"
    using Cleanup_ok [OF _ c] by (simp add: undisturbed_def)
  from undisturbed_trans [OF this undisturbed_fold [of close_ref, OF undisturbed_close_ref]]
  show ?thesis unfolding session_cleanup_tick_def c by simp
qed

section \<open>Packets of a client reach the backend in order\<close>

text \<open>What the loop will still read.\<close>

definition grpc_content :: "client_conn bufio \<Rightarrow> bytes" where
  "grpc_content b = (if is_ws (bf_rd b) then bf_buf b @ cc_content (bf_rd b) else cc_content (bf_rd b))"

definition grpc_ending :: "client_conn bufio \<Rightarrow> stop" where
  "grpc_ending b = cc_ending (bf_rd b)"

lemma cc_Read_kind: "cc_Read c n = (res, c') \<Longrightarrow> is_ws c' = is_ws c"
  by (cases c) (auto split: prod.splits)

lemma bufio_Read_kind: "bufio_Read cc_Read b n = (res, b') \<Longrightarrow> is_ws (bf_rd b') = is_ws (bf_rd b)"
  using bufio_Read_preserves [of is_ws cc_Read b n] cc_Read_kind by (metis prod.collapse snd_conv)

lemma grpc_read_direct: "\<not> is_ws (bf_rd b) \<Longrightarrow> grpc_read b n = (case cc_Read (bf_rd b) n of (res, cc) \<Rightarrow> (res, b\<lparr>bf_rd := cc\<rparr>))"
  by (cases "bf_rd b") (simp_all add: grpc_read_def)

lemma grpc_read_buffered: "is_ws (bf_rd b) \<Longrightarrow> grpc_read b n = bufio_Read cc_Read b n"
  by (cases "bf_rd b") (simp_all add: grpc_read_def)

interpretation grpc_rd: byte_reader grpc_read grpc_content grpc_ending
proof
  fix n :: nat and b
  assume n: "0 < n" and ne: "grpc_content b \<noteq> []"
  show "\<exists>x xs b'. grpc_read b n = (Got x xs, b') \<and> length xs < n \<and> grpc_content b = x # xs @ grpc_content b' \<and>
      grpc_ending b' = grpc_ending b"
  proof (cases "is_ws (bf_rd b)")
    case True
    with ne have "client_content b \<noteq> []" by (simp add: grpc_content_def client_content_def)
    from fwd_rd.read_got [OF n this] obtain x xs b' where r: "client_read b n = (Got x xs, b')" "length xs < n"
      "client_content b = x # xs @ client_content b'" "client_ending b' = client_ending b" by blast
    with True bufio_Read_kind [OF r(1)] show ?thesis
      by (auto simp: grpc_read_buffered grpc_content_def client_content_def grpc_ending_def client_ending_def)
  next
    case False
    with ne have "cc_content (bf_rd b) \<noteq> []" by (simp add: grpc_content_def)
    from cc_rd.read_got [OF n this] obtain x xs c where r: "cc_Read (bf_rd b) n = (Got x xs, c)" "length xs < n"
      "cc_content (bf_rd b) = x # xs @ cc_content c" "cc_ending c = cc_ending (bf_rd b)" by blast
    with False cc_Read_kind [OF r(1)] show ?thesis
      by (simp add: grpc_read_direct grpc_content_def grpc_ending_def)
  qed
next
  fix n :: nat and b
  assume n: "0 < n" and e: "grpc_content b = []"
  show "\<exists>b'. grpc_read b n = (stop_result (grpc_ending b), b')"
  proof (cases "is_ws (bf_rd b)")
    case True
    with e fwd_rd.read_end [OF n, of b] show ?thesis
      by (simp add: grpc_read_buffered grpc_content_def client_content_def grpc_ending_def client_ending_def)
  next
    case False
    with e cc_rd.read_end [OF n, of "bf_rd b"] show ?thesis
      by (auto simp: grpc_read_direct grpc_content_def grpc_ending_def)
  qed
qed

text \<open>A packet of the client as the backend is sent it.\<close>

fun game_packet :: "grpc_conf \<Rightarrow> sent_packet \<Rightarrow> GamePacket" where
  "game_packet cf (h, d, tc) =
     \<lparr>gp_SessionId = gc_sessID cf, gp_MsgId = ucast (cmh_MessageID h), gp_Payload = d,
      gp_Metadata = (if gc_trace cf then tc else None), gp_TargetSessionIds = []\<rparr>"

definition loop_content :: "grpc_conf \<Rightarrow> grpc_fwd \<Rightarrow> bytes" where
  "loop_content cf s = grpc_content \<lparr>bf_buf = gf_pending s, bf_rd = g_clients (gf_gw s) (gc_client cf)\<rparr>"

definition grpc_progress :: "grpc_conf \<Rightarrow> bytes \<Rightarrow> (string \<times> GamePacket) list \<Rightarrow> int \<Rightarrow> nat \<Rightarrow> sent_packet list \<Rightarrow> grpc_fwd \<Rightarrow> bool" where
  "grpc_progress cf stream out n k ps s \<longleftrightarrow>
     list_all whole_packet ps \<and> prefix (concat (map client_bytes ps)) stream \<and>
     g_sent (gf_gw s) = out @ map (\<lambda>p. (gc_backendAddr cf, game_packet cf p)) ps \<and>
     gf_bytesIn s = n + packets_size ps \<and>
     (gf_state s = Looping \<longrightarrow> length ps = k \<and> prefix (concat (map client_bytes ps) @ loop_content cf s) stream)"

definition grpc_loop_inv :: "grpc_conf \<Rightarrow> bytes \<Rightarrow> (string \<times> GamePacket) list \<Rightarrow> int \<Rightarrow> nat \<Rightarrow> grpc_fwd \<Rightarrow> bool" where
  "grpc_loop_inv cf stream out n k s \<longleftrightarrow> pool_ok (g_buffers (gf_gw s)) \<and> (\<exists>ps. grpc_progress cf stream out n k ps s)"

lemma grpc_Send_cases:
  assumes "grpc_Send sn addr pk g = (res, g')"
  obtains (sent) m where "res = Ok ()" "g' = g\<lparr>g_grpc := m, g_sent := g_sent g @ [(addr, pk)]\<rparr>"
  | (failed) m where "\<not> is_ok res" "g' = g\<lparr>g_grpc := m\<rparr>"
  using assms
proof (cases "g_grpc g")
  case None
  then have "\<not> is_ok res" "g' = g\<lparr>g_grpc := g_grpc g\<rparr>" using assms by (auto simp: grpc_Send_def)
  then show thesis by (rule failed)
next
  case (Some m)
  obtain e m' where s: "Grpc_Send addr (sn_connect sn) (sn_error sn) m = (e, m')" by fastforce
  show thesis
  proof (cases e)
    case None
    then show thesis using assms Some s by (intro sent [of "Some m'"]) (simp_all add: grpc_Send_def)
  next
    case (Some x)
    then show thesis using assms \<open>g_grpc g = Some m\<close> s by (intro failed [of "Some m'"]) (auto simp: grpc_Send_def)
  qed
qed

text \<open>How one round ends: the loop leaves and nothing was sent, or one whole packet was read and sent.\<close>

lemma grpc_round_cases:
  assumes "gf_state s = Looping" and "pool_ok (g_buffers (gf_gw s))"
  obtains (leaves) s' st where "grpc_round cf e sn s = grpc_leave cf st s'" "st \<noteq> Looping" "gf_bytesIn s' = gf_bytesIn s"
      "g_sent (gf_gw s') = g_sent (gf_gw s)" "pool_ok (g_buffers (gf_gw s'))" "g_sworld (gf_gw s') = g_sworld (gf_gw s)"
      "g_sessions (gf_gw s') = g_sessions (gf_gw s)"
  | (sends) h d where "length d = unat (cmh_Length h)"
      "loop_content cf s = client_bytes (h, d, re_trace e) @ loop_content cf (grpc_round cf e sn s)"
      "g_sent (gf_gw (grpc_round cf e sn s)) = g_sent (gf_gw s) @ [(gc_backendAddr cf, game_packet cf (h, d, re_trace e))]"
      "gf_bytesIn (grpc_round cf e sn s) = gf_bytesIn s + int (length d)" "gf_state (grpc_round cf e sn s) = Looping"
      "pool_ok (g_buffers (gf_gw (grpc_round cf e sn s)))" "g_sworld (gf_gw (grpc_round cf e sn s)) = g_sworld (gf_gw s)"
      "g_sessions (gf_gw (grpc_round cf e sn s)) = g_sessions (gf_gw s)"
proof -
  let ?b = "\<lparr>bf_buf = gf_pending s, bf_rd = g_clients (gf_gw s) (gc_client cf)\<rparr>"
  obtain res r p where rp: "ReadFullPacket grpc_read ?b (gc_maxMessageSize cf) (re_buffer e) (g_buffers (gf_gw s)) = (res, r, p)"
    by (cases "ReadFullPacket grpc_read ?b (gc_maxMessageSize cf) (re_buffer e) (g_buffers (gf_gw s))")
  note ref = grpc_rd.ReadFullPacket_refines [OF assms(2), of ?b "gc_maxMessageSize cf" "re_buffer e", unfolded rp]
  from ref have p: "pool_ok p" by auto
  define s1 where "s1 = s\<lparr>gf_gw := (set_client (gc_client cf) (bf_rd r) (gf_gw s))\<lparr>g_buffers := p\<rparr>, gf_pending := bf_buf r\<rparr>"
  have s1: "gf_bytesIn s1 = gf_bytesIn s" "g_sent (gf_gw s1) = g_sent (gf_gw s)" "g_buffers (gf_gw s1) = p"
    "g_sworld (gf_gw s1) = g_sworld (gf_gw s)" "g_sessions (gf_gw s1) = g_sessions (gf_gw s)" "loop_content cf s1 = grpc_content r"
    "gf_state s1 = gf_state s"
    by (simp_all add: s1_def loop_content_def grpc_content_def)
  have failed: thesis if "\<not> is_ok res"
    by (rule leaves [of "case res of Panic m \<Rightarrow> Crashed m | _ \<Rightarrow> Left" s1])
      (use that assms(1) rp p s1 in \<open>cases res; simp add: grpc_round_def s1_def Let_def\<close>)+
  show thesis
  proof (cases res)
    case (Ok hd)
    obtain h sl where hd: "hd = (h, sl)" by (cases hd)
    have parse: "parse_packet (gc_maxMessageSize cf) (grpc_content ?b) (grpc_ending ?b) = Ok (h, payload sl)"
      and rest: "grpc_content ?b = client_bytes (h, payload sl, re_trace e) @ grpc_content r"
      using ref Ok hd by (auto split: res.splits)
    define pk where "pk = grpc_packet cf e h (payload sl)"
    obtain x g2 where sd: "grpc_Send sn (gc_backendAddr cf) pk (gf_gw s1) = (x, g2)" by fastforce
    have rnd: "grpc_round cf e sn s = (case x of Panic m \<Rightarrow> grpc_leave cf (Crashed m) (s1\<lparr>gf_gw := g2\<rparr>)
        | Err err \<Rightarrow> grpc_leave cf Left (s1\<lparr>gf_gw := g2\<rparr>)
        | Ok _ \<Rightarrow> s1\<lparr>gf_gw := g2, gf_bytesIn := gf_bytesIn s + int (length (payload sl))\<rparr>)"
      using assms(1) rp Ok hd sd
      by (auto simp: grpc_round_def s1_def pk_def Let_def split: res.splits)
    from sd show thesis
    proof (cases rule: grpc_Send_cases)
      case (sent m)
      show thesis
        by (rule sends [OF parse_packet_whole [OF parse]])
          (use rnd sent rest assms(1) p s1 in \<open>simp_all add: pk_def grpc_packet_def loop_content_def\<close>)
    next
      case (failed m)
      then obtain st where "grpc_round cf e sn s = grpc_leave cf st (s1\<lparr>gf_gw := g2\<rparr>)" "st \<noteq> Looping"
        using rnd by (cases x) auto
      then show thesis using failed(2) p s1 by (intro leaves [of st "s1\<lparr>gf_gw := g2\<rparr>"]) simp_all
    qed
  qed (use failed in auto)
qed

text \<open>Another goroutine at work keeps the progress.\<close>

lemma undisturbed_progress:
  assumes "undisturbed (gf_gw s) g'" and "grpc_loop_inv cf stream out n k s"
  shows "grpc_loop_inv cf stream out n k (s\<lparr>gf_gw := g'\<rparr>)"
proof -
  have sh: "g_sent g' = g_sent (gf_gw s)" "g_buffers g' = g_buffers (gf_gw s)"
    "is_ws (g_clients g' (gc_client cf)) = is_ws (g_clients (gf_gw s) (gc_client cf))"
    "prefix (cc_content (g_clients g' (gc_client cf))) (cc_content (g_clients (gf_gw s) (gc_client cf)))"
    using assms(1) unfolding undisturbed_def by blast+
  have "prefix (loop_content cf (s\<lparr>gf_gw := g'\<rparr>)) (loop_content cf s)"
    using sh(3,4) by (simp add: loop_content_def grpc_content_def prefix_append_mono)
  then have "prefix (concat (map client_bytes ps) @ loop_content cf (s\<lparr>gf_gw := g'\<rparr>)) stream"
    if "prefix (concat (map client_bytes ps) @ loop_content cf s) stream" for ps
    using that prefix_append_mono prefix_order.trans by blast
  then show ?thesis using assms(2) sh by (auto simp: grpc_loop_inv_def grpc_progress_def)
qed

lemma grpc_round_progress:
  assumes inv: "grpc_loop_inv cf stream out n k s" and loop: "gf_state s = Looping"
  shows "grpc_loop_inv cf stream out n (Suc k) (grpc_round cf e sn s)"
proof -
  from inv obtain ps where pool: "pool_ok (g_buffers (gf_gw s))" and prog: "grpc_progress cf stream out n k ps s"
    by (auto simp: grpc_loop_inv_def)
  from loop pool show ?thesis
  proof (cases rule: grpc_round_cases [of s cf e sn])
    case (leaves st s')
    then have "grpc_progress cf stream out n (Suc k) ps (grpc_round cf e sn s)"
      using prog by (auto simp: grpc_progress_def grpc_leave_def)
    then show ?thesis using leaves by (auto simp: grpc_loop_inv_def grpc_leave_def)
  next
    case (sends h d)
    let ?pk = "(h, d, re_trace e)"
    have pre: "prefix (concat (map client_bytes (ps @ [?pk])) @ loop_content cf (grpc_round cf e sn s)) stream"
      using prog loop sends(2) by (simp add: grpc_progress_def)
    then have "prefix (concat (map client_bytes (ps @ [?pk]))) stream" by (rule append_prefixD)
    with pre sends prog loop have "grpc_progress cf stream out n (Suc k) (ps @ [?pk]) (grpc_round cf e sn s)"
      unfolding grpc_progress_def by (simp add: packets_size_def)
    then show ?thesis using sends by (auto simp: grpc_loop_inv_def)
  qed
qed

primrec is_round :: "grpc_event \<Rightarrow> bool" where
  "is_round (ClientRound e sn) = True" | "is_round (BackendPacket p) = False" | "is_round (CleanupTick t) = False"

definition rounds :: "grpc_event list \<Rightarrow> nat" where
  "rounds evs = length (filter is_round evs)"

lemma grpc_loop_progress:
  assumes "grpc_loop_inv cf stream out n k s"
  shows "grpc_loop_inv cf stream out n (k + rounds evs) (fold (grpc_event_step cf) evs s)"
  using assms
proof (induction evs arbitrary: s k)
  case (Cons ev evs)
  have step: "grpc_loop_inv cf stream out n (k + rounds [ev]) (grpc_event_step cf ev s)"
  proof (cases ev)
    case (ClientRound e sn)
    show ?thesis
    proof (cases "gf_state s = Looping")
      case True
      then show ?thesis using grpc_round_progress [OF Cons.prems] ClientRound by (simp add: rounds_def)
    next
      case False
      then show ?thesis using Cons.prems ClientRound
        by (auto simp: rounds_def grpc_round_def grpc_loop_inv_def grpc_progress_def)
    qed
  next
    case (BackendPacket p)
    then show ?thesis using undisturbed_progress [OF undisturbed_handleGrpcPacket Cons.prems] by (simp add: rounds_def)
  next
    case (CleanupTick t)
    then show ?thesis using undisturbed_progress [OF undisturbed_cleanup Cons.prems] by (simp add: rounds_def)
  qed
  have "k + rounds [ev] + rounds evs = k + rounds (ev # evs)" by (simp add: rounds_def)
  then show ?case using Cons.IH [OF step] by (simp only: fold_Cons comp_apply)
qed (simp add: rounds_def)

text \<open>
  C30. In gRPC mode the packets of a client reach its backend in order, whole and exactly
  once, whatever the backends send in the meantime and whenever the cleanup runs: what was
  sent are the packets at the front of the client's stream, with the ID of the session and the
  backend it was routed to; while the loop runs each of its rounds has sent one packet; and
  the byte counter is their total size.
\<close>

theorem grpc_forward_in_order:
  assumes "pool_ok (g_buffers g)"
  shows "let s = forwardGrpcConnection cf evs n g in \<exists>ps. list_all whole_packet ps \<and> prefix (concat (map client_bytes ps)) (cc_content (g_clients g (gc_client cf))) \<and>
    g_sent (gf_gw s) = g_sent g @ map (\<lambda>p. (gc_backendAddr cf, game_packet cf p)) ps \<and>
    gf_bytesIn s = n + packets_size ps \<and> (gf_state s = Looping \<longrightarrow> length ps = rounds evs)"
proof -
  have "grpc_loop_inv cf (cc_content (g_clients g (gc_client cf))) (g_sent g) n 0 (grpc_start n g)"
    using assms(1) by (auto simp: grpc_loop_inv_def grpc_progress_def grpc_start_def packets_size_def loop_content_def grpc_content_def
        intro!: exI [of _ "[]"])
  from grpc_loop_progress [OF this, of evs] show ?thesis
    unfolding Let_def forwardGrpcConnection_def by (auto simp: grpc_loop_inv_def grpc_progress_def)
qed

definition sample_grpc_conf :: grpc_conf where
  "sample_grpc_conf = \<lparr>gc_sessID = 5, gc_client = 0, gc_backendAddr = ''b:1'', gc_maxMessageSize = 0, gc_trace = False\<rparr>"

theorem grpc_forward_in_order_witness:
  "\<exists>ps. prefix (concat (map client_bytes ps)) (encoded [sample_packet]) \<and>
     g_sent (gf_gw (forwardGrpcConnection sample_grpc_conf [ClientRound sample_round \<lparr>sn_connect = (\<lambda>_. Connected 1 2), sn_error = None, sn_ms = 0\<rparr>] 0
       sample_gateway)) = map (\<lambda>p. (''b:1'', game_packet sample_grpc_conf p)) ps"
  using grpc_forward_in_order [of sample_gateway sample_grpc_conf
      "[ClientRound sample_round \<lparr>sn_connect = (\<lambda>_. Connected 1 2), sn_error = None, sn_ms = 0\<rparr>]" 0]
  by (auto simp: Let_def sample_gateway_fields(4,5,6) pool_ok_def sample_grpc_conf_def sample_client_simps)

section \<open>Sessions in gRPC mode expire while active\<close>

lemma grpc_step_world:
  assumes "pool_ok (g_buffers (gf_gw s))" and "store_ok (g_sworld (gf_gw s)) (g_sessions (gf_gw s))"
  shows "pool_ok (g_buffers (gf_gw (grpc_event_step cf ev s))) \<and>
    store_ok (g_sworld (gf_gw (grpc_event_step cf ev s))) (g_sessions (gf_gw (grpc_event_step cf ev s))) \<and>
    heap (g_sworld (gf_gw (grpc_event_step cf ev s))) = heap (g_sworld (gf_gw s))"
proof (cases ev)
  case (ClientRound e sn)
  show ?thesis
  proof (cases "gf_state s = Looping")
    case True
    then show ?thesis using assms ClientRound
      by (cases rule: grpc_round_cases [of s cf e sn]) (auto simp: grpc_leave_def intro: Remove_ok)
  next
    case False
    then show ?thesis using assms ClientRound by (simp add: grpc_round_def)
  qed
next
  case (BackendPacket p)
  then show ?thesis using assms undisturbed_handleGrpcPacket [of "gf_gw s" p] by (simp add: undisturbed_def)
next
  case (CleanupTick t)
  then show ?thesis using assms undisturbed_cleanup [of "gf_gw s" t] by (simp add: undisturbed_def)
qed

lemma grpc_run_world:
  assumes "pool_ok (g_buffers (gf_gw s))" and "store_ok (g_sworld (gf_gw s)) (g_sessions (gf_gw s))"
  shows "store_ok (g_sworld (gf_gw (fold (grpc_event_step cf) evs s))) (g_sessions (gf_gw (fold (grpc_event_step cf) evs s))) \<and>
    heap (g_sworld (gf_gw (fold (grpc_event_step cf) evs s))) = heap (g_sworld (gf_gw s))"
  using assms
proof (induction evs arbitrary: s)
  case (Cons ev evs)
  then show ?case using grpc_step_world [OF Cons.prems, of cf ev] by simp
qed simp

lemma close_ref_closes: "c \<in> set rs \<Longrightarrow> even c \<Longrightarrow> cclosed (cc_socket (g_clients (fold close_ref rs g) (client_of c)))"
proof -
  have keep: "cclosed (cc_socket (g_clients (close_ref r g) k))" if "cclosed (cc_socket (g_clients g k))" for r g k
    using that by (simp add: close_ref_def)
  have keeps: "cclosed (cc_socket (g_clients (fold close_ref rs g) k))" if "cclosed (cc_socket (g_clients g k))" for rs g k
    using that by (induction rs arbitrary: g) (simp_all add: keep)
  show "c \<in> set rs \<Longrightarrow> even c \<Longrightarrow> cclosed (cc_socket (g_clients (fold close_ref rs g) (client_of c)))"
    by (induction rs arbitrary: g) (auto intro: keeps simp: close_ref_def)
qed

text \<open>
  C32. In gRPC mode traffic does not keep a session alive.  However many packets were
  forwarded in either direction, the first cleanup more than thirty minutes after the session
  was created closes the client's connection and removes the session: no step of the mode
  updates the time of last activity.
\<close>

theorem grpc_session_expires:
  assumes "pool_ok (g_buffers g)" and "store_ok (g_sworld g) (g_sessions g)"
    and "ClientConn (heap (g_sworld g) r) = Some (client_ref c)" and "LastActiveAt (heap (g_sworld g) r) + 30 * minute < t"
    and "Session_Get (g_sessions (gf_gw (forwardGrpcConnection cf evs n g))) sid = Some r"
  shows "let g' = gf_gw (forwardGrpcConnection cf (evs @ [CleanupTick t]) n g)
    in Session_Get (g_sessions g') sid = None \<and> cclosed (cc_socket (g_clients g' c))"
proof -
  define g1 where "g1 = gf_gw (forwardGrpcConnection cf evs n g)"
  have w: "store_ok (g_sworld g1) (g_sessions g1)" "heap (g_sworld g1) = heap (g_sworld g)"
    using grpc_run_world [of "grpc_start n g" cf evs] assms(1,2) by (simp_all add: g1_def forwardGrpcConnection_def grpc_start_def)
  obtain m w' k where cl: "CleanupIdle t (30 * minute) (g_sessions g1) (g_sworld g1) = (m, w', k)"
    by (cases "CleanupIdle t (30 * minute) (g_sessions g1) (g_sworld g1)")
  have idle: "is_idle t (30 * minute) (g_sworld g1) r" using assms(4) w(2) by (simp add: is_idle_def)
  have get: "Session_Get (g_sessions g1) sid = Some r" using assms(5) by (simp add: g1_def)
  let ?new = "drop (length (closed (g_sworld g1))) (closed w')"
  have tick: "session_cleanup_tick t g1 = fold close_ref ?new (g1\<lparr>g_sessions := m, g_sworld := w'\<rparr>)"
    unfolding session_cleanup_tick_def cl by simp
  have "set ?new = (\<Union>sid \<in> sp_idle t (30 * minute) (store_abs (g_sessions g1, g_sworld g1)).
      set (close_conns (heap (g_sworld g1) (the (Session_Get (g_sessions g1) sid)))))"
    using closed_entries [OF w(1)] cl by (auto simp: CleanupIdle_eq)
  then have "client_ref c \<in> set ?new"
    using get idle assms(3) w(2) by (auto simp: sp_idle_def store_abs_def close_conns_def is_idle_def intro!: bexI [of _ sid])
  then have "cclosed (cc_socket (g_clients (session_cleanup_tick t g1) c))"
    using close_ref_closes [of "client_ref c" ?new "g1\<lparr>g_sessions := m, g_sworld := w'\<rparr>"] unfolding tick
    by (simp add: client_ref_def client_of_def)
  moreover have "Session_Get m sid = None" using Get_Cleanup [OF w(1) cl, of sid] get idle by simp
  moreover have "g_sessions (fold close_ref rs h) = g_sessions h" for rs h
    by (induction rs arbitrary: h) (simp_all add: close_ref_def)
  ultimately have "Session_Get (g_sessions (session_cleanup_tick t g1)) sid = None \<and>
      cclosed (cc_socket (g_clients (session_cleanup_tick t g1) c))" by (simp add: tick)
  then show ?thesis by (simp add: forwardGrpcConnection_def g1_def Let_def)
qed

theorem grpc_session_expires_witness:
  "cclosed (cc_socket (g_clients (gf_gw (forwardGrpcConnection sample_grpc_conf [BackendPacket sample_broadcast, CleanupTick (31 * minute)] 0
     sample_gateway)) 0))"
proof -
  have run: "gf_gw (forwardGrpcConnection sample_grpc_conf [BackendPacket sample_broadcast] 0 sample_gateway) =
      fold (\<lambda>sid. sendToSession sid sample_broadcast) [5, 6] sample_gateway"
    by (simp add: forwardGrpcConnection_def grpc_start_def handleGrpcPacket_def packet_type_def sample_broadcast_def)
  have "g_sessions (fold (\<lambda>sid. sendToSession sid sample_broadcast) [5, 6] sample_gateway) = g_sessions sample_gateway"
    using deliver_all [where sids = "[5, 6]" and p = sample_broadcast, OF sample_gateway_linked sample_gateway_writable] by (simp only: Let_def)
  then have get: "Session_Get (g_sessions (gf_gw (forwardGrpcConnection sample_grpc_conf [BackendPacket sample_broadcast] 0 sample_gateway))) 5
      = Some 0" by (simp only: run sample_gateway_sessions) simp
  have s: "ClientConn (heap (g_sworld sample_gateway) 0) = Some (client_ref 0)" "LastActiveAt (heap (g_sworld sample_gateway) 0) = 0"
    by (simp_all add: sample_gateway_world sample_session_def no_session_def)
  show ?thesis
    using grpc_session_expires [OF _ sample_gateway_store s(1) _ get, of "31 * minute"] s(2) sample_gateway_fields(4)
    by (simp add: Let_def pool_ok_def)
qed

end
