(* ===== verification/Handler.thy ===== *)
theory Handler
  imports GrpcBridge
begin

text \<open>
  The life of one client connection in \<open>internal/gateway/gateway.go\<close>, \<open>handleConnection\<close> and
  \<open>handleTCPConnection\<close>: admission, protocol detection, first packet, routing, circuit breaker,
  backend connection, session, forwarding, and everything that is deferred.  The components are
  the ones of the other theories; clocks, dial outcomes, arrivals and the interleaving of the
  forwarding goroutines are inputs.

  \<open>forwardConnection\<close> returns when its own loop ends, without waiting for the goroutine it
  started, so a run can leave that goroutine behind: it is part of the result.
\<close>

section \<open>Inputs and state\<close>

text \<open>One attempt to get a backend connection: clock readings, the outcome of dialling, and the context.\<close>

record dial_env =
  de_t1 :: time
  de_t2 :: time
  de_t3 :: time
  de_dial :: "net_conn res"
  de_sock :: conn                        \<comment> \<open>the socket, when dialling succeeds\<close>
  de_failed :: time                      \<comment> \<open>clock of \<open>RecordFailure\<close>\<close>
  de_ctx :: "go_error option"            \<comment> \<open>\<open>ctx.Err()\<close> before the attempt\<close>
  de_wait :: "go_error option"           \<comment> \<open>\<open>ctx.Done()\<close> during the wait after it\<close>

record handler_env =
  he_remoteAddr :: string
  he_conn :: conn
  he_clock :: clock3                     \<comment> \<open>in the limiter per address\<close>
  he_peek1 :: nat
  he_peek2 :: nat
  he_ReadRequest :: read_request
  he_buffer :: nat
  he_elapsed :: "nat list"               \<comment> \<open>clock of the session ID\<close>
  he_breaker :: time
  he_dials :: "nat \<Rightarrow> dial_env"
  he_notify :: send_env
  he_first :: send_env
  he_trace :: span_context
  he_created :: time
  he_fwd :: "fwd_event list"
  he_grpc :: "grpc_event list"
  he_bye :: send_env
  he_put :: time
  he_duration :: duration
  he_span :: "(string \<times> string) option"

text \<open>
  How a call ends: it returns, it has not come to an end yet, it panics (the deferred calls
  run), or a panic in the goroutine it started ends the process.
\<close>

datatype h_end = Returned | Blocked | HPanic string | ProcessDied string

text \<open>\<open>hs_left\<close> is the forwarding goroutine left behind, with its socket and settings.\<close>

record hstate =
  hs_gw :: Gateway
  hs_stats :: connectionStats
  hs_left :: "(net_conn \<times> fwd_conf \<times> fwd) option"

type_synonym h_run = "h_end \<times> hstate"

text \<open>A deferred call runs when the function returns or panics; it can itself panic.\<close>

definition h_defer :: "(h_end \<Rightarrow> hstate \<Rightarrow> h_run) \<Rightarrow> h_run \<Rightarrow> h_run" where
  "h_defer f r =
     (case r of
        (Blocked, s) \<Rightarrow> (Blocked, s)
      | (ProcessDied m, s) \<Rightarrow> (ProcessDied m, s)
      | (e, s) \<Rightarrow> f e s)"

definition on_gw :: "(Gateway \<Rightarrow> Gateway) \<Rightarrow> hstate \<Rightarrow> hstate" where
  "on_gw f s = s\<lparr>hs_gw := f (hs_gw s)\<rparr>"

definition on_stats :: "(connectionStats \<Rightarrow> connectionStats) \<Rightarrow> hstate \<Rightarrow> hstate" where
  "on_stats f s = s\<lparr>hs_stats := f (hs_stats s)\<rparr>"

section \<open>Getting a backend connection\<close>

text \<open>What the handler knows after routing.\<close>

record route_info =
  ri_sessionID :: "64 word"
  ri_backendAddr :: string
  ri_serverType :: "8 word"
  ri_worldID :: "16 word"
  ri_instID :: "8 word"
  ri_MessageID :: "16 word"
  ri_data :: bytes

definition on_breaker :: "string \<Rightarrow> (Breaker \<Rightarrow> Breaker) \<Rightarrow> Gateway \<Rightarrow> Gateway" where
  "on_breaker addr f g =
     (case gomap_get (g_breakers g) addr of
        None \<Rightarrow> g
      | Some b \<Rightarrow> g\<lparr>g_breakers := gomap_put addr (f b) (g_breakers g)\<rparr>)"

text \<open>The variables of the closure given to \<open>retry.Do\<close>.\<close>

record conn_try =
  ct_gw :: Gateway
  ct_conn :: "ref option"
  ct_count :: nat
  ct_panic :: "string option"

text \<open>
  The closure.  A panic leaves the loop too; it is kept in \<open>ct_panic\<close> and raised by the caller.
\<close>

definition connect_fn :: "handler_env \<Rightarrow> string \<Rightarrow> conn_try \<Rightarrow> go_error option \<times> conn_try" where
  "connect_fn env backendAddr t =
     (let d = he_dials env (ct_count t);
          g = ct_gw t;
          t1 = t\<lparr>ct_count := ct_count t + 1\<rparr>
      in case GetConnection (de_t1 d) (de_t2 d) (de_t3 d) (de_dial d) backendAddr (g_pools g) (g_pworld g) of
           (Ok c, m, w) \<Rightarrow>
             let net = (case de_dial d of
                          Ok sock \<Rightarrow> if next_ref w \<noteq> next_ref (g_pworld g) then (g_net g)(sock := de_sock d) else g_net g
                        | _ \<Rightarrow> g_net g)
             in (None, t1\<lparr>ct_gw := on_breaker backendAddr RecordSuccess (g\<lparr>g_pools := m, g_pworld := w, g_net := net\<rparr>),
                         ct_conn := Some c\<rparr>)
         | (Err err, m, w) \<Rightarrow>
             (Some err, t1\<lparr>ct_gw := on_breaker backendAddr (RecordFailure (de_failed d)) (g\<lparr>g_pools := m, g_pworld := w\<rparr>),
                          ct_conn := None\<rparr>)
         | (Panic p, m, w) \<Rightarrow> (None, t1\<lparr>ct_gw := g\<lparr>g_pools := m, g_pworld := w\<rparr>, ct_panic := Some p\<rparr>))"

definition connect_env :: "handler_env \<Rightarrow> string \<Rightarrow> conn_try retry_env" where
  "connect_env env backendAddr =
     \<lparr>ctx_Err = (\<lambda>t. de_ctx (he_dials env (ct_count t))),
      fn = connect_fn env backendAddr,
      wait = (\<lambda>d t. (de_wait (he_dials env (ct_count t - 1)), t))\<rparr>"

definition retry_config :: "Config \<Rightarrow> RetryConfig" where
  "retry_config cfg = \<lparr>MaxRetries = cp_MaxRetries (ConnectionPool cfg), RetryDelay = of_int (cp_RetryDelay (ConnectionPool cfg))\<rparr>"

section \<open>Reporting\<close>

text \<open>The fields of the statistics that name the route.\<close>

definition set_route :: "route_info \<Rightarrow> connectionStats \<Rightarrow> connectionStats" where
  "set_route i st =
     st\<lparr>cs_sessionID := ri_sessionID i, cs_backendAddr := ri_backendAddr i, cs_serverType := int (unat (ri_serverType i)),
        cs_worldID := int (unat (ri_worldID i))\<rparr>"

text \<open>The \<open>switch\<close> on the error of the first read.\<close>

definition read_failure :: "go_error \<Rightarrow> connectionStats \<Rightarrow> connectionStats" where
  "read_failure err =
     (if err = ErrMessageTooLarge then set_status ''rejected'' ''message too large''
      else if err = EOF then set_status ''closed'' ''connection closed before first packet''
      else set_status ''error'' (error_text err))"

section \<open>The session\<close>

definition forward_tcp :: "handler_env \<Rightarrow> nat \<Rightarrow> route_info \<Rightarrow> session_ref \<Rightarrow> net_conn \<Rightarrow> hstate \<Rightarrow> h_run" where
  "forward_tcp env c i r n s =
     (let g = hs_gw s;
          cf = \<lparr>fc_maxMessageSize = MaxMessageSize (Security (g_config g)), fc_sessionID = ri_sessionID i\<rparr>;
          f = forwardConnection cf (he_fwd env)
                (fwd_start (g_clients g c) (g_net g n) (g_buffers g) (cs_bytesIn (hs_stats s)) (g_bytesOut g c) (he_created env));
          sess = heap (g_sworld g) r;
          g' = (set_client c (bf_rd (fw_client f)) g)\<lparr>g_net := (g_net g)(n := fw_backend f), g_buffers := fw_buffers f,
                 g_bytesOut := (g_bytesOut g)(c := fw_bytesOut f),
                 g_sworld := (g_sworld g)\<lparr>heap := (heap (g_sworld g))(r := sess\<lparr>LastActiveAt := fw_lastActive f\<rparr>)\<rparr>\<rparr>;
          s' = s\<lparr>hs_gw := g', hs_stats := (hs_stats s)\<lparr>cs_bytesIn := fw_bytesIn f\<rparr>,
                 hs_left := (if fw_up f = Looping then Some (n, cf, f) else None)\<rparr>
      in case fw_up f of
           Crashed m \<Rightarrow> (ProcessDied m, s')
         | _ \<Rightarrow> (case fw_down f of
                   Looping \<Rightarrow> (Blocked, s')
                 | Left \<Rightarrow> (Returned, s')
                 | Crashed m \<Rightarrow> (HPanic m, s')))"

definition forward_grpc :: "handler_env \<Rightarrow> nat \<Rightarrow> route_info \<Rightarrow> hstate \<Rightarrow> h_run" where
  "forward_grpc env c i s =
     (let g = hs_gw s;
          cf = \<lparr>gc_sessID = ri_sessionID i, gc_client = c, gc_backendAddr = ri_backendAddr i,
                gc_maxMessageSize = MaxMessageSize (Security (g_config g)), gc_trace = EnableTracePropagation (Tracing (g_config g))\<rparr>;
          f = forwardGrpcConnection cf (he_grpc env) (cs_bytesIn (hs_stats s)) g;
          s' = s\<lparr>hs_gw := gf_gw f, hs_stats := (hs_stats s)\<lparr>cs_bytesIn := gf_bytesIn f\<rparr>\<rparr>
      in case gf_state f of Looping \<Rightarrow> (Blocked, s') | Left \<Rightarrow> (Returned, s') | Crashed m \<Rightarrow> (HPanic m, s'))"

definition new_session :: "handler_env \<Rightarrow> nat \<Rightarrow> route_info \<Rightarrow> net_conn option \<Rightarrow> Session" where
  "new_session env c i n =
     no_session\<lparr>SessionID := ri_sessionID i, ClientConn := Some (client_ref c), BackendConn := map_option backend_ref n,
       ServiceType := dec_nat (unat (ri_serverType i)), WorldID := int (unat (ri_worldID i)), InstID := int (unat (ri_instID i)),
       CreatedAt := he_created env, LastActiveAt := he_created env, State := SessionStateConnected, BytesOut := Some c\<rparr>"

text \<open>The session is registered, and removed by a deferred call.\<close>

definition tcp_session :: "handler_env \<Rightarrow> nat \<Rightarrow> route_info \<Rightarrow> net_conn option \<Rightarrow> hstate \<Rightarrow> h_run" where
  "tcp_session env c i n s =
     (let g = hs_gw s;
          r = g_nextSession g;
          w = (g_sworld g)\<lparr>heap := (heap (g_sworld g))(r := new_session env c i n)\<rparr>;
          g1 = g\<lparr>g_sworld := w, g_nextSession := r + 1, g_sessions := Session_Add w r (g_sessions g)\<rparr>;
          s1 = s\<lparr>hs_gw := g1, hs_stats := (set_route i (hs_stats s))\<lparr>cs_status := ''success''\<rparr>\<rparr>
      in h_defer (\<lambda>e s'. (e, on_gw (\<lambda>g. g\<lparr>g_sessions := Session_Remove (ri_sessionID i) (g_sessions g)\<rparr>) s'))
           (case n of
              Some k \<Rightarrow> if UseGrpc (Server (g_config g1)) then forward_grpc env c i s1 else forward_tcp env c i r k s1
            | None \<Rightarrow> if UseGrpc (Server (g_config g1)) then forward_grpc env c i s1 else (HPanic ''nil pointer dereference'', s1)))"

text \<open>The first message goes out before the session is registered.\<close>

definition tcp_first :: "handler_env \<Rightarrow> nat \<Rightarrow> route_info \<Rightarrow> net_conn option \<Rightarrow> hstate \<Rightarrow> h_run" where
  "tcp_first env c i n s =
     (let g = hs_gw s;
          traceContext = (if EnableTracePropagation (Tracing (g_config g)) then extractTraceContext (he_trace env) else None);
          refuse = (\<lambda>msg err. on_stats (set_route i \<circ> set_status ''error'' (msg @ error_text err)))
      in if UseGrpc (Server (g_config g)) then
           (case grpc_Send (he_first env) (ri_backendAddr i)
                   \<lparr>gp_SessionId = ri_sessionID i, gp_MsgId = ucast (ri_MessageID i), gp_Payload = ri_data i,
                    gp_Metadata = traceContext, gp_TargetSessionIds = []\<rparr> g of
              (Panic m, g') \<Rightarrow> (HPanic m, s\<lparr>hs_gw := g'\<rparr>)
            | (Err err, g') \<Rightarrow> (Returned, refuse ''grpc send failed: '' err (s\<lparr>hs_gw := g'\<rparr>))
            | (Ok _, g') \<Rightarrow> tcp_session env c i n (s\<lparr>hs_gw := g'\<rparr>))
         else
           (case n of
              None \<Rightarrow> (HPanic ''nil pointer dereference'', s)
            | Some k \<Rightarrow>
                (case WriteServerMessage conn_Write (g_net g k) (ucast (ri_MessageID i)) (ri_sessionID i) (ri_data i) [traceContext] of
                   (Some err, b) \<Rightarrow> (Returned, refuse ''write message failed: '' err (s\<lparr>hs_gw := g\<lparr>g_net := (g_net g)(k := b)\<rparr>\<rparr>))
                 | (None, b) \<Rightarrow> tcp_session env c i n (s\<lparr>hs_gw := g\<lparr>g_net := (g_net g)(k := b)\<rparr>\<rparr>))))"

section \<open>Notification and return of the connection\<close>

text \<open>
  The deferred call: the backend is told, a panic is raised again, and otherwise the
  connection goes back to the pool.
\<close>

definition tcp_bye :: "handler_env \<Rightarrow> route_info \<Rightarrow> ref option \<Rightarrow> h_end \<Rightarrow> hstate \<Rightarrow> h_run" where
  "tcp_bye env i backendConn e s =
     (let st = hs_stats s;
          reason = (if cs_status st = ''error'' then cs_errorMsg st else ''normal'')
      in case notifyBackendClientDisconnect (he_bye env) (ri_backendAddr i) (ri_sessionID i) reason (hs_gw s) of
           (Panic m, g) \<Rightarrow> (HPanic m, s\<lparr>hs_gw := g\<rparr>)
         | (_, g) \<Rightarrow>
             (case e of
                HPanic m \<Rightarrow> (HPanic m, s\<lparr>hs_gw := g\<rparr>)
              | _ \<Rightarrow>
                  (case backendConn of
                     None \<Rightarrow> (e, s\<lparr>hs_gw := g\<rparr>)
                   | Some c \<Rightarrow>
                       (case PutConnection (he_put env) (ri_backendAddr i) c (g_pools g) (g_pworld g) of
                          Ok (m, w) \<Rightarrow> (e, s\<lparr>hs_gw := g\<lparr>g_pools := m, g_pworld := w\<rparr>\<rparr>)
                        | Err err \<Rightarrow> (e, s\<lparr>hs_gw := g\<rparr>)
                        | Panic p \<Rightarrow> (HPanic p, s\<lparr>hs_gw := g\<rparr>)))))"

definition tcp_notify :: "handler_env \<Rightarrow> nat \<Rightarrow> route_info \<Rightarrow> ref option \<Rightarrow> hstate \<Rightarrow> h_run" where
  "tcp_notify env c i backendConn s =
     (case notifyBackendClientConnect (he_notify env) (ri_backendAddr i) (ri_sessionID i) (extractIP (he_remoteAddr env)) ''tcp'' (hs_gw s) of
        (Panic m, g) \<Rightarrow> (HPanic m, s\<lparr>hs_gw := g\<rparr>)
      | (Err err, g) \<Rightarrow>
          (Returned, on_stats (set_route i \<circ> set_status ''error'' (''notify connect failed: '' @ error_text err)) (s\<lparr>hs_gw := g\<rparr>))
      | (Ok _, g) \<Rightarrow>
          h_defer (tcp_bye env i backendConn)
            (tcp_first env c i (map_option (\<lambda>b. conn (obj (g_pworld g) b)) backendConn) (s\<lparr>hs_gw := g\<rparr>)))"

definition tcp_connect :: "handler_env \<Rightarrow> nat \<Rightarrow> route_info \<Rightarrow> hstate \<Rightarrow> h_run" where
  "tcp_connect env c i s =
     (if UseGrpc (Server (g_config (hs_gw s))) then tcp_notify env c i None s
      else
        case Do (connect_env env (ri_backendAddr i)) (retry_config (g_config (hs_gw s)))
               \<lparr>ct_gw = hs_gw s, ct_conn = None, ct_count = 0, ct_panic = None\<rparr> of
          (err, t) \<Rightarrow>
            (case ct_panic t of
               Some m \<Rightarrow> (HPanic m, s\<lparr>hs_gw := ct_gw t\<rparr>)
             | None \<Rightarrow>
                 (case err of
                    Some x \<Rightarrow>
                      (Returned, on_stats (set_route i \<circ> set_status ''error'' (''backend connection failed: '' @ error_text x))
                         (s\<lparr>hs_gw := ct_gw t\<rparr>))
                  | None \<Rightarrow> tcp_notify env c i (ct_conn t) (s\<lparr>hs_gw := ct_gw t\<rparr>))))"

section \<open>The handler of a packet stream\<close>

definition tcp_route :: "handler_env \<Rightarrow> nat \<Rightarrow> ClientMessageHeader \<Rightarrow> bytes \<Rightarrow> hstate \<Rightarrow> h_run" where
  "tcp_route env c clientHeader messageData s =
     (case ExtractServerIDInfo (cmh_ServerID clientHeader) of
        (_, worldID, serverType, instID) \<Rightarrow>
          (case generateSessionID (he_elapsed env) (g_ids (hs_gw s)) of
             None \<Rightarrow> (Blocked, s)
           | Some (sessionID, ids) \<Rightarrow>
               let place = (\<lambda>st. st\<lparr>cs_serverType := int (unat serverType), cs_worldID := int (unat worldID)\<rparr>)
               in case routeToBackend (int (unat serverType)) (int (unat worldID)) (int (unat instID)) ((hs_gw s)\<lparr>g_ids := ids\<rparr>) of
                    (Panic m, g) \<Rightarrow> (HPanic m, s\<lparr>hs_gw := g\<rparr>)
                  | (Err err, g) \<Rightarrow>
                      (Returned, on_stats (place \<circ> set_status ''error'' (''routing failed: '' @ error_text err)) (s\<lparr>hs_gw := g\<rparr>))
                  | (Ok backendAddr, g) \<Rightarrow>
                      (case getOrCreateBreaker backendAddr (g_breakers g) of
                         (b, bs) \<Rightarrow>
                           (case Breaker_Allow (he_breaker env) b of
                              (allowed, b') \<Rightarrow>
                                let s1 = s\<lparr>hs_gw := g\<lparr>g_breakers := gomap_put backendAddr b' bs\<rparr>\<rparr>
                                in if \<not> allowed then
                                     (Returned, on_stats (place \<circ> (\<lambda>st. st\<lparr>cs_backendAddr := backendAddr\<rparr>) \<circ>
                                        set_status ''error'' ''circuit breaker open'') s1)
                                   else tcp_connect env c
                                     \<lparr>ri_sessionID = sessionID, ri_backendAddr = backendAddr, ri_serverType = serverType,
                                      ri_worldID = worldID, ri_instID = instID, ri_MessageID = cmh_MessageID clientHeader,
                                      ri_data = messageData\<rparr> s1))))"

text \<open>The buffer of the first packet goes back to the pool when the handler ends.\<close>

definition handleTCPConnection :: "handler_env \<Rightarrow> nat \<Rightarrow> hstate \<Rightarrow> h_run" where
  "handleTCPConnection env c s =
     (let g = hs_gw s
      in case ReadFullPacket cc_Read (g_clients g c) (MaxMessageSize (Security (g_config g))) (he_buffer env) (g_buffers g) of
           (res, cc, p) \<Rightarrow>
             let s1 = s\<lparr>hs_gw := (set_client c cc g)\<lparr>g_buffers := p\<rparr>\<rparr>
             in case res of
                  Panic m \<Rightarrow> (HPanic m, s1)
                | Err err \<Rightarrow> (Returned, on_stats (read_failure err) s1)
                | Ok (clientHeader, messageData) \<Rightarrow>
                    h_defer (\<lambda>e s'. (e, on_gw (\<lambda>g. g\<lparr>g_buffers := put_pooled messageData (g_buffers g)\<rparr>) s'))
                      (tcp_route env c clientHeader (payload messageData) s1))"

section \<open>The handler of a connection\<close>

text \<open>Protocol detection and the handlers for the three protocols.\<close>

definition handle_protocol :: "handler_env \<Rightarrow> nat \<Rightarrow> hstate \<Rightarrow> h_run" where
  "handle_protocol env c s =
     (let g = set_client c (TCPClient (bufio_NewReader (he_conn env))) (hs_gw s);
          maxMessageSize = MaxMessageSize (Security (g_config g));
          bridge = (\<lambda>out. case out of
             (Ok (Refused b), st) \<Rightarrow> (Returned, s\<lparr>hs_gw := set_client c (TCPClient b) g, hs_stats := st\<rparr>)
           | (Ok (Bridged w), st) \<Rightarrow> handleTCPConnection env c (s\<lparr>hs_gw := set_client c (WSClient w) g, hs_stats := st\<rparr>)
           | (Err err, st) \<Rightarrow> (Returned, s\<lparr>hs_gw := g, hs_stats := st\<rparr>)
           | (Panic m, st) \<Rightarrow> (HPanic m, s\<lparr>hs_gw := g, hs_stats := st\<rparr>))
      in case Sniff conn_Read (he_peek1 env) (he_peek2 env) (bufio_NewReader (he_conn env)) of
           (Panic m, b) \<Rightarrow> (HPanic m, s\<lparr>hs_gw := set_client c (TCPClient b) g\<rparr>)
         | (Err err, b) \<Rightarrow>
             (Returned, on_stats (set_status ''error'' (''protocol sniff failed: '' @ error_text err))
                (s\<lparr>hs_gw := set_client c (TCPClient b) g\<rparr>))
         | (Ok (protoType, _), b) \<Rightarrow>
             (case protoType of
                ProtocolWebSocket \<Rightarrow> bridge (handleWebSocketConnection (he_ReadRequest env) maxMessageSize b None (hs_stats s))
              | ProtocolHTTP \<Rightarrow> bridge (handleHTTPConnection (he_ReadRequest env) maxMessageSize b (hs_stats s))
              | ProtocolTCP \<Rightarrow> handleTCPConnection env c (s\<lparr>hs_gw := set_client c (TCPClient b) g\<rparr>)))"

text \<open>\<open>conn.Close()\<close> on the accepted socket, under whatever was built on it.\<close>

primrec close_socket :: "client_conn \<Rightarrow> client_conn" where
  "close_socket (TCPClient b) = TCPClient (b\<lparr>bf_rd := snd (conn_Close (bf_rd b))\<rparr>)"
| "close_socket (WSClient w) = WSClient (ws_set_conn (snd (conn_Close (ws_conn w))) w)"

definition start_stats :: connectionStats where
  "start_stats = \<lparr>cs_sessionID = 0, cs_backendAddr = [], cs_serverType = 0, cs_worldID = 0, cs_bytesIn = 0, cs_bytesOut = 0,
     cs_status = ''closed'', cs_errorMsg = []\<rparr>"

definition stats_entry :: "handler_env \<Rightarrow> int \<Rightarrow> connectionStats \<Rightarrow> AccessLogEntry" where
  "stats_entry env bytesOut st =
     zero_entry\<lparr>al_SessionID := cs_sessionID st, al_ClientAddr := he_remoteAddr env, al_BackendAddr := cs_backendAddr st,
       al_ServerType := cs_serverType st, al_WorldID := cs_worldID st, al_DurationNs := he_duration env,
       al_BytesIn := cs_bytesIn st, al_BytesOut := bytesOut, al_Status := cs_status st, al_Error := cs_errorMsg st\<rparr>"

definition on_conf :: "(gateway_conf \<Rightarrow> gateway_conf) \<Rightarrow> Gateway \<Rightarrow> Gateway" where
  "on_conf f g = g\<lparr>g_conf := f (g_conf g)\<rparr>"

text \<open>The deferred calls that run on every path: the access log line, then the socket is closed.\<close>

definition conn_end :: "handler_env \<Rightarrow> nat \<Rightarrow> h_end \<Rightarrow> hstate \<Rightarrow> h_run" where
  "conn_end env c e s =
     (e, on_gw (\<lambda>g. set_client c (close_socket (g_clients g c))
          (g\<lparr>g_access := LogAccess (he_span env) (stats_entry env (g_bytesOut g c) (hs_stats s)) (g_access g)\<rparr>)) s)"

definition handleConnection :: "handler_env \<Rightarrow> nat \<Rightarrow> Gateway \<Rightarrow> h_run" where
  "handleConnection env c g0 =
     (let g = (set_client c (TCPClient (bufio_NewReader (he_conn env))) g0)\<lparr>g_bytesOut := (g_bytesOut g0)(c := 0)\<rparr>;
          s = \<lparr>hs_gw = g, hs_stats = start_stats, hs_left = None\<rparr>;
          ip = extractIP (he_remoteAddr env)
      in h_defer (conn_end env c)
           (case IPLimiter_Allow (he_clock env) ip (gw_ipLimiter (g_conf g)) of
              (Panic m, l) \<Rightarrow> (HPanic m, on_gw (on_conf (\<lambda>k. k\<lparr>gw_ipLimiter := l\<rparr>)) s)
            | (Err err, l) \<Rightarrow> (HPanic [], on_gw (on_conf (\<lambda>k. k\<lparr>gw_ipLimiter := l\<rparr>)) s)
            | (Ok allowed, l) \<Rightarrow>
                let s1 = on_gw (on_conf (\<lambda>k. k\<lparr>gw_ipLimiter := l\<rparr>)) s
                in if \<not> allowed then (Returned, on_stats (set_status ''rejected'' ''IP rate limit exceeded'') s1)
                   else h_defer (\<lambda>e s'. (e, on_gw (on_conf (\<lambda>k. k\<lparr>gw_ipLimiter := IPLimiter_Release ip (gw_ipLimiter k)\<rparr>)) s'))
                     (case Limiter_Allow (gw_rateLimiter (g_conf (hs_gw s1))) of
                        (admitted, rl) \<Rightarrow>
                          let s2 = on_gw (on_conf (\<lambda>k. k\<lparr>gw_rateLimiter := rl\<rparr>)) s1
                          in if \<not> admitted then
                               (Returned, on_stats (set_status ''rejected'' ''connection rate limit exceeded'') s2)
                             else h_defer (\<lambda>e s'. (e, on_gw (on_conf (\<lambda>k. k\<lparr>gw_rateLimiter := Limiter_Release (gw_rateLimiter k)\<rparr>)) s'))
                               (handle_protocol env c s2))))"

section \<open>What the handler leaves alone\<close>

text \<open>
  An invariant of the closure is one of the retry loop, and when the loop succeeds, the
  closure just did.
\<close>

lemma Do_loop_invariant:
  assumes "\<And>t. I t \<Longrightarrow> I (snd (fn env t))" and "\<And>d t. I t \<Longrightarrow> I (snd (wait env d t))" and "I t"
    and "Do_loop env cfg i lastErr t = (err, t')"
  shows "I t' \<and> (err = None \<longrightarrow> (\<exists>t0. I t0 \<and> fn env t0 = (None, t')))"
  using assms
proof (induction env cfg i lastErr t rule: Do_loop.induct)
  case (1 env cfg i lastErr t)
  show ?case
  proof (cases "int i < MaxRetries cfg \<and> ctx_Err env t = None")
    case True
    obtain x t1 where f: "fn env t = (x, t1)" by fastforce
    then have t1: "I t1" using "1.prems"(1) [OF "1.prems"(3)] by simp
    show ?thesis
    proof (cases x)
      case None
      then show ?thesis using True f t1 "1.prems"(3,4) by (auto simp: Do_loop.simps [of env cfg i])
    next
      case (Some y)
      obtain z t2 where w: "wait env (backoff cfg i) t1 = (z, t2)" by fastforce
      then have t2: "I t2" using "1.prems"(2) [OF t1, of "backoff cfg i"] by simp
      have "int i < MaxRetries cfg" "ctx_Err env t = None" using True by auto
      note IH = "1.IH" [OF _ _ f [symmetric] Some, simplified not_not, OF this]
      show ?thesis
      proof (cases "int i < MaxRetries cfg - 1")
        case more: True
        show ?thesis
        proof (cases z)
          case None
          have "Do_loop env cfg (Suc i) (Some y) t2 = (err, t')"
            using "1.prems"(4) True f Some more w None by (simp add: Do_loop.simps [of env cfg i])
          then show ?thesis using IH(1) [OF more w [symmetric] None "1.prems"(1,2) t2] by simp
        next
          case z: (Some u)
          then show ?thesis using "1.prems"(4) True f Some more w t2 by (auto simp: Do_loop.simps [of env cfg i])
        qed
      next
        case last: False
        have "Do_loop env cfg (Suc i) (Some y) t1 = (err, t')"
          using "1.prems"(4) True f Some last by (simp add: Do_loop.simps [of env cfg i])
        then show ?thesis using IH(2) [OF last "1.prems"(1,2) t1] by simp
      qed
    qed
  next
    case False
    then show ?thesis using "1.prems"(3,4) by (auto simp: Do_loop.simps [of env cfg i] split: option.splits if_splits)
  qed
qed

lemmas Do_invariant = Do_loop_invariant [where i = 0 and lastErr = None, folded Do_def]

text \<open>The parts of the gateway no step of a handler touches but admission and the end.\<close>

definition fixed_part :: "Gateway \<Rightarrow> gateway_conf \<times> access_logger" where
  "fixed_part g = (g_conf g, g_access g)"

lemma fixed_updates [simp]:
  "fixed_part (set_client c cc g) = fixed_part g" "fixed_part (add_bytesOut k n g) = fixed_part g"
  "fixed_part (g\<lparr>g_sessions := a\<rparr>) = fixed_part g" "fixed_part (g\<lparr>g_sworld := b\<rparr>) = fixed_part g"
  "fixed_part (g\<lparr>g_nextSession := d\<rparr>) = fixed_part g" "fixed_part (g\<lparr>g_clients := e\<rparr>) = fixed_part g"
  "fixed_part (g\<lparr>g_bytesOut := f\<rparr>) = fixed_part g" "fixed_part (g\<lparr>g_pools := h\<rparr>) = fixed_part g"
  "fixed_part (g\<lparr>g_pworld := i\<rparr>) = fixed_part g" "fixed_part (g\<lparr>g_net := j\<rparr>) = fixed_part g"
  "fixed_part (g\<lparr>g_grpc := k'\<rparr>) = fixed_part g" "fixed_part (g\<lparr>g_sent := l\<rparr>) = fixed_part g"
  "fixed_part (g\<lparr>g_routing := m\<rparr>) = fixed_part g" "fixed_part (g\<lparr>g_breakers := o'\<rparr>) = fixed_part g"
  "fixed_part (g\<lparr>g_ids := p\<rparr>) = fixed_part g" "fixed_part (g\<lparr>g_buffers := q\<rparr>) = fixed_part g"
  by (simp_all add: fixed_part_def set_client_def add_bytesOut_def split: option.split)

lemma fixed_fold: "(\<And>x g. fixed_part (f x g) = fixed_part g) \<Longrightarrow> fixed_part (fold f xs g) = fixed_part g"
  by (induction xs arbitrary: g) simp_all

lemma fixed_grpc_Send: "fixed_part (snd (grpc_Send sn addr pk g)) = fixed_part g"
  by (auto simp: grpc_Send_def split: option.split prod.split)

lemma fixed_notify:
  "fixed_part (snd (notifyBackendClientConnect sn addr sid ip pr g)) = fixed_part g"
  "fixed_part (snd (notifyBackendClientDisconnect sn addr sid reason g)) = fixed_part g"
  using fixed_grpc_Send [of sn addr]
  by (auto simp: notifyBackendClientConnect_def notifyBackendClientDisconnect_def split: prod.split res.split) (metis snd_conv)+

lemma fixed_sendToSession [simp]: "fixed_part (sendToSession sid p g) = fixed_part g"
  by (auto simp: sendToSession_def Let_def split: option.split client_conn.split prod.split)

lemma fixed_handleGrpcPacket [simp]: "fixed_part (handleGrpcPacket p g) = fixed_part g"
  by (auto simp: handleGrpcPacket_def handleServerDisconnect_def Let_def fixed_fold split: option.split)

lemma fixed_cleanup [simp]: "fixed_part (session_cleanup_tick t g) = fixed_part g"
proof -
  have "fixed_part (close_ref r g) = fixed_part g" for r g by (simp add: close_ref_def)
  then show ?thesis by (simp add: session_cleanup_tick_def fixed_fold split: prod.split)
qed

lemma fixed_grpc_event: "fixed_part (gf_gw (grpc_event_step cf ev s)) = fixed_part (gf_gw s)"
proof (cases ev)
  case (ClientRound e sn)
  have "fixed_part g2 = fixed_part g1" if "grpc_Send sn addr pk g1 = (x, g2)" for addr pk g1 x g2
    using fixed_grpc_Send [of sn addr pk g1] that by simp
  then show ?thesis
    by (auto simp: ClientRound grpc_round_def grpc_leave_def Let_def split: prod.splits res.splits)
qed simp_all

lemma fixed_forwardGrpc: "fixed_part (gf_gw (forwardGrpcConnection cf evs n g)) = fixed_part g"
proof -
  have "fixed_part (gf_gw (fold (grpc_event_step cf) evs s)) = fixed_part (gf_gw s)" for s
    by (induction evs arbitrary: s) (simp_all add: fixed_grpc_event)
  from this [of "grpc_start n g"] show ?thesis by (simp add: forwardGrpcConnection_def grpc_start_def)
qed

section \<open>Sessions\<close>

definition gw_ok :: "Gateway \<Rightarrow> bool" where
  "gw_ok g \<longleftrightarrow> store_ok (g_sworld g) (g_sessions g) \<and> pool_ok (g_buffers g) \<and>
     (\<forall>sid r. Session_Get (g_sessions g) sid = Some r \<longrightarrow> r < g_nextSession g)"

text \<open>Every session of \<open>g'\<close> is one of \<open>g\<close>.\<close>

definition sessions_within :: "Gateway \<Rightarrow> Gateway \<Rightarrow> bool" where
  "sessions_within g g' \<longleftrightarrow> (\<forall>sid r. Session_Get (g_sessions g') sid = Some r \<longrightarrow> Session_Get (g_sessions g) sid = Some r)"

lemma sessions_within_trans: "sessions_within g g' \<Longrightarrow> sessions_within g' g'' \<Longrightarrow> sessions_within g g''"
  by (simp add: sessions_within_def)

lemma gw_ok_within:
  "gw_ok g \<Longrightarrow> sessions_within g g' \<Longrightarrow> g_nextSession g' = g_nextSession g \<Longrightarrow> store_ok (g_sworld g') (g_sessions g') \<Longrightarrow>
     pool_ok (g_buffers g') \<Longrightarrow> gw_ok g'"
  unfolding gw_ok_def sessions_within_def by metis

text \<open>Registering an object the store does not know yet.\<close>

lemma store_ok_fresh:
  assumes "store_ok w m" and "\<And>sid. Session_Get m sid \<noteq> Some r"
  shows "store_ok (w\<lparr>heap := (heap w)(r := x)\<rparr>) m"
proof -
  have "r' \<noteq> r" if "i < 16" "(sid, r') \<in> set (shards m ! i)" for i sid r'
    using store_entries [OF assms(1), of sid r'] assms(2) [of sid] that assms(1) nth_mem [of i "shards m"]
    by (auto simp: store_ok_def)
  then show ?thesis using assms(1) by (auto simp: store_ok_def shard_ok_def)
qed

lemma shrink_grpc_packet:
  assumes "store_ok (g_sworld g) (g_sessions g)"
  shows "sessions_within g (handleGrpcPacket p g) \<and> g_nextSession (handleGrpcPacket p g) = g_nextSession g"
proof -
  have send: "g_sessions (sendToSession sid p g) = g_sessions g \<and> g_nextSession (sendToSession sid p g) = g_nextSession g" for sid g
    by (auto simp: sendToSession_def set_client_def add_bytesOut_def Let_def split: option.split client_conn.split prod.split)
  have sends: "g_sessions (fold (\<lambda>sid. sendToSession sid p) sids g) = g_sessions g \<and>
      g_nextSession (fold (\<lambda>sid. sendToSession sid p) sids g) = g_nextSession g" for sids
    by (induction sids arbitrary: g) (simp_all add: send)
  have "sessions_within g (handleServerDisconnect sid g) \<and> g_nextSession (handleServerDisconnect sid g) = g_nextSession g" for sid
    using Get_Remove [OF assms]
    by (auto simp: handleServerDisconnect_def sessions_within_def set_client_def Let_def split: option.splits if_splits)
  then show ?thesis using send sends by (simp add: handleGrpcPacket_def sessions_within_def)
qed

lemma shrink_cleanup:
  assumes "store_ok (g_sworld g) (g_sessions g)"
  shows "sessions_within g (session_cleanup_tick t g) \<and> g_nextSession (session_cleanup_tick t g) = g_nextSession g"
proof -
  obtain m w k where cl: "CleanupIdle t (30 * minute) (g_sessions g) (g_sworld g) = (m, w, k)"
    by (cases "CleanupIdle t (30 * minute) (g_sessions g) (g_sworld g)")
  have close: "g_sessions (fold close_ref rs h) = g_sessions h \<and> g_nextSession (fold close_ref rs h) = g_nextSession h" for rs h
    by (induction rs arbitrary: h) (simp_all add: close_ref_def)
  have "Session_Get m sid = Some r \<Longrightarrow> Session_Get (g_sessions g) sid = Some r" for sid r
    using Get_Cleanup [OF assms cl, of sid] by (auto split: option.splits if_splits)
  then show ?thesis unfolding session_cleanup_tick_def cl by (simp add: close sessions_within_def)
qed

lemma shrink_grpc_round:
  assumes "pool_ok (g_buffers (gf_gw s))" and "store_ok (g_sworld (gf_gw s)) (g_sessions (gf_gw s))"
  shows "sessions_within (gf_gw s) (gf_gw (grpc_round cf e sn s)) \<and> g_nextSession (gf_gw (grpc_round cf e sn s)) = g_nextSession (gf_gw s)"
proof -
  have nx: "g_nextSession g2 = g_nextSession g1" if "grpc_Send sn addr pk g1 = (x, g2)" for addr pk g1 x g2
    using that by (auto elim!: grpc_Send_cases)
  have next_same: "g_nextSession (gf_gw (grpc_round cf e sn s)) = g_nextSession (gf_gw s)"
    using nx by (auto simp: grpc_round_def grpc_leave_def set_client_def Let_def split: prod.splits res.splits)
  show ?thesis
  proof (cases "gf_state s = Looping")
    case True
    then show ?thesis using assms(1)
    proof (cases rule: grpc_round_cases [of s cf e sn])
      case (leaves s' st)
      then have "store_ok (g_sworld (gf_gw s')) (g_sessions (gf_gw s'))" using assms(2) by simp
      from Get_Remove [OF this] leaves next_same show ?thesis
        by (auto simp: sessions_within_def grpc_leave_def split: if_splits)
    next
      case (sends h d)
      then show ?thesis using next_same by (simp add: sessions_within_def)
    qed
  qed (simp add: grpc_round_def sessions_within_def)
qed

lemma gw_ok_grpc_event:
  assumes "gw_ok (gf_gw s)"
  shows "gw_ok (gf_gw (grpc_event_step cf ev s)) \<and> sessions_within (gf_gw s) (gf_gw (grpc_event_step cf ev s))"
proof -
  have ok: "pool_ok (g_buffers (gf_gw s))" "store_ok (g_sworld (gf_gw s)) (g_sessions (gf_gw s))" using assms by (simp_all add: gw_ok_def)
  have "sessions_within (gf_gw s) (gf_gw (grpc_event_step cf ev s)) \<and>
      g_nextSession (gf_gw (grpc_event_step cf ev s)) = g_nextSession (gf_gw s)"
    using shrink_grpc_round [OF ok] shrink_grpc_packet [OF ok(2)] shrink_cleanup [OF ok(2)] by (cases ev) simp_all
  with grpc_step_world [OF ok, of cf ev] show ?thesis using gw_ok_within [OF assms] by blast
qed

lemma gw_ok_forwardGrpc:
  assumes "gw_ok g"
  shows "gw_ok (gf_gw (forwardGrpcConnection cf evs n g)) \<and> sessions_within g (gf_gw (forwardGrpcConnection cf evs n g))"
proof -
  have "gw_ok (gf_gw s) \<Longrightarrow> gw_ok (gf_gw (fold (grpc_event_step cf) evs s)) \<and>
      sessions_within (gf_gw s) (gf_gw (fold (grpc_event_step cf) evs s))" for s
  proof (induction evs arbitrary: s)
    case (Cons ev evs)
    from gw_ok_grpc_event [OF Cons.prems, of cf ev] Cons.IH [of "grpc_event_step cf ev s"] show ?case
      by (auto intro: sessions_within_trans)
  qed (simp add: sessions_within_def)
  from this [of "grpc_start n g"] assms show ?thesis by (simp add: forwardGrpcConnection_def grpc_start_def)
qed

section \<open>Every path gives back what it took\<close>

definition ended :: "h_end \<Rightarrow> bool" where
  "ended e \<longleftrightarrow> (case e of Blocked \<Rightarrow> False | ProcessDied m \<Rightarrow> False | _ \<Rightarrow> True)"

definition status_ok :: "connectionStats \<Rightarrow> bool" where
  "status_ok st \<longleftrightarrow> cs_status st \<in> {''closed'', ''rejected'', ''error'', ''success''}"

text \<open>A step that touches neither sessions, limiters nor the log.\<close>

definition quiet :: "hstate \<Rightarrow> hstate \<Rightarrow> bool" where
  "quiet s s' \<longleftrightarrow> fixed_part (hs_gw s') = fixed_part (hs_gw s) \<and> g_sessions (hs_gw s') = g_sessions (hs_gw s) \<and>
     g_sworld (hs_gw s') = g_sworld (hs_gw s) \<and> g_nextSession (hs_gw s') = g_nextSession (hs_gw s) \<and>
     (pool_ok (g_buffers (hs_gw s)) \<longrightarrow> pool_ok (g_buffers (hs_gw s'))) \<and> (status_ok (hs_stats s) \<longrightarrow> status_ok (hs_stats s'))"

text \<open>A run that, when it ends, has registered no session for good.\<close>

definition keeps :: "hstate \<Rightarrow> h_run \<Rightarrow> bool" where
  "keeps s r \<longleftrightarrow> fixed_part (hs_gw (snd r)) = fixed_part (hs_gw s) \<and> (status_ok (hs_stats s) \<longrightarrow> status_ok (hs_stats (snd r))) \<and>
     (gw_ok (hs_gw s) \<longrightarrow> gw_ok (hs_gw (snd r)) \<and> (ended (fst r) \<longrightarrow> sessions_within (hs_gw s) (hs_gw (snd r))))"

lemma quiet_gw_ok: "quiet s s' \<Longrightarrow> gw_ok (hs_gw s) \<Longrightarrow> gw_ok (hs_gw s')"
  by (simp add: quiet_def gw_ok_def)

lemma quiet_within:
  "quiet s s' \<Longrightarrow> sessions_within (hs_gw s') g = sessions_within (hs_gw s) g"
  "quiet s s' \<Longrightarrow> sessions_within g (hs_gw s') = sessions_within g (hs_gw s)"
  by (simp_all add: quiet_def sessions_within_def)

lemma within_refl [simp]: "sessions_within g g"
  by (simp add: sessions_within_def)

lemma keeps_quiet: "quiet s s' \<Longrightarrow> keeps s (e, s')"
  unfolding keeps_def using quiet_gw_ok [of s s'] quiet_within(2) [of s s' "hs_gw s"]
  by (auto simp: quiet_def)

lemma quiet_keeps:
  assumes "quiet s s'" and "keeps s' r"
  shows "keeps s r"
  using assms(2) quiet_gw_ok [OF assms(1)] quiet_within(1) [OF assms(1)] assms(1)
  unfolding keeps_def by (simp add: quiet_def)

lemma keeps_defer:
  assumes "keeps s r" and "\<And>e s'. ended e \<Longrightarrow> quiet s' (snd (f e s'))"
  shows "keeps s (h_defer f r)"
proof (cases "ended (fst r)")
  case True
  obtain e s' where r: "r = (e, s')" by (cases r)
  then have "h_defer f r = f e s'" using True by (cases e) (simp_all add: h_defer_def ended_def)
  moreover have q: "quiet s' (snd (f e s'))" using assms(2) True r by simp
  ultimately show ?thesis using assms(1) True r quiet_gw_ok [OF q] quiet_within(2) [OF q, of "hs_gw s"]
    unfolding keeps_def by (simp add: quiet_def)
next
  case False
  then have "h_defer f r = r" by (cases r; cases "fst r") (simp_all add: h_defer_def ended_def)
  with assms(1) show ?thesis by simp
qed

lemma status_ok_set [simp]:
  "status_ok (set_status ''error'' m st)" "status_ok (set_status ''rejected'' m st)" "status_ok (set_status ''closed'' m st)"
  "status_ok (set_route i st) = status_ok st" "status_ok (st\<lparr>cs_bytesIn := n\<rparr>) = status_ok st"
  "status_ok (st\<lparr>cs_serverType := a\<rparr>) = status_ok st" "status_ok (st\<lparr>cs_worldID := a\<rparr>) = status_ok st"
  "status_ok (st\<lparr>cs_backendAddr := b\<rparr>) = status_ok st" "status_ok (st\<lparr>cs_status := ''success''\<rparr>)"
  by (simp_all add: status_ok_def set_status_def set_route_def)

lemma status_ok_read_failure [simp]: "status_ok (read_failure err st)"
  by (simp add: read_failure_def)

lemmas quiet_defs = quiet_def on_gw_def on_stats_def

lemma keeps_forward_grpc: "keeps s (forward_grpc env c i s)"
  using gw_ok_forwardGrpc [of "hs_gw s"] fixed_forwardGrpc
  by (simp add: forward_grpc_def keeps_def Let_def split: loop_state.split)

lemma keeps_forward_tcp:
  assumes "SessionID (heap (g_sworld (hs_gw s)) r) = sid"
  shows "keeps s (forward_tcp env c i r n s)"
proof -
  define g where "g = hs_gw s"
  define cf where "cf = \<lparr>fc_maxMessageSize = MaxMessageSize (Security (g_config g)), fc_sessionID = ri_sessionID i\<rparr>"
  define f where "f = forwardConnection cf (he_fwd env)
    (fwd_start (g_clients g c) (g_net g n) (g_buffers g) (cs_bytesIn (hs_stats s)) (g_bytesOut g c) (he_created env))"
  have out: "hs_gw (snd (forward_tcp env c i r n s)) =
      (set_client c (bf_rd (fw_client f)) g)\<lparr>g_net := (g_net g)(n := fw_backend f), g_buffers := fw_buffers f,
        g_bytesOut := (g_bytesOut g)(c := fw_bytesOut f),
        g_sworld := (g_sworld g)\<lparr>heap := (heap (g_sworld g))(r := (heap (g_sworld g) r)\<lparr>LastActiveAt := fw_lastActive f\<rparr>)\<rparr>\<rparr>"
    "hs_stats (snd (forward_tcp env c i r n s)) = (hs_stats s)\<lparr>cs_bytesIn := fw_bytesIn f\<rparr>"
    by (simp_all add: forward_tcp_def f_def cf_def g_def Let_def split: loop_state.split)
  have "pool_ok (fw_buffers f)" if "pool_ok (g_buffers g)"
    using forward_close_inv [OF that] by (simp add: f_def close_inv_def)
  moreover have "store_ok ((g_sworld g)\<lparr>heap := (heap (g_sworld g))(r := (heap (g_sworld g) r)\<lparr>LastActiveAt := t\<rparr>)\<rparr>) m =
      store_ok (g_sworld g) m" for t m
    by (rule store_ok_heap) simp
  ultimately show ?thesis unfolding keeps_def out
    by (simp add: g_def gw_ok_def sessions_within_def set_client_def fixed_part_def)
qed

text \<open>Registering a session under a fresh reference, and removing it at the end.\<close>

lemma register_session:
  assumes "gw_ok g" and "r = g_nextSession g" and "w = (g_sworld g)\<lparr>heap := (heap (g_sworld g))(r := se)\<rparr>"
    and "g1 = g\<lparr>g_sworld := w, g_nextSession := r + 1, g_sessions := Session_Add w r (g_sessions g)\<rparr>"
  shows "gw_ok g1" and "Session_Get (g_sessions g1) k = (if k = SessionID se then Some r else Session_Get (g_sessions g) k)"
proof -
  have "store_ok w (g_sessions g)" unfolding assms(3)
    by (rule store_ok_fresh) (use assms(1,2) in \<open>auto simp: gw_ok_def\<close>)
  from Get_Add [OF this, of r] Add_ok [OF this, of r]
  show "gw_ok g1" "Session_Get (g_sessions g1) k = (if k = SessionID se then Some r else Session_Get (g_sessions g) k)"
    using assms by (auto simp: gw_ok_def less_Suc_eq)
qed

lemma unregister_session:
  assumes "gw_ok g'" and "sessions_within g1 g'"
    and "\<And>k. Session_Get (g_sessions g1) k = (if k = sid then Some r else Session_Get (g_sessions g) k)"
  shows "gw_ok (g'\<lparr>g_sessions := Session_Remove sid (g_sessions g')\<rparr>)"
    and "sessions_within g (g'\<lparr>g_sessions := Session_Remove sid (g_sessions g')\<rparr>)"
proof -
  have "store_ok (g_sworld g') (g_sessions g')" using assms(1) by (simp add: gw_ok_def)
  from Get_Remove [OF this] Remove_ok [OF this] assms
  show "gw_ok (g'\<lparr>g_sessions := Session_Remove sid (g_sessions g')\<rparr>)"
    "sessions_within g (g'\<lparr>g_sessions := Session_Remove sid (g_sessions g')\<rparr>)"
    by (auto simp: gw_ok_def sessions_within_def split: if_splits)
qed

lemma keeps_tcp_session: "keeps s (tcp_session env c i n s)"
proof -
  define g where "g = hs_gw s"
  define r where "r = g_nextSession g"
  define w where "w = (g_sworld g)\<lparr>heap := (heap (g_sworld g))(r := new_session env c i n)\<rparr>"
  define g1 where "g1 = g\<lparr>g_sworld := w, g_nextSession := r + 1, g_sessions := Session_Add w r (g_sessions g)\<rparr>"
  define s1 where "s1 = s\<lparr>hs_gw := g1, hs_stats := (set_route i (hs_stats s))\<lparr>cs_status := ''success''\<rparr>\<rparr>"
  define run where "run = (case n of
      Some k \<Rightarrow> if UseGrpc (Server (g_config g1)) then forward_grpc env c i s1 else forward_tcp env c i r k s1
    | None \<Rightarrow> if UseGrpc (Server (g_config g1)) then forward_grpc env c i s1 else (HPanic ''nil pointer dereference'', s1))"
  have def: "tcp_session env c i n s =
      h_defer (\<lambda>e s'. (e, on_gw (\<lambda>g. g\<lparr>g_sessions := Session_Remove (ri_sessionID i) (g_sessions g)\<rparr>) s')) run"
    unfolding tcp_session_def run_def s1_def g1_def w_def r_def g_def Let_def by (rule refl)
  have run: "keeps s1 run"
    using keeps_forward_grpc [of s1] keeps_forward_tcp [OF refl, of s1] keeps_quiet [of s1 s1]
    by (auto simp: run_def quiet_def split: option.split)
  have fx: "fixed_part g1 = fixed_part g" by (simp add: g1_def)
  have sid: "SessionID (new_session env c i n) = ri_sessionID i" by (simp add: new_session_def no_session_def)
  note reg = register_session [OF _ r_def w_def g1_def, unfolded sid]
  obtain e s' where es: "run = (e, s')" by (cases run)
  have fix': "fixed_part (hs_gw s') = fixed_part g" using run fx by (simp add: keeps_def es s1_def)
  have st: "status_ok (hs_stats s')" using run by (simp add: keeps_def es s1_def)
  show ?thesis
  proof (cases "ended e")
    case True
    then have out: "tcp_session env c i n s =
        (e, on_gw (\<lambda>g. g\<lparr>g_sessions := Session_Remove (ri_sessionID i) (g_sessions g)\<rparr>) s')"
      unfolding def es by (cases e) (simp_all add: h_defer_def ended_def)
    have "gw_ok (hs_gw (snd (tcp_session env c i n s))) \<and> sessions_within g (hs_gw (snd (tcp_session env c i n s)))" if "gw_ok g"
    proof -
      have "gw_ok (hs_gw s')" "sessions_within g1 (hs_gw s')" using run reg(1) [OF that] True by (simp_all add: keeps_def es s1_def)
      from unregister_session [OF this reg(2) [OF that]] show ?thesis unfolding out by (simp add: on_gw_def)
    qed
    then show ?thesis using fix' st unfolding keeps_def by (simp add: out on_gw_def g_def)
  next
    case False
    then have out: "tcp_session env c i n s = (e, s')"
      unfolding def es by (cases e) (simp_all add: h_defer_def ended_def)
    show ?thesis using run fix' st reg(1) False unfolding keeps_def out by (simp add: es s1_def g_def)
  qed
qed

text \<open>Parts of a gateway on which \<open>quiet\<close> depends, after a notification or a send.\<close>

lemma grpc_Send_quiet: "grpc_Send sn addr pk g = (x, g') \<Longrightarrow> quiet s (s\<lparr>hs_gw := g'\<rparr>) = quiet s (s\<lparr>hs_gw := g\<rparr>)"
  by (auto elim!: grpc_Send_cases simp: quiet_def)

lemma notify_quiet:
  "notifyBackendClientConnect sn addr sid ip pr g = (x, g') \<Longrightarrow> quiet s (s\<lparr>hs_gw := g'\<rparr>) = quiet s (s\<lparr>hs_gw := g\<rparr>)"
  "notifyBackendClientDisconnect sn addr sid reason g = (y, g') \<Longrightarrow> quiet s (s\<lparr>hs_gw := g'\<rparr>) = quiet s (s\<lparr>hs_gw := g\<rparr>)"
  by (auto simp: notifyBackendClientConnect_def notifyBackendClientDisconnect_def dest: grpc_Send_quiet
      split: if_splits prod.splits res.splits)

lemma quiet_refl [simp]: "quiet s s" "quiet s (s\<lparr>hs_gw := hs_gw s\<rparr>)"
  by (simp_all add: quiet_def)

lemma quiet_stats: "quiet s s' \<Longrightarrow> (\<And>st. status_ok st \<Longrightarrow> status_ok (f st)) \<Longrightarrow> quiet s (on_stats f s')"
  by (simp add: quiet_defs)

lemma quiet_tcp_bye: "quiet s (snd (tcp_bye env i b e s))"
proof -
  define reason where "reason = (if cs_status (hs_stats s) = ''error'' then cs_errorMsg (hs_stats s) else ''normal'')"
  obtain x g where n: "notifyBackendClientDisconnect (he_bye env) (ri_backendAddr i) (ri_sessionID i) reason (hs_gw s) = (x, g)"
    by fastforce
  have q: "quiet s (s\<lparr>hs_gw := g\<rparr>)" using notify_quiet(2) [OF n, of s] by simp
  then have "quiet s (s\<lparr>hs_gw := g\<lparr>g_pools := m, g_pworld := w\<rparr>\<rparr>)" for m w by (simp add: quiet_def)
  with q show ?thesis using n
    by (auto simp: tcp_bye_def reason_def [symmetric] Let_def split: res.split h_end.split option.split)
qed

text \<open>What a handler may do after a step that touched nothing of note.\<close>

lemma quiet_then:
  assumes "quiet s s'"
  shows "keeps s (e, s')" and "keeps s (e, on_stats (set_route i \<circ> set_status ''error'' msg) s')" and "keeps s (tcp_session env c i n s')"
proof -
  show "keeps s (e, s')" using assms by (rule keeps_quiet)
  show "keeps s (e, on_stats (set_route i \<circ> set_status ''error'' msg) s')" by (intro keeps_quiet quiet_stats assms) simp
  show "keeps s (tcp_session env c i n s')" by (rule quiet_keeps [OF assms keeps_tcp_session])
qed

lemma keeps_tcp_first: "keeps s (tcp_first env c i n s)"
proof -
  have send: "quiet s (s\<lparr>hs_gw := g'\<rparr>)" if "grpc_Send sn addr pk (hs_gw s) = (x, g')" for sn addr pk x g'
    using grpc_Send_quiet [OF that, of s] by simp
  have written: "quiet s (s\<lparr>hs_gw := (hs_gw s)\<lparr>g_net := net\<rparr>\<rparr>)" for net by (simp add: quiet_def)
  define tc where "tc = (if EnableTracePropagation (Tracing (g_config (hs_gw s))) then extractTraceContext (he_trace env) else None)"
  show ?thesis
  proof (cases "UseGrpc (Server (g_config (hs_gw s)))")
    case True
    define pk where "pk = \<lparr>gp_SessionId = ri_sessionID i, gp_MsgId = ucast (ri_MessageID i), gp_Payload = ri_data i,
      gp_Metadata = tc, gp_TargetSessionIds = []\<rparr>"
    obtain x g' where g: "grpc_Send (he_first env) (ri_backendAddr i) pk (hs_gw s) = (x, g')" by fastforce
    show ?thesis using True quiet_then [OF send [OF g]] by (cases x) (simp_all add: tcp_first_def Let_def tc_def [symmetric] pk_def [symmetric] g)
  next
    case False
    show ?thesis
    proof (cases n)
      case None
      then show ?thesis using False keeps_quiet [OF quiet_refl(1)] by (simp add: tcp_first_def Let_def)
    next
      case (Some k)
      obtain err b where w: "WriteServerMessage conn_Write (g_net (hs_gw s) k) (ucast (ri_MessageID i)) (ri_sessionID i) (ri_data i) [tc] = (err, b)"
        by fastforce
      show ?thesis using False Some quiet_then [OF written] by (cases err) (simp_all add: tcp_first_def Let_def tc_def [symmetric] w)
    qed
  qed
qed

lemma keeps_tcp_notify: "keeps s (tcp_notify env c i b s)"
proof -
  obtain x g where n: "notifyBackendClientConnect (he_notify env) (ri_backendAddr i) (ri_sessionID i)
      (extractIP (he_remoteAddr env)) ''tcp'' (hs_gw s) = (x, g)" by fastforce
  have q: "quiet s (s\<lparr>hs_gw := g\<rparr>)" using notify_quiet(1) [OF n, of s] by simp
  have "keeps s (h_defer (tcp_bye env i b) (tcp_first env c i k (s\<lparr>hs_gw := g\<rparr>)))" for k
    by (rule keeps_defer [OF quiet_keeps [OF q keeps_tcp_first] quiet_tcp_bye])
  moreover have "keeps s (e, on_stats (set_route i \<circ> set_status ''error'' msg) (s\<lparr>hs_gw := g\<rparr>))" for e msg
    by (intro keeps_quiet quiet_stats q) simp
  ultimately show ?thesis using keeps_quiet [OF q] by (auto simp: tcp_notify_def n split: res.split)
qed

lemma on_breaker_gw [simp]:
  "fixed_part (on_breaker a f g) = fixed_part g" "g_sessions (on_breaker a f g) = g_sessions g" "g_sworld (on_breaker a f g) = g_sworld g"
  "g_nextSession (on_breaker a f g) = g_nextSession g" "g_buffers (on_breaker a f g) = g_buffers g"
  by (simp_all add: on_breaker_def split: option.split)

lemma quiet_connect:
  assumes "Do (connect_env env addr) cfg \<lparr>ct_gw = hs_gw s, ct_conn = None, ct_count = 0, ct_panic = None\<rparr> = (err, t)"
  shows "quiet s (s\<lparr>hs_gw := ct_gw t\<rparr>)"
proof -
  let ?I = "\<lambda>t. quiet s (s\<lparr>hs_gw := ct_gw t\<rparr>)"
  have "?I (snd (fn (connect_env env addr) t))" if "?I t" for t
    using that by (auto simp: connect_env_def connect_fn_def quiet_def Let_def split: prod.split res.split)
  moreover have "?I (snd (wait (connect_env env addr) d t))" if "?I t" for d t using that by (simp add: connect_env_def)
  ultimately show ?thesis using Do_invariant [where I = ?I, OF _ _ _ assms] by simp
qed

lemma keeps_tcp_connect: "keeps s (tcp_connect env c i s)"
proof -
  obtain err t where d: "Do (connect_env env (ri_backendAddr i)) (retry_config (g_config (hs_gw s)))
      \<lparr>ct_gw = hs_gw s, ct_conn = None, ct_count = 0, ct_panic = None\<rparr> = (err, t)" by fastforce
  note q = quiet_connect [OF d]
  have "keeps s (e, on_stats (set_route i \<circ> set_status ''error'' msg) (s\<lparr>hs_gw := ct_gw t\<rparr>))" for e msg
    by (intro keeps_quiet quiet_stats q) simp
  then show ?thesis using keeps_quiet [OF q] quiet_keeps [OF q keeps_tcp_notify] keeps_tcp_notify
    by (auto simp: tcp_connect_def d split: option.split)
qed

lemma keeps_tcp_route: "keeps s (tcp_route env c h d s)"
proof -
  obtain rsv worldID serverType instID where ex: "ExtractServerIDInfo (cmh_ServerID h) = (rsv, worldID, serverType, instID)"
    by (cases "ExtractServerIDInfo (cmh_ServerID h)")
  show ?thesis
  proof (cases "generateSessionID (he_elapsed env) (g_ids (hs_gw s))")
    case None
    then show ?thesis using keeps_quiet [OF quiet_refl(1)] by (simp add: tcp_route_def ex)
  next
    case (Some si)
    obtain sid ids where si: "si = (sid, ids)" by (cases si)
    obtain x g where rt: "routeToBackend (int (unat serverType)) (int (unat worldID)) (int (unat instID)) ((hs_gw s)\<lparr>g_ids := ids\<rparr>) = (x, g)"
      by fastforce
    then have q: "quiet s (s\<lparr>hs_gw := g\<rparr>)" by (auto simp: routeToBackend_def quiet_def split: prod.splits)
    have fail: "keeps s (e, on_stats f (s\<lparr>hs_gw := g\<rparr>))" if "\<And>st. status_ok (f st)" for e f
      by (intro keeps_quiet quiet_stats q that)
    show ?thesis
    proof (cases x)
      case (Ok addr)
      obtain b bs where b: "getOrCreateBreaker addr (g_breakers g) = (b, bs)" by fastforce
      obtain ok b' where b': "Breaker_Allow (he_breaker env) b = (ok, b')" by fastforce
      have q': "quiet s (s\<lparr>hs_gw := g\<lparr>g_breakers := gomap_put addr b' bs\<rparr>\<rparr>)" using q by (simp add: quiet_def)
      have "keeps s (e, on_stats f (s\<lparr>hs_gw := g\<lparr>g_breakers := gomap_put addr b' bs\<rparr>\<rparr>))" if "\<And>st. status_ok (f st)" for e f
        by (intro keeps_quiet quiet_stats q' that)
      then show ?thesis using quiet_keeps [OF q' keeps_tcp_connect] Ok Some si rt b b' by (simp add: tcp_route_def ex Let_def)
    next
      case (Err err)
      then show ?thesis using fail Some si rt by (simp add: tcp_route_def ex Let_def)
    next
      case (Panic m)
      then show ?thesis using keeps_quiet [OF q] Some si rt by (simp add: tcp_route_def ex)
    qed
  qed
qed

lemma keeps_handleTCPConnection: "keeps s (handleTCPConnection env c s)"
proof -
  obtain res cc p where rp: "ReadFullPacket cc_Read (g_clients (hs_gw s) c) (MaxMessageSize (Security (g_config (hs_gw s))))
      (he_buffer env) (g_buffers (hs_gw s)) = (res, cc, p)"
    by (cases "ReadFullPacket cc_Read (g_clients (hs_gw s) c) (MaxMessageSize (Security (g_config (hs_gw s))))
      (he_buffer env) (g_buffers (hs_gw s))")
  define s1 where "s1 = s\<lparr>hs_gw := (set_client c cc (hs_gw s))\<lparr>g_buffers := p\<rparr>\<rparr>"
  have q: "quiet s s1"
    using cc_rd.ReadFullPacket_refines [of "g_buffers (hs_gw s)" "g_clients (hs_gw s) c"
        "MaxMessageSize (Security (g_config (hs_gw s)))" "he_buffer env", unfolded rp]
    by (auto simp: quiet_def s1_def set_client_def fixed_part_def)
  have def: "handleTCPConnection env c s = (case res of
      Panic m \<Rightarrow> (HPanic m, s1)
    | Err err \<Rightarrow> (Returned, on_stats (read_failure err) s1)
    | Ok (clientHeader, messageData) \<Rightarrow>
        h_defer (\<lambda>e s'. (e, on_gw (\<lambda>g. g\<lparr>g_buffers := put_pooled messageData (g_buffers g)\<rparr>) s'))
          (tcp_route env c clientHeader (payload messageData) s1))"
    unfolding handleTCPConnection_def Let_def rp s1_def by simp
  have "keeps s (h_defer (\<lambda>e s'. (e, on_gw (\<lambda>g. g\<lparr>g_buffers := put_pooled md (g_buffers g)\<rparr>) s')) (tcp_route env c h d s1))" for h d md
    by (rule keeps_defer [OF quiet_keeps [OF q keeps_tcp_route]]) (simp add: quiet_defs)
  moreover have "keeps s (Returned, on_stats (read_failure err) s1)" for err by (intro keeps_quiet quiet_stats q) simp
  ultimately show ?thesis using keeps_quiet [OF q] unfolding def by (simp split: res.split prod.split)
qed

lemma ws_handler_status:
  assumes "status_ok st"
  shows "status_ok (snd (handleWebSocketConnection rr n b req st))" "status_ok (snd (handleHTTPConnection rr n b st))"
proof -
  show ws: "status_ok (snd (handleWebSocketConnection rr n b req st))" for b req
    using assms unfolding handleWebSocketConnection_def by (simp split: prod.split res.split option.split add: Let_def)
  show "status_ok (snd (handleHTTPConnection rr n b st))"
    using assms ws unfolding handleHTTPConnection_def by (simp split: prod.split res.split)
qed

lemma keeps_handle_protocol: "keeps s (handle_protocol env c s)"
proof -
  define g where "g = set_client c (TCPClient (bufio_NewReader (he_conn env))) (hs_gw s)"
  define n where "n = MaxMessageSize (Security (g_config g))"
  define bridge where "bridge = (\<lambda>out. case out of
      (Ok (Refused b), st) \<Rightarrow> (Returned, s\<lparr>hs_gw := set_client c (TCPClient b) g, hs_stats := st\<rparr>)
    | (Ok (Bridged w), st) \<Rightarrow> handleTCPConnection env c (s\<lparr>hs_gw := set_client c (WSClient w) g, hs_stats := st\<rparr>)
    | (Err err, st) \<Rightarrow> (Returned, s\<lparr>hs_gw := g, hs_stats := st\<rparr>)
    | (Panic m, st) \<Rightarrow> (HPanic m, s\<lparr>hs_gw := g, hs_stats := st\<rparr>))"
  obtain x b where sn: "Sniff conn_Read (he_peek1 env) (he_peek2 env) (bufio_NewReader (he_conn env)) = (x, b)" by fastforce
  have def: "handle_protocol env c s = (case x of
      Panic m \<Rightarrow> (HPanic m, s\<lparr>hs_gw := set_client c (TCPClient b) g\<rparr>)
    | Err err \<Rightarrow> (Returned, on_stats (set_status ''error'' (''protocol sniff failed: '' @ error_text err)) (s\<lparr>hs_gw := set_client c (TCPClient b) g\<rparr>))
    | Ok (protoType, _) \<Rightarrow> (case protoType of
          ProtocolWebSocket \<Rightarrow> bridge (handleWebSocketConnection (he_ReadRequest env) n b None (hs_stats s))
        | ProtocolHTTP \<Rightarrow> bridge (handleHTTPConnection (he_ReadRequest env) n b (hs_stats s))
        | ProtocolTCP \<Rightarrow> handleTCPConnection env c (s\<lparr>hs_gw := set_client c (TCPClient b) g\<rparr>)))"
    unfolding handle_protocol_def Let_def sn bridge_def n_def g_def by simp
  have q: "quiet s (s\<lparr>hs_gw := set_client c cc g\<rparr>)" for cc
    by (simp add: quiet_def g_def set_client_def fixed_part_def)
  have q': "quiet s (s\<lparr>hs_gw := set_client c cc g, hs_stats := st\<rparr>)" "quiet s (s\<lparr>hs_gw := g, hs_stats := st\<rparr>)"
    if "status_ok (hs_stats s) \<Longrightarrow> status_ok st" for cc st
    using that by (simp_all add: quiet_def g_def set_client_def fixed_part_def)
  have br: "keeps s (bridge (o', st))" if "status_ok (hs_stats s) \<Longrightarrow> status_ok st" for o' st
    using q' [OF that] keeps_quiet quiet_keeps [OF q'(1) [OF that] keeps_handleTCPConnection]
    unfolding bridge_def by (simp split: res.split ws_outcome.split)
  have "keeps s (bridge (handleWebSocketConnection (he_ReadRequest env) n b None (hs_stats s)))"
      "keeps s (bridge (handleHTTPConnection (he_ReadRequest env) n b (hs_stats s)))"
    using br [of "snd (handleWebSocketConnection (he_ReadRequest env) n b None (hs_stats s))"
          "fst (handleWebSocketConnection (he_ReadRequest env) n b None (hs_stats s))"]
        br [of "snd (handleHTTPConnection (he_ReadRequest env) n b (hs_stats s))" "fst (handleHTTPConnection (he_ReadRequest env) n b (hs_stats s))"]
    by (simp_all add: ws_handler_status)
  moreover have "keeps s (Returned, on_stats (set_status ''error'' m) (s\<lparr>hs_gw := set_client c cc g\<rparr>))" for cc m
    by (intro keeps_quiet quiet_stats q) simp
  ultimately show ?thesis using keeps_quiet [OF q] quiet_keeps [OF q keeps_handleTCPConnection]
    unfolding def by (simp split: res.split prod.split ProtocolType.split)
qed

lemma h_defer_ended:
  assumes "h_defer f r = (e, s)" and "ended e" and "\<And>x s'. fst (f x s') = x"
  shows "\<exists>s'. r = (e, s') \<and> s = snd (f e s')"
proof -
  obtain x s' where r: "r = (x, s')" by (cases r)
  then have "ended x" using assms(1,2) assms(3) [of x s'] by (cases x) (auto simp: h_defer_def ended_def)
  then have "h_defer f r = f x s'" using r by (cases x) (simp_all add: h_defer_def ended_def)
  then show ?thesis using assms(1) assms(3) [of x s'] r by (cases "f x s'") auto
qed

lemma cc_socket_close [simp]: "cc_socket (close_socket cc) = snd (conn_Close (cc_socket cc))"
  by (cases cc) (simp_all add: ws_set_conn_def)

text \<open>The part of a run between the access log and the handler of the protocol.\<close>

definition admitted_run :: "handler_env \<Rightarrow> nat \<Rightarrow> hstate \<Rightarrow> h_run" where
  "admitted_run env c s1 =
     (case Limiter_Allow (gw_rateLimiter (g_conf (hs_gw s1))) of
        (admitted, rl) \<Rightarrow>
          let s2 = on_gw (on_conf (\<lambda>k. k\<lparr>gw_rateLimiter := rl\<rparr>)) s1
          in if \<not> admitted then (Returned, on_stats (set_status ''rejected'' ''connection rate limit exceeded'') s2)
             else h_defer (\<lambda>e s'. (e, on_gw (on_conf (\<lambda>k. k\<lparr>gw_rateLimiter := Limiter_Release (gw_rateLimiter k)\<rparr>)) s'))
               (handle_protocol env c s2))"

lemma gw_ok_conf [simp]: "gw_ok (on_conf f g) = gw_ok g" "sessions_within (on_conf f g) g' = sessions_within g g'"
    "sessions_within g (on_conf f g') = sessions_within g g'" "g_access (on_conf f g) = g_access g"
    "g_conf (on_conf f g) = f (g_conf g)"
  by (simp_all add: gw_ok_def sessions_within_def on_conf_def)

lemma conf_limiter_same [simp]: "k\<lparr>gw_rateLimiter := gw_rateLimiter k\<rparr> = k"
  by (cases k) simp

lemma admitted_balance:
  assumes "gw_ok (hs_gw s1)" and "status_ok (hs_stats s1)" and "admitted_run env c s1 = (e, s)" and "ended e"
  shows "g_conf (hs_gw s) = g_conf (hs_gw s1) \<and> g_access (hs_gw s) = g_access (hs_gw s1) \<and>
    sessions_within (hs_gw s1) (hs_gw s) \<and> gw_ok (hs_gw s) \<and> status_ok (hs_stats s)"
proof -
  obtain admitted rl where l: "Limiter_Allow (gw_rateLimiter (g_conf (hs_gw s1))) = (admitted, rl)" by fastforce
  define s2 where "s2 = on_gw (on_conf (\<lambda>k. k\<lparr>gw_rateLimiter := rl\<rparr>)) s1"
  have s2: "gw_ok (hs_gw s2)" "status_ok (hs_stats s2)" "g_conf (hs_gw s2) = (g_conf (hs_gw s1))\<lparr>gw_rateLimiter := rl\<rparr>"
      "g_access (hs_gw s2) = g_access (hs_gw s1)" and within: "sessions_within (hs_gw s2) g' = sessions_within (hs_gw s1) g'" for g'
    using assms(1,2) by (simp_all add: s2_def on_gw_def)
  show ?thesis
  proof (cases admitted)
    case False
    then have "rl = gw_rateLimiter (g_conf (hs_gw s1))" using l by (auto simp: Limiter_Allow_def split: if_splits)
    moreover have "s = on_stats (set_status ''rejected'' ''connection rate limit exceeded'') s2"
      using False assms(3) by (simp add: admitted_run_def l s2_def [symmetric] Let_def)
    ultimately show ?thesis using s2(1,3,4) within [of "hs_gw s2"] by (simp add: on_stats_def)
  next
    case True
    then have rl: "Limiter_Release rl = gw_rateLimiter (g_conf (hs_gw s1))"
      using l by (auto simp: Limiter_Allow_def Limiter_Release_def split: if_splits)
    have "h_defer (\<lambda>e s'. (e, on_gw (on_conf (\<lambda>k. k\<lparr>gw_rateLimiter := Limiter_Release (gw_rateLimiter k)\<rparr>)) s'))
        (handle_protocol env c s2) = (e, s)"
      using assms(3) True by (simp add: admitted_run_def l s2_def [symmetric] Let_def)
    from h_defer_ended [OF this assms(4)] obtain s' where s': "handle_protocol env c s2 = (e, s')"
      "s = on_gw (on_conf (\<lambda>k. k\<lparr>gw_rateLimiter := Limiter_Release (gw_rateLimiter k)\<rparr>)) s'" by auto
    from keeps_handle_protocol [of s2 env c] show ?thesis
      using s2 assms(4) rl within unfolding s'(2) by (simp add: keeps_def s'(1) fixed_part_def on_gw_def)
  qed
qed

text \<open>The same with the limiter per address around it.\<close>

definition limited_run :: "handler_env \<Rightarrow> nat \<Rightarrow> hstate \<Rightarrow> h_run" where
  "limited_run env c s =
     (let ip = extractIP (he_remoteAddr env)
      in case IPLimiter_Allow (he_clock env) ip (gw_ipLimiter (g_conf (hs_gw s))) of
           (Panic m, l) \<Rightarrow> (HPanic m, on_gw (on_conf (\<lambda>k. k\<lparr>gw_ipLimiter := l\<rparr>)) s)
         | (Err err, l) \<Rightarrow> (HPanic [], on_gw (on_conf (\<lambda>k. k\<lparr>gw_ipLimiter := l\<rparr>)) s)
         | (Ok allowed, l) \<Rightarrow>
             let s1 = on_gw (on_conf (\<lambda>k. k\<lparr>gw_ipLimiter := l\<rparr>)) s
             in if \<not> allowed then (Returned, on_stats (set_status ''rejected'' ''IP rate limit exceeded'') s1)
                else h_defer (\<lambda>e s'. (e, on_gw (on_conf (\<lambda>k. k\<lparr>gw_ipLimiter := IPLimiter_Release ip (gw_ipLimiter k)\<rparr>)) s'))
                  (admitted_run env c s1))"

text \<open>What a limiter per address and the state around it keep of their counts.\<close>

definition same_counts :: "gateway_conf \<Rightarrow> gateway_conf \<Rightarrow> bool" where
  "same_counts k k' \<longleftrightarrow> gw_config k' = gw_config k \<and> gw_rateLimiter k' = gw_rateLimiter k \<and>
     ip_inv (gw_ipLimiter k') \<and> rateLimit (gw_ipLimiter k') = rateLimit (gw_ipLimiter k) \<and>
     (\<forall>ip. conn_count (gw_ipLimiter k') ip = conn_count (gw_ipLimiter k) ip)"

lemma limited_balance:
  assumes "gw_ok (hs_gw s)" and "status_ok (hs_stats s)" and "ip_inv (gw_ipLimiter (g_conf (hs_gw s)))"
    and "0 \<le> rateLimit (gw_ipLimiter (g_conf (hs_gw s)))" and "limited_run env c s = (e, s')" and "ended e"
  shows "same_counts (g_conf (hs_gw s)) (g_conf (hs_gw s')) \<and> g_access (hs_gw s') = g_access (hs_gw s) \<and>
    sessions_within (hs_gw s) (hs_gw s') \<and> gw_ok (hs_gw s') \<and> status_ok (hs_stats s')"
proof -
  define a where "a = extractIP (he_remoteAddr env)"
  obtain x l where al: "IPLimiter_Allow (he_clock env) a (gw_ipLimiter (g_conf (hs_gw s))) = (x, l)" by fastforce
  note eff = Allow_effect [OF assms(3,4) al]
  obtain allowed where x: "x = Ok allowed" using eff(4) by simp
  define s1 where "s1 = on_gw (on_conf (\<lambda>k. k\<lparr>gw_ipLimiter := l\<rparr>)) s"
  have s1: "g_conf (hs_gw s1) = (g_conf (hs_gw s))\<lparr>gw_ipLimiter := l\<rparr>" "g_access (hs_gw s1) = g_access (hs_gw s)" "gw_ok (hs_gw s1)"
      "status_ok (hs_stats s1)" and within: "sessions_within (hs_gw s1) g' = sessions_within (hs_gw s) g'" for g'
    using assms(1,2) by (simp_all add: s1_def on_gw_def)
  show ?thesis
  proof (cases allowed)
    case False
    then have "s' = on_stats (set_status ''rejected'' ''IP rate limit exceeded'') s1"
      using assms(5) al x by (simp add: limited_run_def s1_def a_def Let_def)
    then show ?thesis using s1 within [of "hs_gw s1"] eff(1,3,5) x False by (simp add: on_stats_def same_counts_def)
  next
    case True
    have "h_defer (\<lambda>e s'. (e, on_gw (on_conf (\<lambda>k. k\<lparr>gw_ipLimiter := IPLimiter_Release a (gw_ipLimiter k)\<rparr>)) s')) (admitted_run env c s1) = (e, s')"
      using assms(5) al x True by (simp add: limited_run_def s1_def a_def Let_def)
    from h_defer_ended [OF this assms(6)] obtain s2 where
      s2: "admitted_run env c s1 = (e, s2)" "s' = on_gw (on_conf (\<lambda>k. k\<lparr>gw_ipLimiter := IPLimiter_Release a (gw_ipLimiter k)\<rparr>)) s2"
      by auto
    note bal = admitted_balance [OF s1(3,4) s2(1) assms(6)]
    have tk: "(case IPLimiter_Allow (he_clock env) a (gw_ipLimiter (g_conf (hs_gw s))) of (r, l') \<Rightarrow> (r = Ok True, l')) = (True, l)"
      using al x True by simp
    have "ip_inv l \<and> 0 \<le> rateLimit l" using eff(1,3) assms(4) by simp
    from ip_adm.bracket [OF _ tk this] have "conn_count (IPLimiter_Release a l) ip = conn_count (gw_ipLimiter (g_conf (hs_gw s))) ip" for ip
      using assms(3,4) by (cases "ip = a") simp_all
    then show ?thesis using bal s1 within eff(1,3) unfolding s2(2) by (simp add: on_gw_def same_counts_def Release_effect)
  qed
qed

lemma conn_end_effect:
  assumes "snd (conn_end env c e s) = s'" and "alg_enabled (g_access (hs_gw s)) = Some True" and "status_ok (hs_stats s)"
  shows "g_conf (hs_gw s') = g_conf (hs_gw s)" "gw_ok (hs_gw s') = gw_ok (hs_gw s)" "sessions_within g (hs_gw s') = sessions_within g (hs_gw s)"
    "cclosed (cc_socket (g_clients (hs_gw s') c))" "alg_enabled (g_access (hs_gw s')) = Some True"
    "\<exists>entry. alg_lines (g_access (hs_gw s')) = alg_lines (g_access (hs_gw s)) @ [access_fields entry] \<and>
       al_ClientAddr entry = he_remoteAddr env \<and> al_Status entry \<in> {''closed'', ''rejected'', ''error'', ''success''} \<and>
       al_Status entry = cs_status (hs_stats s') \<and> al_Error entry = cs_errorMsg (hs_stats s')"
proof -
  define raw where "raw = stats_entry env (g_bytesOut (hs_gw s) c) (hs_stats s)"
  define entry where "entry = (case he_span env of None \<Rightarrow> raw | Some (tid, sid) \<Rightarrow> raw\<lparr>al_TraceID := tid, al_SpanID := sid\<rparr>)"
  have gw: "hs_gw s' = set_client c (close_socket (g_clients (hs_gw s) c)) ((hs_gw s)\<lparr>g_access :=
      LogAccess (he_span env) raw (g_access (hs_gw s))\<rparr>)" "hs_stats s' = hs_stats s"
    using assms(1) by (auto simp: conn_end_def on_gw_def raw_def)
  then show "g_conf (hs_gw s') = g_conf (hs_gw s)" "gw_ok (hs_gw s') = gw_ok (hs_gw s)" "sessions_within g (hs_gw s') = sessions_within g (hs_gw s)"
      "cclosed (cc_socket (g_clients (hs_gw s') c))" "alg_enabled (g_access (hs_gw s')) = Some True"
    using assms(2) by (simp_all add: set_client_def gw_ok_def sessions_within_def conn_Close_simps LogAccess_def)
  have "alg_lines (g_access (hs_gw s')) = alg_lines (g_access (hs_gw s)) @ [access_fields entry]"
    using assms(2) by (simp add: gw(1) set_client_def LogAccess_def entry_def)
  moreover have "al_ClientAddr entry = he_remoteAddr env" "al_Status entry = cs_status (hs_stats s')" "al_Error entry = cs_errorMsg (hs_stats s')"
    by (simp_all add: entry_def raw_def stats_entry_def gw(2) split: option.split prod.split)
  ultimately show "\<exists>entry. alg_lines (g_access (hs_gw s')) = alg_lines (g_access (hs_gw s)) @ [access_fields entry] \<and>
       al_ClientAddr entry = he_remoteAddr env \<and> al_Status entry \<in> {''closed'', ''rejected'', ''error'', ''success''} \<and>
       al_Status entry = cs_status (hs_stats s') \<and> al_Error entry = cs_errorMsg (hs_stats s')"
    using assms(3) by (intro exI [of _ entry]) (simp only: gw(2) status_ok_def simp_thms)
qed

lemma connection_effect:
  assumes "gw_ok g" and "ip_inv (gw_ipLimiter (g_conf g))" and "0 \<le> rateLimit (gw_ipLimiter (g_conf g))"
    and "alg_enabled (g_access g) = Some True" and "handleConnection env c g = (e, s)" and "ended e"
  shows "same_counts (g_conf g) (g_conf (hs_gw s))" "gw_ok (hs_gw s)" "sessions_within g (hs_gw s)"
    "cclosed (cc_socket (g_clients (hs_gw s) c))" "alg_enabled (g_access (hs_gw s)) = Some True"
    "\<exists>entry. alg_lines (g_access (hs_gw s)) = alg_lines (g_access g) @ [access_fields entry] \<and>
       al_ClientAddr entry = he_remoteAddr env \<and> al_Status entry \<in> {''closed'', ''rejected'', ''error'', ''success''} \<and>
       al_Status entry = cs_status (hs_stats s) \<and> al_Error entry = cs_errorMsg (hs_stats s)"
proof -
  define g1 where "g1 = (set_client c (TCPClient (bufio_NewReader (he_conn env))) g)\<lparr>g_bytesOut := (g_bytesOut g)(c := 0)\<rparr>"
  define s0 where "s0 = \<lparr>hs_gw = g1, hs_stats = start_stats, hs_left = None\<rparr>"
  have s0: "g_conf (hs_gw s0) = g_conf g" "g_access (hs_gw s0) = g_access g" "gw_ok (hs_gw s0)" "status_ok (hs_stats s0)"
      and within: "sessions_within (hs_gw s0) g' = sessions_within g g'" for g'
    using assms(1) by (simp_all add: s0_def g1_def set_client_def gw_ok_def sessions_within_def start_stats_def status_ok_def)
  have "handleConnection env c g = h_defer (conn_end env c) (limited_run env c s0)"
    unfolding handleConnection_def Let_def limited_run_def admitted_run_def s0_def g1_def by simp
  from h_defer_ended [OF this [symmetric, unfolded assms(5)] assms(6)]
  obtain s' where s': "limited_run env c s0 = (e, s')" "snd (conn_end env c e s') = s" by (auto simp: conn_end_def)
  note bal = limited_balance [OF s0(3,4) _ _ s'(1) assms(6), unfolded s0, OF assms(2,3)]
  then have en: "alg_enabled (g_access (hs_gw s')) = Some True" "status_ok (hs_stats s')" using assms(4) by simp_all
  note fin = conn_end_effect [OF s'(2) en]
  show "same_counts (g_conf g) (g_conf (hs_gw s))" "gw_ok (hs_gw s)" "sessions_within g (hs_gw s)"
    using bal fin(1-3) within by simp_all
  show "cclosed (cc_socket (g_clients (hs_gw s) c))" "alg_enabled (g_access (hs_gw s)) = Some True" by (fact fin(4), fact fin(5))
  show "\<exists>entry. alg_lines (g_access (hs_gw s)) = alg_lines (g_access g) @ [access_fields entry] \<and>
       al_ClientAddr entry = he_remoteAddr env \<and> al_Status entry \<in> {''closed'', ''rejected'', ''error'', ''success''} \<and>
       al_Status entry = cs_status (hs_stats s) \<and> al_Error entry = cs_errorMsg (hs_stats s)"
    using fin(6) bal by (simp only: simp_thms)
qed

text \<open>
  C2. Whatever happens to a connection, a handler that ends has given back what it took:
  the slot of the global limiter, the count of the address, the session; the socket is closed;
  and exactly one access log line was written, with the address of the client and the status
  the connection ended with.  This covers rejections, failures of sniffing, handshake, routing,
  breaker, backend connection, notification and first message, sessions of both transports, and
  panics.
\<close>

theorem connection_balance:
  assumes "gw_ok g" and "ip_inv (gw_ipLimiter (g_conf g))" and "0 \<le> rateLimit (gw_ipLimiter (g_conf g))"
    and "alg_enabled (g_access g) = Some True" and "handleConnection env c g = (e, s)" and "ended e"
  shows "current (gw_rateLimiter (g_conf (hs_gw s))) = current (gw_rateLimiter (g_conf g)) \<and>
    conn_count (gw_ipLimiter (g_conf (hs_gw s))) ip = conn_count (gw_ipLimiter (g_conf g)) ip \<and>
    g_config (hs_gw s) = g_config g \<and> sessions_within g (hs_gw s) \<and> cclosed (cc_socket (g_clients (hs_gw s) c)) \<and>
    (\<exists>entry. alg_lines (g_access (hs_gw s)) = alg_lines (g_access g) @ [access_fields entry] \<and>
       al_ClientAddr entry = he_remoteAddr env \<and> al_Status entry \<in> {''closed'', ''rejected'', ''error'', ''success''} \<and>
       al_Status entry = cs_status (hs_stats s) \<and> al_Error entry = cs_errorMsg (hs_stats s))"
  using connection_effect [OF assms] by (simp add: same_counts_def)

section \<open>A sample run\<close>

text \<open>The gateway just started, with the access log on.\<close>

definition started_gateway :: Gateway where
  "started_gateway = (case New sample_start sample_config ''pod'' of
     Ok g \<Rightarrow> g\<lparr>g_access := InitAccessLogger True (g_access g)\<rparr> | _ \<Rightarrow> undefined)"

lemma sample_config_limits:
  "0 < cp_MaxConnections (ConnectionPool sample_config)" "0 < MaxConnectionsPerIP (Security sample_config)"
  "0 < ConnectionRateLimit (Security sample_config)"
  by code_simp+

lemma started_gateway_fields:
  "g_conf started_gateway = \<lparr>gw_config = sample_config, gw_rateLimiter = NewLimiter (cp_MaxConnections (ConnectionPool sample_config)),
     gw_ipLimiter = NewIPLimiter (MaxConnectionsPerIP (Security sample_config)) (ConnectionRateLimit (Security sample_config)) 0\<rparr>"
  "g_access started_gateway = \<lparr>alg_enabled = Some True, alg_once = True, alg_lines = []\<rparr>" "g_sessions started_gateway = NewManager"
  "g_buffers started_gateway = []" "g_bytesOut started_gateway = (\<lambda>_. 0)"
  by (simp_all add: started_gateway_def New_def sample_start_def Let_def sample_config_fields InitAccessLogger_def)

lemma started_gateway_ok: "gw_ok started_gateway"
  by (simp add: gw_ok_def started_gateway_fields NewManager_ok Get_empty)

text \<open>A client that closes its connection at once.\<close>

definition silent_conn :: conn where
  "silent_conn = \<lparr>cin = [], cend = EOF, cout = [], croom = None, cclosed = False\<rparr>"

definition sample_send :: send_env where
  "sample_send = \<lparr>sn_connect = (\<lambda>_. Connected 1 2), sn_error = None, sn_ms = 0\<rparr>"

definition sample_dial :: dial_env where
  "sample_dial = \<lparr>de_t1 = 0, de_t2 = 0, de_t3 = 0, de_dial = Ok 0, de_sock = silent_conn, de_failed = 0, de_ctx = None, de_wait = None\<rparr>"

definition sample_env :: "conn \<Rightarrow> handler_env" where
  "sample_env cn = \<lparr>he_remoteAddr = ''10.0.0.1:4711'', he_conn = cn, he_clock = \<lparr>ck_t0 = 1, ck_t1 = 1, ck_now = 1\<rparr>, he_peek1 = 1, he_peek2 = 1,
     he_ReadRequest = (\<lambda>b. (Err EOF, b)), he_buffer = 0, he_elapsed = [5], he_breaker = 0, he_dials = (\<lambda>_. sample_dial),
     he_notify = sample_send, he_first = sample_send, he_trace = \<lparr>sc_trace = None, sc_span = None\<rparr>, he_created = 0,
     he_fwd = [], he_grpc = [], he_bye = sample_send, he_put = 0, he_duration = 7, he_span = None\<rparr>"

lemma silent_run: "fst (handleConnection (sample_env silent_conn) 3 started_gateway) = Returned"
proof -
  let ?l = "NewIPLimiter (MaxConnectionsPerIP (Security sample_config)) (ConnectionRateLimit (Security sample_config)) 0"
  obtain x l where al: "IPLimiter_Allow \<lparr>ck_t0 = 1, ck_t1 = 1, ck_now = 1\<rparr> (extractIP ''10.0.0.1:4711'') ?l = (x, l)" by fastforce
  have x: "x = Ok True"
    using Allow_effect(4) [OF NewIPLimiter_inv _ al] sample_config_limits by (simp add: NewIPLimiter_def conn_count_def rate_times_def)
  have lim: "Limiter_Allow (NewLimiter (cp_MaxConnections (ConnectionPool sample_config))) =
      (True, \<lparr>maxConns = cp_MaxConnections (ConnectionPool sample_config), current = 1\<rparr>)"
    using sample_config_limits(1) by (simp add: Limiter_Allow_def NewLimiter_def)
  have "Sniff conn_Read 1 1 (bufio_NewReader silent_conn) = (Err EOF, bufio_NewReader silent_conn)"
    by (simp add: Sniff_def Peek.simps conn_Read_def bufio_NewReader_def silent_conn_def)
  then have hp: "fst (handle_protocol (sample_env silent_conn) 3 s) = Returned" for s
    by (simp add: handle_protocol_def sample_env_def Let_def)
  have dfr: "fst (h_defer f r) = fst r" if "\<And>e s. fst (f e s) = e" for f r
    using that by (auto simp: h_defer_def split: prod.split h_end.split)
  have env: "he_clock (sample_env silent_conn) = \<lparr>ck_t0 = 1, ck_t1 = 1, ck_now = 1\<rparr>" "he_remoteAddr (sample_env silent_conn) = ''10.0.0.1:4711''"
    by (simp_all add: sample_env_def)
  show ?thesis
    unfolding handleConnection_def Let_def
    by (simp add: dfr conn_end_def env started_gateway_fields set_client_def al x lim hp on_gw_def)
qed

theorem connection_balance_witness:
  "\<exists>s. handleConnection (sample_env silent_conn) 3 started_gateway = (Returned, s) \<and>
     current (gw_rateLimiter (g_conf (hs_gw s))) = 0 \<and> length (alg_lines (g_access (hs_gw s))) = 1 \<and>
     cclosed (cc_socket (g_clients (hs_gw s) 3))"
proof -
  obtain s where s: "handleConnection (sample_env silent_conn) 3 started_gateway = (Returned, s)"
    using silent_run by (metis prod.collapse)
  have lim: "ip_inv (gw_ipLimiter (g_conf started_gateway))" "0 \<le> rateLimit (gw_ipLimiter (g_conf started_gateway))"
    using sample_config_limits(3) NewIPLimiter_inv by (simp_all add: started_gateway_fields NewIPLimiter_def [of _ _ 0] ip_inv_def)
  have "alg_enabled (g_access started_gateway) = Some True" "ended Returned" by (simp_all add: started_gateway_fields ended_def)
  from connection_balance [OF started_gateway_ok lim this(1) s this(2), of "''10.0.0.1''"] s show ?thesis
    by (auto simp: started_gateway_fields NewLimiter_def)
qed

section \<open>The first packet\<close>



section \<open>A session over TCP, step by step\<close>

text \<open>The gateway once the first attempt has got a connection, and the socket it stands for.\<close>

definition connected_gw :: "handler_env \<Rightarrow> string \<Rightarrow> PoolManager \<Rightarrow> pool_world \<Rightarrow> Gateway \<Rightarrow> Gateway" where
  "connected_gw env addr m w g =
     on_breaker addr RecordSuccess (g\<lparr>g_pools := m, g_pworld := w,
       g_net := (case de_dial (he_dials env 0) of
                   Ok sock \<Rightarrow> if next_ref w \<noteq> next_ref (g_pworld g) then (g_net g)(sock := de_sock (he_dials env 0)) else g_net g
                 | _ \<Rightarrow> g_net g)\<rparr>)"

abbreviation first_Get :: "handler_env \<Rightarrow> string \<Rightarrow> Gateway \<Rightarrow> ref res \<times> PoolManager \<times> pool_world" where
  "first_Get env addr g \<equiv> GetConnection (de_t1 (he_dials env 0)) (de_t2 (he_dials env 0)) (de_t3 (he_dials env 0))
     (de_dial (he_dials env 0)) addr (g_pools g) (g_pworld g)"

lemma on_breaker_more [simp]:
  "g_conf (on_breaker a f g) = g_conf g" "g_net (on_breaker a f g) = g_net g" "g_pworld (on_breaker a f g) = g_pworld g"
  "g_pools (on_breaker a f g) = g_pools g" "g_clients (on_breaker a f g) = g_clients g" "g_bytesOut (on_breaker a f g) = g_bytesOut g"
  by (simp_all add: on_breaker_def split: option.split)

lemma tcp_connect_first:
  assumes "\<not> UseGrpc (Server (g_config (hs_gw s)))" and "0 < cp_MaxRetries (ConnectionPool (g_config (hs_gw s)))"
    and "de_ctx (he_dials env 0) = None" and "first_Get env (ri_backendAddr i) (hs_gw s) = (Ok b, m, w)"
  shows "tcp_connect env c i s = tcp_notify env c i (Some b) (s\<lparr>hs_gw := connected_gw env (ri_backendAddr i) m w (hs_gw s)\<rparr>)"
proof -
  have "fn (connect_env env (ri_backendAddr i)) \<lparr>ct_gw = hs_gw s, ct_conn = None, ct_count = 0, ct_panic = None\<rparr> =
      (None, \<lparr>ct_gw = connected_gw env (ri_backendAddr i) m w (hs_gw s), ct_conn = Some b, ct_count = 1, ct_panic = None\<rparr>)"
    using assms(4) by (simp add: connect_env_def connect_fn_def connected_gw_def Let_def)
  then have "Do (connect_env env (ri_backendAddr i)) (retry_config (g_config (hs_gw s)))
      \<lparr>ct_gw = hs_gw s, ct_conn = None, ct_count = 0, ct_panic = None\<rparr> =
      (None, \<lparr>ct_gw = connected_gw env (ri_backendAddr i) m w (hs_gw s), ct_conn = Some b, ct_count = 1, ct_panic = None\<rparr>)"
    using assms(2,3) by (simp add: Do_def Do_loop.simps [of _ _ 0] retry_config_def connect_env_def)
  then show ?thesis using assms(1) by (simp add: tcp_connect_def)
qed

lemma tcp_notify_tcp:
  "\<not> UseGrpc (Server (g_config (hs_gw s))) \<Longrightarrow> tcp_notify env c i (Some b) s =
     h_defer (tcp_bye env i (Some b)) (tcp_first env c i (Some (conn (obj (g_pworld (hs_gw s)) b))) s)"
  by (simp add: tcp_notify_def notifyBackendClientConnect_def)

definition trace_of :: "handler_env \<Rightarrow> Config \<Rightarrow> trace_map option" where
  "trace_of env cfg = (if EnableTracePropagation (Tracing cfg) then extractTraceContext (he_trace env) else None)"

text \<open>What the backend is sent for the first packet.\<close>

definition first_bytes :: "handler_env \<Rightarrow> Config \<Rightarrow> route_info \<Rightarrow> bytes" where
  "first_bytes env cfg i = server_message_bytes (ucast (ri_MessageID i)) (gate_header (ri_sessionID i) [trace_of env cfg]) (ri_data i)"

lemma tcp_first_tcp:
  assumes "\<not> UseGrpc (Server (g_config (hs_gw s)))" and "writable (g_net (hs_gw s) k)"
  shows "tcp_first env c i (Some k) s = tcp_session env c i (Some k) (s\<lparr>hs_gw := (hs_gw s)\<lparr>g_net :=
    (g_net (hs_gw s))(k := (g_net (hs_gw s) k)\<lparr>cout := cout (g_net (hs_gw s) k) @ first_bytes env (g_config (hs_gw s)) i\<rparr>)\<rparr>\<rparr>)"
  using assms write_server_message_open [of "g_net (hs_gw s) k"]
  by (simp add: tcp_first_def writable_def first_bytes_def trace_of_def Let_def)

lemma tcp_first_closed:
  assumes "\<not> UseGrpc (Server (g_config (hs_gw s)))" and "cclosed (g_net (hs_gw s) k)"
  shows "\<exists>s'. tcp_first env c i (Some k) s = (Returned, s') \<and> cs_status (hs_stats s') = ''error'' \<and>
    cs_errorMsg (hs_stats s') = ''write message failed: use of closed network connection'' \<and>
    g_conf (hs_gw s') = g_conf (hs_gw s) \<and> g_pools (hs_gw s') = g_pools (hs_gw s) \<and> g_pworld (hs_gw s') = g_pworld (hs_gw s)"
proof -
  have "fst (WriteServerMessage conn_Write (g_net (hs_gw s) k) t sid d tcs) = Some ErrClosed" for t sid d tcs
    using assms(2) by (simp add: WriteServerMessage_pieces server_message_pieces_def conn_Write_def)
  then obtain b where "WriteServerMessage conn_Write (g_net (hs_gw s) k) (ucast (ri_MessageID i)) (ri_sessionID i) (ri_data i)
      [trace_of env (g_config (hs_gw s))] = (Some ErrClosed, b)" by (metis prod.collapse)
  then show ?thesis using assms(1)
    by (simp add: tcp_first_def trace_of_def on_stats_def set_route_def set_status_def Let_def)
qed

text \<open>What forwarding leaves behind.\<close>

lemma forward_tcp_effect:
  assumes "pool_ok (g_buffers (hs_gw s))" and "forward_tcp env c i r n s = (e, s')"
  shows "\<exists>ps part. list_all whole_packet ps \<and> prefix (concat (map client_bytes ps)) (cc_content (g_clients (hs_gw s) c)) \<and>
      cout (g_net (hs_gw s') n) = cout (g_net (hs_gw s) n) @ concat (map (backend_bytes (ri_sessionID i)) ps) @ part \<and>
      (part \<noteq> [] \<longrightarrow> (\<exists>p. whole_packet p \<and> prefix (concat (map client_bytes (ps @ [p]))) (cc_content (g_clients (hs_gw s) c)) \<and>
         prefix part (backend_bytes (ri_sessionID i) p)))"
    and "hs_left s' = None \<Longrightarrow> cclosed (g_net (hs_gw s') n)"
    and "g_pools (hs_gw s') = g_pools (hs_gw s)" "g_pworld (hs_gw s') = g_pworld (hs_gw s)" "g_conf (hs_gw s') = g_conf (hs_gw s)"
proof -
  define g where "g = hs_gw s"
  define cf where "cf = \<lparr>fc_maxMessageSize = MaxMessageSize (Security (g_config g)), fc_sessionID = ri_sessionID i\<rparr>"
  define f0 where "f0 = fwd_start (g_clients g c) (g_net g n) (g_buffers g) (cs_bytesIn (hs_stats s)) (g_bytesOut g c) (he_created env)"
  define f where "f = forwardConnection cf (he_fwd env) f0"
  have out: "g_net (hs_gw s') = (g_net g)(n := fw_backend f)" "hs_left s' = (if fw_up f = Looping then Some (n, cf, f) else None)"
      "g_pools (hs_gw s') = g_pools g" "g_pworld (hs_gw s') = g_pworld g" "g_conf (hs_gw s') = g_conf g"
    using assms(2) by (auto simp: forward_tcp_def f_def f0_def cf_def g_def set_client_def Let_def split: loop_state.splits)
  have start: "up_inv cf (cc_content (g_clients g c)) (cout (g_net g n)) (cs_bytesIn (hs_stats s)) f0"
    using assms(1) by (auto simp: f0_def fwd_start_def up_inv_def up_progress_def packets_size_def client_content_def bufio_NewReader_def
        cc_Close_prefix g_def Let_def intro!: exI [of _ "[]"])
  have "up_inv cf (cc_content (g_clients g c)) (cout (g_net g n)) (cs_bytesIn (hs_stats s)) f"
    using forward_invariant [where I = "up_inv cf (cc_content (g_clients g c)) (cout (g_net g n)) (cs_bytesIn (hs_stats s))",
        OF up_inv_step start] by (simp add: f_def)
  then show "\<exists>ps part. list_all whole_packet ps \<and> prefix (concat (map client_bytes ps)) (cc_content (g_clients (hs_gw s) c)) \<and>
      cout (g_net (hs_gw s') n) = cout (g_net (hs_gw s) n) @ concat (map (backend_bytes (ri_sessionID i)) ps) @ part \<and>
      (part \<noteq> [] \<longrightarrow> (\<exists>p. whole_packet p \<and> prefix (concat (map client_bytes (ps @ [p]))) (cc_content (g_clients (hs_gw s) c)) \<and>
         prefix part (backend_bytes (ri_sessionID i) p)))"
    unfolding up_inv_def up_progress_def out(1) g_def [symmetric] by (simp add: cf_def) blast
  show "cclosed (g_net (hs_gw s') n)" if "hs_left s' = None"
    using forward_close_inv [OF assms(1)] that out(1,2) unfolding f_def f0_def g_def
    by (auto simp: close_inv_def split: if_splits)
  show "g_pools (hs_gw s') = g_pools (hs_gw s)" "g_pworld (hs_gw s') = g_pworld (hs_gw s)" "g_conf (hs_gw s') = g_conf (hs_gw s)"
    using out g_def by simp_all
qed

text \<open>
  From a connection to the pool and back: a session over TCP on a socket that takes what is
  written.  The state after forwarding is \<open>s2\<close>; what follows only removes the session and gives
  the connection back.
\<close>

lemma tcp_connect_session:
  assumes "\<not> UseGrpc (Server (g_config (hs_gw s)))" and "0 < cp_MaxRetries (ConnectionPool (g_config (hs_gw s)))"
    and "de_ctx (he_dials env 0) = None" and "first_Get env (ri_backendAddr i) (hs_gw s) = (Ok b, m, w)"
    and "k = conn (obj w b)" and "g1 = connected_gw env (ri_backendAddr i) m w (hs_gw s)" and "writable (g_net g1 k)"
  obtains s1 r e s2 where "forward_tcp env c i r k s1 = (e, s2)" "g_buffers (hs_gw s1) = g_buffers (hs_gw s)"
    "g_clients (hs_gw s1) c = g_clients (hs_gw s) c" "g_pools (hs_gw s1) = m" "g_pworld (hs_gw s1) = w" "g_conf (hs_gw s1) = g_conf (hs_gw s)"
    "cout (g_net (hs_gw s1) k) = cout (g_net g1 k) @ first_bytes env (g_config (hs_gw s)) i" "writable (g_net (hs_gw s1) k)"
    "tcp_connect env c i s = h_defer (tcp_bye env i (Some b))
       (h_defer (\<lambda>e s'. (e, on_gw (\<lambda>g. g\<lparr>g_sessions := Session_Remove (ri_sessionID i) (g_sessions g)\<rparr>) s')) (e, s2))"
proof -
  define g2 where "g2 = g1\<lparr>g_net := (g_net g1)(k := (g_net g1 k)\<lparr>cout := cout (g_net g1 k) @ first_bytes env (g_config (hs_gw s)) i\<rparr>)\<rparr>"
  define r where "r = g_nextSession g2"
  define w2 where "w2 = (g_sworld g2)\<lparr>heap := (heap (g_sworld g2))(r := new_session env c i (Some k))\<rparr>"
  define s1 where "s1 = s\<lparr>hs_gw := g2\<lparr>g_sworld := w2, g_nextSession := r + 1, g_sessions := Session_Add w2 r (g_sessions g2)\<rparr>,
    hs_stats := (set_route i (hs_stats s))\<lparr>cs_status := ''success''\<rparr>\<rparr>"
  have g1: "g_conf g1 = g_conf (hs_gw s)" "g_pworld g1 = w" "g_pools g1 = m" "g_buffers g1 = g_buffers (hs_gw s)" "g_clients g1 = g_clients (hs_gw s)"
    by (simp_all add: assms(6) connected_gw_def)
  obtain e s2 where f: "forward_tcp env c i r k s1 = (e, s2)" by fastforce
  have "tcp_connect env c i s = h_defer (tcp_bye env i (Some b)) (tcp_first env c i (Some k) (s\<lparr>hs_gw := g1\<rparr>))"
    using tcp_connect_first [OF assms(1-4)] tcp_notify_tcp [of "s\<lparr>hs_gw := g1\<rparr>"] assms(1,5,6) g1 by simp
  also have "tcp_first env c i (Some k) (s\<lparr>hs_gw := g1\<rparr>) = tcp_session env c i (Some k) (s\<lparr>hs_gw := g2\<rparr>)"
    using tcp_first_tcp [of "s\<lparr>hs_gw := g1\<rparr>" k env c i] assms(1,7) g1 by (simp add: g2_def)
  also have "tcp_session env c i (Some k) (s\<lparr>hs_gw := g2\<rparr>) =
      h_defer (\<lambda>e s'. (e, on_gw (\<lambda>g. g\<lparr>g_sessions := Session_Remove (ri_sessionID i) (g_sessions g)\<rparr>) s')) (e, s2)"
    using assms(1) g1(1) f by (simp add: tcp_session_def Let_def s1_def w2_def r_def g2_def)
  finally show thesis using f assms(7) by (intro that [of r s1 e s2]) (simp_all add: s1_def g2_def g1 writable_def)
qed

end
