(* ===== verification/SessionFlow.thy ===== *)
theory SessionFlow
  imports Handler
begin

text \<open>
  Properties of whole sessions over TCP, put together from the theorems of the components: the
  packets of a client from the first one on reach the backend it is routed to, and what becomes
  of the backend connection afterwards.
\<close>

section \<open>From the first packet to the last\<close>

lemma on_gw_net [simp]:
  "g_net (hs_gw (on_gw (\<lambda>g. g\<lparr>g_sessions := f g\<rparr>) s)) = g_net (hs_gw s)"
  "g_net (hs_gw (on_gw (\<lambda>g. g\<lparr>g_buffers := h g\<rparr>) s)) = g_net (hs_gw s)"
  by (simp_all add: on_gw_def)

lemma h_defer_preserves:
  assumes "\<And>e s. P (snd (f e s)) = P s"
  shows "P (snd (h_defer f r)) = P (snd r)"
  using assms by (cases r; cases "fst r") (auto simp: h_defer_def)

lemma tcp_bye_net:
  "\<not> UseGrpc (Server (g_config (hs_gw s))) \<Longrightarrow> g_net (hs_gw (snd (tcp_bye env i b e s))) = g_net (hs_gw s)"
  by (auto simp: tcp_bye_def notifyBackendClientDisconnect_def Let_def split: h_end.split option.split res.split prod.split)

text \<open>The gateway after the breaker of the backend was asked.\<close>

definition routed_gw :: "handler_env \<Rightarrow> string \<Rightarrow> Gateway \<Rightarrow> Gateway" where
  "routed_gw env addr g =
     (case getOrCreateBreaker addr (g_breakers g) of
        (b, bs) \<Rightarrow> g\<lparr>g_breakers := gomap_put addr (snd (Breaker_Allow (he_breaker env) b)) bs\<rparr>)"

definition breaker_allows :: "handler_env \<Rightarrow> string \<Rightarrow> Gateway \<Rightarrow> bool" where
  "breaker_allows env addr g \<longleftrightarrow> fst (Breaker_Allow (he_breaker env) (fst (getOrCreateBreaker addr (g_breakers g))))"

definition route_of :: "64 word \<Rightarrow> string \<Rightarrow> ClientMessageHeader \<Rightarrow> bytes \<Rightarrow> route_info" where
  "route_of sid addr h d =
     (case ExtractServerIDInfo (cmh_ServerID h) of
        (_, worldID, serverType, instID) \<Rightarrow>
          \<lparr>ri_sessionID = sid, ri_backendAddr = addr, ri_serverType = serverType, ri_worldID = worldID, ri_instID = instID,
           ri_MessageID = cmh_MessageID h, ri_data = d\<rparr>)"

text \<open>The routing decision for a header.\<close>

definition route_header :: "ClientMessageHeader \<Rightarrow> Gateway \<Rightarrow> string res \<times> Gateway" where
  "route_header h g =
     (case ExtractServerIDInfo (cmh_ServerID h) of
        (_, worldID, serverType, instID) \<Rightarrow> routeToBackend (int (unat serverType)) (int (unat worldID)) (int (unat instID)) g)"

lemma tcp_route_ok:
  assumes "generateSessionID (he_elapsed env) (g_ids (hs_gw s)) = Some (sid, ids)"
    and "route_header h ((hs_gw s)\<lparr>g_ids := ids\<rparr>) = (Ok addr, g)" and "breaker_allows env addr g"
  shows "tcp_route env c h d s = tcp_connect env c (route_of sid addr h d) (s\<lparr>hs_gw := routed_gw env addr g\<rparr>)"
  using assms
  by (auto simp: tcp_route_def route_header_def route_of_def routed_gw_def breaker_allows_def Let_def split: prod.splits)

lemma handleTCP_ok:
  assumes "pool_ok (g_buffers (hs_gw s))"
    and "parse_packet (MaxMessageSize (Security (g_config (hs_gw s)))) (cc_content (g_clients (hs_gw s) c)) (cc_ending (g_clients (hs_gw s) c)) = Ok (h, d)"
  obtains cc p md where "handleTCPConnection env c s =
      h_defer (\<lambda>e s'. (e, on_gw (\<lambda>g. g\<lparr>g_buffers := put_pooled md (g_buffers g)\<rparr>) s'))
        (tcp_route env c h d (s\<lparr>hs_gw := (set_client c cc (hs_gw s))\<lparr>g_buffers := p\<rparr>\<rparr>))"
    "pool_ok p" "cc_content (g_clients (hs_gw s) c) = client_bytes (h, d, None) @ cc_content cc"
proof -
  let ?m = "MaxMessageSize (Security (g_config (hs_gw s)))"
  from cc_rd.ReadFullPacket_refines [OF assms(1), of "g_clients (hs_gw s) c" ?m "he_buffer env"] assms(2)
  obtain md cc p where rp: "ReadFullPacket cc_Read (g_clients (hs_gw s) c) ?m (he_buffer env) (g_buffers (hs_gw s)) = (Ok (h, md), cc, p)"
    "payload md = d" "pool_ok p" "cc_content (g_clients (hs_gw s) c) = client_header_bytes h @ d @ cc_content cc"
    by auto
  show thesis by (rule that [of md p cc]) (use rp in \<open>simp_all add: handleTCPConnection_def Let_def\<close>)
qed

text \<open>The handler up to the backend connection.\<close>

lemma handleTCP_routed:
  assumes "pool_ok (g_buffers (hs_gw s))"
    and "parse_packet (MaxMessageSize (Security (g_config (hs_gw s)))) (cc_content (g_clients (hs_gw s) c)) (cc_ending (g_clients (hs_gw s) c)) = Ok (h, d)"
    and "generateSessionID (he_elapsed env) (g_ids (hs_gw s)) = Some (sid, ids)"
    and "route_header h ((hs_gw s)\<lparr>g_ids := ids\<rparr>) = (Ok addr, g)" and "breaker_allows env addr g"
  obtains s1 where "g_net (hs_gw (snd (handleTCPConnection env c s))) = g_net (hs_gw (snd (tcp_connect env c (route_of sid addr h d) s1)))"
    "cc_content (g_clients (hs_gw s) c) = client_bytes (h, d, None) @ cc_content (g_clients (hs_gw s1) c)" "pool_ok (g_buffers (hs_gw s1))"
    "g_conf (hs_gw s1) = g_conf (hs_gw s)" "g_pools (hs_gw s1) = g_pools (hs_gw s)" "g_pworld (hs_gw s1) = g_pworld (hs_gw s)"
    "g_net (hs_gw s1) = g_net (hs_gw s)"
proof -
  obtain cc p md where tcp: "handleTCPConnection env c s =
      h_defer (\<lambda>e s'. (e, on_gw (\<lambda>g. g\<lparr>g_buffers := put_pooled md (g_buffers g)\<rparr>) s'))
        (tcp_route env c h d (s\<lparr>hs_gw := (set_client c cc (hs_gw s))\<lparr>g_buffers := p\<rparr>\<rparr>))"
    and p: "pool_ok p" and cc: "cc_content (g_clients (hs_gw s) c) = client_bytes (h, d, None) @ cc_content cc"
    by (rule handleTCP_ok [OF assms(1,2), of env])
  define g0 where "g0 = (set_client c cc (hs_gw s))\<lparr>g_buffers := p\<rparr>"
  obtain g' where rt: "route_header h (g0\<lparr>g_ids := ids\<rparr>) = (Ok addr, g')" and
    g': "g_breakers g' = g_breakers g" "g_conf g' = g_conf (hs_gw s)" "g_pools g' = g_pools (hs_gw s)" "g_pworld g' = g_pworld (hs_gw s)"
      "g_net g' = g_net (hs_gw s)" "g_buffers g' = p" "g_clients g' c = cc"
    using assms(4) by (auto simp: route_header_def routeToBackend_def g0_def set_client_def split: prod.splits)
  define s1 where "s1 = s\<lparr>hs_gw := routed_gw env addr g'\<rparr>"
  have "tcp_route env c h d (s\<lparr>hs_gw := g0\<rparr>) = tcp_connect env c (route_of sid addr h d) s1"
    using tcp_route_ok [of env "s\<lparr>hs_gw := g0\<rparr>" sid ids h addr g' c d] rt assms(3,5) g'(1)
    by (simp add: s1_def breaker_allows_def g0_def set_client_def)
  with tcp have "g_net (hs_gw (snd (handleTCPConnection env c s))) = g_net (hs_gw (snd (tcp_connect env c (route_of sid addr h d) s1)))"
    using h_defer_preserves [of "\<lambda>s. g_net (hs_gw s)"] by (simp add: g0_def)
  then show thesis by (rule that) (use g' p cc in \<open>simp_all add: s1_def routed_gw_def split: prod.split\<close>)
qed

text \<open>A backend connection carries the first packet and then those that follow.\<close>

lemma tcp_connect_delivers:
  assumes "pool_ok (g_buffers (hs_gw s))" and "\<not> UseGrpc (Server (g_config (hs_gw s)))"
    and "0 < cp_MaxRetries (ConnectionPool (g_config (hs_gw s)))" and "de_ctx (he_dials env 0) = None"
    and "first_Get env (ri_backendAddr i) (hs_gw s) = (Ok b, m, w)" and "k = conn (obj w b)"
    and "g1 = connected_gw env (ri_backendAddr i) m w (hs_gw s)" and "writable (g_net g1 k)"
  shows "\<exists>ps part. list_all whole_packet ps \<and> prefix (concat (map client_bytes ps)) (cc_content (g_clients (hs_gw s) c)) \<and>
    cout (g_net (hs_gw (snd (tcp_connect env c i s))) k) = cout (g_net g1 k) @ first_bytes env (g_config (hs_gw s)) i @
      concat (map (backend_bytes (ri_sessionID i)) ps) @ part \<and>
    (part \<noteq> [] \<longrightarrow> (\<exists>p. whole_packet p \<and> prefix (concat (map client_bytes (ps @ [p]))) (cc_content (g_clients (hs_gw s) c)) \<and>
       prefix part (backend_bytes (ri_sessionID i) p)))"
proof -
  obtain s2 r e s3 where fw: "forward_tcp env c i r k s2 = (e, s3)" and
    s2: "g_buffers (hs_gw s2) = g_buffers (hs_gw s)" "g_clients (hs_gw s2) c = g_clients (hs_gw s) c" "g_conf (hs_gw s2) = g_conf (hs_gw s)"
      "cout (g_net (hs_gw s2) k) = cout (g_net g1 k) @ first_bytes env (g_config (hs_gw s)) i" and
    out: "tcp_connect env c i s = h_defer (tcp_bye env i (Some b))
       (h_defer (\<lambda>e s'. (e, on_gw (\<lambda>g. g\<lparr>g_sessions := Session_Remove (ri_sessionID i) (g_sessions g)\<rparr>) s')) (e, s3))"
    by (rule tcp_connect_session [OF assms(2-8), of c])
  have pool: "pool_ok (g_buffers (hs_gw s2))" using assms(1) s2(1) by simp
  note eff = forward_tcp_effect [OF pool fw]
  have "\<not> UseGrpc (Server (g_config (hs_gw s3)))" using assms(2) s2(3) eff(5) by simp
  then have "g_net (hs_gw (snd (tcp_connect env c i s))) = g_net (hs_gw s3)"
    unfolding out by (cases e) (simp_all add: h_defer_def tcp_bye_net on_gw_def)
  with eff(1) show ?thesis unfolding s2(2,4) append_assoc by simp
qed

text \<open>
  C1. A session over TCP from end to end.  When the first packet names a server the routing
  table knows, the breaker of the backend allows it and the pool has a connection, the backend
  that was chosen receives, after what the connection carried before, the first packet and then
  the packets that follow it in the client's stream, each exactly once and in order, all under
  the session ID drawn for the connection; only the last message can be cut short.  This holds at
  any time of the session and after it.
\<close>

theorem session_end_to_end:
  assumes "pool_ok (g_buffers (hs_gw s))" and "\<not> UseGrpc (Server (g_config (hs_gw s)))"
    and "0 < cp_MaxRetries (ConnectionPool (g_config (hs_gw s)))"
    and "parse_packet (MaxMessageSize (Security (g_config (hs_gw s)))) (cc_content (g_clients (hs_gw s) c)) (cc_ending (g_clients (hs_gw s) c)) = Ok (h, d)"
    and "generateSessionID (he_elapsed env) (g_ids (hs_gw s)) = Some (sid, ids)"
    and "route_header h ((hs_gw s)\<lparr>g_ids := ids\<rparr>) = (Ok addr, g)" and "breaker_allows env addr g"
    and "de_ctx (he_dials env 0) = None" and "first_Get env addr (hs_gw s) = (Ok b, m, w)"
    and "writable (g_net (connected_gw env addr m w (hs_gw s)) (conn (obj w b)))"
  shows "\<exists>ps part. list_all whole_packet ps \<and>
    prefix (client_bytes (h, d, None) @ concat (map client_bytes ps)) (cc_content (g_clients (hs_gw s) c)) \<and>
    cout (g_net (hs_gw (snd (handleTCPConnection env c s))) (conn (obj w b))) =
      cout (g_net (connected_gw env addr m w (hs_gw s)) (conn (obj w b))) @
      backend_bytes sid (h, d, trace_of env (g_config (hs_gw s))) @ concat (map (backend_bytes sid) ps) @ part \<and>
    (part \<noteq> [] \<longrightarrow> (\<exists>p. whole_packet p \<and> prefix part (backend_bytes sid p) \<and>
       prefix (client_bytes (h, d, None) @ concat (map client_bytes (ps @ [p]))) (cc_content (g_clients (hs_gw s) c))))"
proof -
  let ?k = "conn (obj w b)" and ?i = "route_of sid addr h d"
  obtain s1 where net: "g_net (hs_gw (snd (handleTCPConnection env c s))) = g_net (hs_gw (snd (tcp_connect env c ?i s1)))"
    and cc: "cc_content (g_clients (hs_gw s) c) = client_bytes (h, d, None) @ cc_content (g_clients (hs_gw s1) c)" and p: "pool_ok (g_buffers (hs_gw s1))"
    and s1: "g_conf (hs_gw s1) = g_conf (hs_gw s)" "g_pools (hs_gw s1) = g_pools (hs_gw s)" "g_pworld (hs_gw s1) = g_pworld (hs_gw s)"
      "g_net (hs_gw s1) = g_net (hs_gw s)"
    by (rule handleTCP_routed [OF assms(1,4-7)])
  have i: "ri_backendAddr ?i = addr" "ri_sessionID ?i = sid"
      "first_bytes env (g_config (hs_gw s)) ?i = backend_bytes sid (h, d, trace_of env (g_config (hs_gw s)))"
    by (simp_all add: route_of_def first_bytes_def split: prod.split)
  have same: "g_net (connected_gw env addr m w (hs_gw s1)) = g_net (connected_gw env addr m w (hs_gw s))"
    using s1 by (simp add: connected_gw_def split: res.split)
  have "first_Get env (ri_backendAddr ?i) (hs_gw s1) = (Ok b, m, w)" using assms(9) s1 i(1) by simp
  from tcp_connect_delivers [OF p _ _ assms(8) this refl refl, of c] assms(2,3,10)
  obtain ps part where ps: "list_all whole_packet ps" "prefix (concat (map client_bytes ps)) (cc_content (g_clients (hs_gw s1) c))"
      "cout (g_net (hs_gw (snd (tcp_connect env c ?i s1))) ?k) = cout (g_net (connected_gw env addr m w (hs_gw s)) ?k) @
        backend_bytes sid (h, d, trace_of env (g_config (hs_gw s))) @ concat (map (backend_bytes sid) ps) @ part"
      "part \<noteq> [] \<longrightarrow> (\<exists>p. whole_packet p \<and> prefix (concat (map client_bytes (ps @ [p]))) (cc_content (g_clients (hs_gw s1) c)) \<and>
         prefix part (backend_bytes sid p))"
    unfolding i s1(1) same by blast
  show ?thesis unfolding net cc by (rule exI [of _ ps], rule exI [of _ part]) (use ps prefix_append_mono in blast)
qed

section \<open>Backend connections are given back dead\<close>

text \<open>The first connection to a backend, its return to the pool, and the next request for one.\<close>

lemma pool_cycle:
  assumes "gomap_get (pools m) addr = None" and "0 < cp_MaxConnectionsPerService (pm_config m)"
  obtains m1 w1 where "GetConnection t1 t2 t3 (Ok sock) addr m w = (Ok (next_ref w), m1, w1)" "conn (obj w1 (next_ref w)) = sock"
    "next_ref w1 = next_ref w + 1"
    "\<And>t. \<exists>m2 w2. PutConnection t addr (next_ref w) m1 w1 = Ok (m2, w2) \<and>
      (\<forall>u1 u2 u3 dial. u1 - t \<le> cp_IdleTimeout (pm_config m) \<longrightarrow>
         (\<exists>m3 w3. GetConnection u1 u2 u3 dial addr m2 w2 = (Ok (next_ref w), m3, w3) \<and> conn (obj w3 (next_ref w)) = sock \<and>
            next_ref w3 = next_ref w2 \<and> (\<forall>v. \<exists>m4 w4. PutConnection v addr (next_ref w) m3 w3 = Ok (m4, w4))))"
proof -
  define p where "p = \<lparr>address = addr, dialTimeout = cp_DialTimeout (pm_config m), idleTimeout = cp_IdleTimeout (pm_config m),
    maxConnections = cp_MaxConnections (pm_config m), maxPerService = cp_MaxConnectionsPerService (pm_config m),
    idleConns = [], activeConns = [], activeCount = 0\<rparr>"
  have pool: "GetPool addr m = (Ok p, m\<lparr>pools := gomap_put addr p (pools m)\<rparr>)"
    using assms by (simp add: GetPool_def NewPool_def p_def)
  define p1 where "p1 = p\<lparr>activeConns := gomap_put (next_ref w) True [], activeCount := 1\<rparr>"
  define m1 where "m1 = m\<lparr>pools := gomap_put addr p1 (gomap_put addr p (pools m))\<rparr>"
  define w1 where "w1 = w\<lparr>obj := (obj w)(next_ref w := \<lparr>conn = sock, createdAt = t2, lastUsedAt = t3, inUse = True\<rparr>), next_ref := next_ref w + 1\<rparr>"
  have get: "GetConnection t1 t2 t3 (Ok sock) addr m w = (Ok (next_ref w), m1, w1)"
    using assms(2) by (simp add: GetConnection_def pool Pool_Get_def get_receive_def get_dial_def p_def p1_def m1_def w1_def Let_def)
  have put: "PutConnection t addr (next_ref w) m1 w1 =
      Ok (m1\<lparr>pools := gomap_put addr (p1\<lparr>activeConns := gomap_del (next_ref w) (activeConns p1), activeCount := 0, idleConns := [next_ref w]\<rparr>) (pools m1)\<rparr>,
          MarkIdle t (next_ref w) w1)" for t
    using assms(2) by (simp add: PutConnection_def GetPool_def m1_def Pool_Put_def try_send_def p1_def p_def Let_def)
  show thesis
  proof (rule that [OF get])
    show "conn (obj w1 (next_ref w)) = sock" "next_ref w1 = next_ref w + 1" by (simp_all add: w1_def)
    show "\<exists>m2 w2. PutConnection t addr (next_ref w) m1 w1 = Ok (m2, w2) \<and>
      (\<forall>u1 u2 u3 dial. u1 - t \<le> cp_IdleTimeout (pm_config m) \<longrightarrow>
         (\<exists>m3 w3. GetConnection u1 u2 u3 dial addr m2 w2 = (Ok (next_ref w), m3, w3) \<and> conn (obj w3 (next_ref w)) = sock \<and>
            next_ref w3 = next_ref w2 \<and> (\<forall>v. \<exists>m4 w4. PutConnection v addr (next_ref w) m3 w3 = Ok (m4, w4))))" for t
      unfolding put
      by (auto simp: GetConnection_def GetPool_def Pool_Get_def get_receive_def get_take_def IsExpired_def MarkIdle_def MarkInUse_def
          PutConnection_def p1_def p_def w1_def Let_def split: prod.split)
  qed
qed

lemma tcp_bye_put:
  assumes "\<not> UseGrpc (Server (g_config (hs_gw s)))"
    and "PutConnection (he_put env) (ri_backendAddr i) b (g_pools (hs_gw s)) (g_pworld (hs_gw s)) = Ok (m, w)"
  shows "tcp_bye env i (Some b) Returned s = (Returned, s\<lparr>hs_gw := (hs_gw s)\<lparr>g_pools := m, g_pworld := w\<rparr>\<rparr>)"
  using assms by (simp add: tcp_bye_def notifyBackendClientDisconnect_def Let_def)

lemma tcp_bye_panic: "fst (tcp_bye env i b (HPanic x) s) \<noteq> Returned"
  by (auto simp: tcp_bye_def Let_def split: prod.split res.split)

text \<open>The first session with a backend, up to the return of its connection to the pool.\<close>

lemma new_backend_session:
  assumes "pool_ok (g_buffers (hs_gw s))" and "\<not> UseGrpc (Server (g_config (hs_gw s)))"
    and "0 < cp_MaxRetries (ConnectionPool (g_config (hs_gw s)))"
    and "gomap_get (pools (g_pools (hs_gw s))) (ri_backendAddr i) = None"
    and "0 < cp_MaxConnectionsPerService (pm_config (g_pools (hs_gw s)))"
    and "de_ctx (he_dials env 0) = None" and "de_dial (he_dials env 0) = Ok sock" and "writable (de_sock (he_dials env 0))"
  obtains sa r e sb m w where "forward_tcp env c i r sock sa = (e, sb)" "g_clients (hs_gw sa) c = g_clients (hs_gw s) c"
    "g_buffers (hs_gw sa) = g_buffers (hs_gw s)" "writable (g_net (hs_gw sa) sock)" "g_conf (hs_gw sb) = g_conf (hs_gw s)"
    "hs_left sb = None \<longrightarrow> cclosed (g_net (hs_gw sb) sock)"
    "e = Returned \<longrightarrow> tcp_connect env c i s = (Returned, sb\<lparr>hs_gw := (hs_gw sb)\<lparr>g_sessions := Session_Remove (ri_sessionID i) (g_sessions (hs_gw sb)),
       g_pools := m, g_pworld := w\<rparr>\<rparr>)"
    "fst (tcp_connect env c i s) = Returned \<longrightarrow> e = Returned"
    "\<forall>u1 u2 u3 dial. u1 - he_put env \<le> cp_IdleTimeout (pm_config (g_pools (hs_gw s))) \<longrightarrow> (
       \<exists>m' w'. GetConnection u1 u2 u3 dial (ri_backendAddr i) m w = (Ok (next_ref (g_pworld (hs_gw s))), m', w') \<and>
         conn (obj w' (next_ref (g_pworld (hs_gw s)))) = sock \<and> next_ref w' = next_ref w \<and>
         (\<forall>v. \<exists>m4 w4. PutConnection v (ri_backendAddr i) (next_ref (g_pworld (hs_gw s))) m' w' = Ok (m4, w4)))"
proof -
  let ?addr = "ri_backendAddr i" and ?b = "next_ref (g_pworld (hs_gw s))"
  obtain m1 w1 where get: "first_Get env ?addr (hs_gw s) = (Ok ?b, m1, w1)" and sock: "conn (obj w1 ?b) = sock" "next_ref w1 = ?b + 1"
    and cycle: "\<And>t. \<exists>m2 w2. PutConnection t ?addr ?b m1 w1 = Ok (m2, w2) \<and>
      (\<forall>u1 u2 u3 dial. u1 - t \<le> cp_IdleTimeout (pm_config (g_pools (hs_gw s))) \<longrightarrow>
         (\<exists>m3 w3. GetConnection u1 u2 u3 dial ?addr m2 w2 = (Ok ?b, m3, w3) \<and> conn (obj w3 ?b) = sock \<and>
            next_ref w3 = next_ref w2 \<and> (\<forall>v. \<exists>m4 w4. PutConnection v ?addr ?b m3 w3 = Ok (m4, w4))))"
    unfolding assms(7) by (rule pool_cycle [OF assms(4,5)]) blast
  define g1 where "g1 = connected_gw env ?addr m1 w1 (hs_gw s)"
  have wr: "writable (g_net g1 sock)" using assms(7,8) sock(2) by (simp add: g1_def connected_gw_def)
  obtain sa r e sb where fw: "forward_tcp env c i r sock sa = (e, sb)" and
    sa: "g_buffers (hs_gw sa) = g_buffers (hs_gw s)" "g_pools (hs_gw sa) = m1" "g_pworld (hs_gw sa) = w1" "g_conf (hs_gw sa) = g_conf (hs_gw s)"
      "g_clients (hs_gw sa) c = g_clients (hs_gw s) c" "writable (g_net (hs_gw sa) sock)" and
    out: "tcp_connect env c i s = h_defer (tcp_bye env i (Some ?b))
       (h_defer (\<lambda>e s'. (e, on_gw (\<lambda>g. g\<lparr>g_sessions := Session_Remove (ri_sessionID i) (g_sessions g)\<rparr>) s')) (e, sb))"
    by (rule tcp_connect_session [OF assms(2,3,6) get sock(1) [symmetric] g1_def wr, of c])
  have pool: "pool_ok (g_buffers (hs_gw sa))" using assms(1) sa(1) by simp
  note eff = forward_tcp_effect [OF pool fw]
  obtain m w where put: "PutConnection (he_put env) ?addr ?b m1 w1 = Ok (m, w)" and
    again: "\<forall>u1 u2 u3 dial. u1 - he_put env \<le> cp_IdleTimeout (pm_config (g_pools (hs_gw s))) \<longrightarrow> (
         \<exists>m3 w3. GetConnection u1 u2 u3 dial ?addr m w = (Ok ?b, m3, w3) \<and> conn (obj w3 ?b) = sock \<and>
            next_ref w3 = next_ref w \<and> (\<forall>v. \<exists>m4 w4. PutConnection v ?addr ?b m3 w3 = Ok (m4, w4)))"
    using cycle by blast
  show thesis
  proof (rule that [OF fw sa(5,1,6) _ _ _ _ again]; (intro impI)?)
    show "g_conf (hs_gw sb) = g_conf (hs_gw s)" using eff(5) sa(4) by simp
    show "cclosed (g_net (hs_gw sb) sock)" if "hs_left sb = None" using eff(2) that .
    show "tcp_connect env c i s = (Returned, sb\<lparr>hs_gw := (hs_gw sb)\<lparr>g_sessions := Session_Remove (ri_sessionID i) (g_sessions (hs_gw sb)),
       g_pools := m, g_pworld := w\<rparr>\<rparr>)" if "e = Returned"
      unfolding out that h_defer_def
      using tcp_bye_put [of "on_gw (\<lambda>g. g\<lparr>g_sessions := Session_Remove (ri_sessionID i) (g_sessions g)\<rparr>) sb" env i ?b m w]
        put eff(3-5) sa assms(2) by (simp add: on_gw_def)
    show "e = Returned" if "fst (tcp_connect env c i s) = Returned"
      using that tcp_bye_panic unfolding out by (cases e) (simp_all add: h_defer_def)
  qed
qed

text \<open>A session that is given a closed connection.\<close>

lemma closed_connection_lost:
  assumes "\<not> UseGrpc (Server (g_config (hs_gw s)))" and "0 < cp_MaxRetries (ConnectionPool (g_config (hs_gw s)))"
    and "de_ctx (he_dials env 0) = None" and "first_Get env (ri_backendAddr i) (hs_gw s) = (Ok b, m, w)"
    and "next_ref w = next_ref (g_pworld (hs_gw s))" and "cclosed (g_net (hs_gw s) (conn (obj w b)))"
    and "\<exists>m4 w4. PutConnection (he_put env) (ri_backendAddr i) b m w = Ok (m4, w4)"
  shows "\<exists>s'. tcp_connect env c i s = (Returned, s') \<and> cs_status (hs_stats s') = ''error'' \<and>
    cs_errorMsg (hs_stats s') = ''write message failed: use of closed network connection''"
proof -
  define g2 where "g2 = connected_gw env (ri_backendAddr i) m w (hs_gw s)"
  have g2: "g_conf g2 = g_conf (hs_gw s)" "g_net g2 = g_net (hs_gw s)" "g_pools g2 = m" "g_pworld g2 = w"
    using assms(5) by (simp_all add: g2_def connected_gw_def split: res.split)
  have "tcp_connect env c i s = tcp_notify env c i (Some b) (s\<lparr>hs_gw := g2\<rparr>)"
    unfolding g2_def by (rule tcp_connect_first [OF assms(1-4)])
  also have "\<dots> = h_defer (tcp_bye env i (Some b)) (tcp_first env c i (Some (conn (obj w b))) (s\<lparr>hs_gw := g2\<rparr>))"
    using tcp_notify_tcp [of "s\<lparr>hs_gw := g2\<rparr>"] assms(1) g2 by simp
  finally have run: "tcp_connect env c i s = \<dots>" .
  obtain sd where first: "tcp_first env c i (Some (conn (obj w b))) (s\<lparr>hs_gw := g2\<rparr>) = (Returned, sd)" "cs_status (hs_stats sd) = ''error''"
      "cs_errorMsg (hs_stats sd) = ''write message failed: use of closed network connection''"
      "g_conf (hs_gw sd) = g_conf g2" "g_pools (hs_gw sd) = m" "g_pworld (hs_gw sd) = w"
    using tcp_first_closed [of "s\<lparr>hs_gw := g2\<rparr>" "conn (obj w b)" env c i] assms(1,6) g2 by auto
  obtain m4 w4 where "PutConnection (he_put env) (ri_backendAddr i) b m w = Ok (m4, w4)" using assms(7) by blast
  with tcp_bye_put [of sd env i b m4 w4] first assms(1) g2(1)
  have "tcp_connect env c i s = (Returned, sd\<lparr>hs_gw := (hs_gw sd)\<lparr>g_pools := m4, g_pworld := w4\<rparr>\<rparr>)"
    unfolding run by (simp add: h_defer_def)
  then show ?thesis using first(2,3) by simp
qed

text \<open>
  C37. Backend connections are put back into the pool closed.  When the first session with a
  backend has ended and its forwarding goroutine is gone, the next session with that backend
  within the idle timeout is handed the closed connection: the first message of its client is
  lost, the client is disconnected and the connection ends with the error of a closed connection,
  whatever dialling the backend would have given.
\<close>

theorem pooled_connection_dead:
  assumes "pool_ok (g_buffers (hs_gw s1))" and "\<not> UseGrpc (Server (g_config (hs_gw s1)))"
    and "0 < cp_MaxRetries (ConnectionPool (g_config (hs_gw s1)))"
    and "gomap_get (pools (g_pools (hs_gw s1))) (ri_backendAddr i1) = None"
    and "0 < cp_MaxConnectionsPerService (pm_config (g_pools (hs_gw s1)))"
    and "de_ctx (he_dials env1 0) = None" and "de_dial (he_dials env1 0) = Ok sock" and "writable (de_sock (he_dials env1 0))"
    and "tcp_connect env1 c1 i1 s1 = (Returned, s1')" and "hs_left s1' = None"
    and "g_conf (hs_gw s2) = g_conf (hs_gw s1')" and "g_pools (hs_gw s2) = g_pools (hs_gw s1')"
    and "g_pworld (hs_gw s2) = g_pworld (hs_gw s1')" and "g_net (hs_gw s2) = g_net (hs_gw s1')"
    and "ri_backendAddr i2 = ri_backendAddr i1" and "de_ctx (he_dials env2 0) = None"
    and "de_t1 (he_dials env2 0) - he_put env1 \<le> cp_IdleTimeout (pm_config (g_pools (hs_gw s1)))"
  shows "\<exists>s2'. tcp_connect env2 c2 i2 s2 = (Returned, s2') \<and> cs_status (hs_stats s2') = ''error'' \<and>
    cs_errorMsg (hs_stats s2') = ''write message failed: use of closed network connection''"
proof -
  obtain sa r e sb m w where "forward_tcp env1 c1 i1 r sock sa = (e, sb)" "g_clients (hs_gw sa) c1 = g_clients (hs_gw s1) c1"
      "g_buffers (hs_gw sa) = g_buffers (hs_gw s1)" "writable (g_net (hs_gw sa) sock)" and
    cf: "g_conf (hs_gw sb) = g_conf (hs_gw s1)" and left: "hs_left sb = None \<longrightarrow> cclosed (g_net (hs_gw sb) sock)" and
    ret: "e = Returned \<longrightarrow> tcp_connect env1 c1 i1 s1 = (Returned, sb\<lparr>hs_gw := (hs_gw sb)\<lparr>g_sessions :=
      Session_Remove (ri_sessionID i1) (g_sessions (hs_gw sb)), g_pools := m, g_pworld := w\<rparr>\<rparr>)" "fst (tcp_connect env1 c1 i1 s1) = Returned \<longrightarrow> e = Returned" and
    again: "\<forall>u1 u2 u3 dial. u1 - he_put env1 \<le> cp_IdleTimeout (pm_config (g_pools (hs_gw s1))) \<longrightarrow> (
       \<exists>m' w'. GetConnection u1 u2 u3 dial (ri_backendAddr i1) m w = (Ok (next_ref (g_pworld (hs_gw s1))), m', w') \<and>
         conn (obj w' (next_ref (g_pworld (hs_gw s1)))) = sock \<and> next_ref w' = next_ref w \<and>
         (\<forall>v. \<exists>m4 w4. PutConnection v (ri_backendAddr i1) (next_ref (g_pworld (hs_gw s1))) m' w' = Ok (m4, w4)))"
    by (rule new_backend_session [OF assms(1-8), of c1])
  have s1': "s1' = sb\<lparr>hs_gw := (hs_gw sb)\<lparr>g_sessions := Session_Remove (ri_sessionID i1) (g_sessions (hs_gw sb)), g_pools := m, g_pworld := w\<rparr>\<rparr>"
    using ret assms(9) by simp
  obtain m' w' where get: "first_Get env2 (ri_backendAddr i2) (hs_gw s2) = (Ok (next_ref (g_pworld (hs_gw s1))), m', w')"
      "conn (obj w' (next_ref (g_pworld (hs_gw s1)))) = sock" "next_ref w' = next_ref (g_pworld (hs_gw s2))"
      "\<forall>v. \<exists>m4 w4. PutConnection v (ri_backendAddr i2) (next_ref (g_pworld (hs_gw s1))) m' w' = Ok (m4, w4)"
    using again [rule_format, OF assms(17), of "de_t2 (he_dials env2 0)" "de_t3 (he_dials env2 0)" "de_dial (he_dials env2 0)"] assms(12,13,15)
    by (auto simp: s1')
  show ?thesis
    by (rule closed_connection_lost [OF _ _ assms(16) get(1,3)])
      (use left get(2,4) assms(2,3,10,11,14) cf in \<open>simp_all add: s1'\<close>)
qed

section \<open>Sample sessions\<close>

definition tcp_config :: Config where "tcp_config = setDefaults zero_config"

definition sample_rule :: RoutingRule where
  "sample_rule = \<lparr>ServerType = 0, ServiceName = ''game'', Strategy = StrategyRoundRobin, Endpoints = [''b:1''], HashKey = [], rule_WorldID = 0\<rparr>"

text \<open>A gateway in TCP mode with one rule and, as client 3, the given connection.\<close>

definition tcp_gateway :: "conn \<Rightarrow> Gateway" where
  "tcp_gateway cn = (case New sample_start tcp_config ''pod'' of
     Ok g \<Rightarrow> (set_client 3 (TCPClient (bufio_NewReader cn)) g)\<lparr>g_routing := \<lparr>routingConfigs = [], rs_router = UpdateRule sample_rule NewRouter\<rparr>\<rparr>
   | _ \<Rightarrow> undefined)"

definition tcp_state :: "conn \<Rightarrow> hstate" where
  "tcp_state cn = \<lparr>hs_gw = tcp_gateway cn, hs_stats = start_stats, hs_left = None\<rparr>"

lemma tcp_config_fields:
  "\<not> UseGrpc (Server tcp_config)" "0 \<le> ConnectionQueueSize (ConnectionPool tcp_config)" "0 < cp_MaxRetries (ConnectionPool tcp_config)"
  "0 < cp_MaxConnectionsPerService (ConnectionPool tcp_config)" "2 \<le> MaxMessageSize (Security tcp_config)"
  "10 \<le> cp_IdleTimeout (ConnectionPool tcp_config)"
  by code_simp+

lemma tcp_gateway_fields:
  "g_config (tcp_gateway cn) = tcp_config" "g_buffers (tcp_gateway cn) = []" "g_pools (tcp_gateway cn) = NewPoolManager (ConnectionPool tcp_config)"
  "g_clients (tcp_gateway cn) 3 = TCPClient (bufio_NewReader cn)" "g_breakers (tcp_gateway cn) = []" "g_sessions (tcp_gateway cn) = NewManager"
  "rs_router (g_routing (tcp_gateway cn)) = UpdateRule sample_rule NewRouter" "next_ref (g_pworld (tcp_gateway cn)) = 0"
  "\<exists>p. g_ids (tcp_gateway cn) = fresh_gen p 0"
  using tcp_config_fields(1,2)
  by (simp_all add: tcp_gateway_def New_def sample_start_def set_client_def Let_def not_less) auto

lemma fresh_id: "\<exists>sid ids. generateSessionID [5] (fresh_gen p 0) = Some (sid, ids)"
proof -
  have "\<not> sint (read_ts 5) < sint (0 :: 64 word)" "read_ts 5 \<noteq> 0" by code_simp+
  then show ?thesis by (simp add: fresh_gen_def Let_def generateSessionID.simps)
qed

text \<open>A client that sends one packet and closes.\<close>

definition one_packet_conn :: conn where
  "one_packet_conn = \<lparr>cin = [encoded [sample_packet]], cend = EOF, cout = [], croom = None, cclosed = False\<rparr>"

theorem session_end_to_end_witness:
  "\<exists>sid ps part. cout (g_net (hs_gw (snd (handleTCPConnection (sample_env silent_conn) 3 (tcp_state one_packet_conn)))) 0) =
     backend_bytes sid (fst sample_packet, snd sample_packet, None) @ concat (map (backend_bytes sid) ps) @ part"
proof -
  let ?s = "tcp_state one_packet_conn" and ?env = "sample_env silent_conn"
  have gw: "hs_gw ?s = tcp_gateway one_packet_conn" by (simp add: tcp_state_def)
  obtain sid ids where ids: "generateSessionID (he_elapsed ?env) (g_ids (hs_gw ?s)) = Some (sid, ids)"
    using tcp_gateway_fields(9) [of one_packet_conn] fresh_id by (metis gw sample_env_def handler_env.select_convs(8))
  have parse: "parse_packet (MaxMessageSize (Security (g_config (hs_gw ?s)))) (cc_content (g_clients (hs_gw ?s) 3)) (cc_ending (g_clients (hs_gw ?s) 3)) =
      Ok (fst sample_packet, snd sample_packet)"
    unfolding gw tcp_gateway_fields(1,4)
    using parse_encoded [of "MaxMessageSize (Security tcp_config)" "fst sample_packet" "snd sample_packet" "[]" "Stops EOF"] tcp_config_fields(5)
    by (simp add: bufio_NewReader_def one_packet_conn_def conn_content_def conn_ending_def sendable_def sample_packet_def)
  have "fst (RouteByServerID 0 0 0 (UpdateRule sample_rule NewRouter)) = Ok ''b:1''" by code_simp
  then obtain rt where rt: "RouteByServerID 0 0 0 (UpdateRule sample_rule NewRouter) = (Ok ''b:1'', rt)" by (metis prod.collapse)
  have ex: "ExtractServerIDInfo 0 = (False, 0, 0, 0)" by code_simp
  obtain g where route: "route_header (fst sample_packet) ((hs_gw ?s)\<lparr>g_ids := ids\<rparr>) = (Ok ''b:1'', g)" "g_breakers g = []"
    using rt by (simp add: route_header_def routeToBackend_def sample_packet_def ex gw tcp_gateway_fields)
  have brk: "breaker_allows ?env ''b:1'' g"
    by (simp add: breaker_allows_def getOrCreateBreaker_def route(2) NewBreaker_def Breaker_Allow_def Let_def)
  have pm: "gomap_get (pools (g_pools (hs_gw ?s))) ''b:1'' = None" "0 < cp_MaxConnectionsPerService (pm_config (g_pools (hs_gw ?s)))"
    using tcp_config_fields(4) by (simp_all add: gw tcp_gateway_fields NewPoolManager_def)
  have d: "de_dial (he_dials ?env 0) = Ok 0" "de_ctx (he_dials ?env 0) = None" "de_sock (he_dials ?env 0) = silent_conn" "he_trace ?env = \<lparr>sc_trace = None, sc_span = None\<rparr>"
    by (simp_all add: sample_env_def sample_dial_def)
  obtain m w where get: "first_Get ?env ''b:1'' (hs_gw ?s) = (Ok 0, m, w)" and sock: "conn (obj w 0) = 0" "next_ref w = 1"
    using pool_cycle [OF pm, of _ _ _ 0 "g_pworld (hs_gw ?s)"] unfolding d(1)
    by (metis gw tcp_gateway_fields(8) add_0)
  have net: "g_net (connected_gw ?env ''b:1'' m w (hs_gw ?s)) 0 = silent_conn"
    using sock(2) d by (simp add: connected_gw_def gw tcp_gateway_fields(8))
  have silent: "writable silent_conn" "cout silent_conn = []" by (simp_all add: silent_conn_def writable_def)
  then have "writable (g_net (connected_gw ?env ''b:1'' m w (hs_gw ?s)) (conn (obj w 0)))" by (simp add: sock(1) net)
  note run = session_end_to_end [OF _ _ _ parse ids route(1) brk d(2) get this]
  have cfg: "pool_ok (g_buffers (hs_gw ?s))" "\<not> UseGrpc (Server (g_config (hs_gw ?s)))" "0 < cp_MaxRetries (ConnectionPool (g_config (hs_gw ?s)))"
    using tcp_config_fields(1,3) by (simp_all add: gw tcp_gateway_fields)
  have tr: "trace_of ?env cfg = None" for cfg by (simp add: trace_of_def extractTraceContext_def d(4))
  show ?thesis using run [OF cfg] unfolding tr net sock(1) silent(2) append_Nil by blast
qed

text \<open>A session whose client closes at once: its goroutine goes first, then the handler returns.\<close>

definition closing_env :: handler_env where
  "closing_env = (sample_env silent_conn)\<lparr>he_fwd := [Up Default sample_round, Down Default sample_round]\<rparr>"

definition sample_info :: route_info where
  "sample_info = \<lparr>ri_sessionID = 9, ri_backendAddr = ''b:1'', ri_serverType = 0, ri_worldID = 0, ri_instID = 0, ri_MessageID = 7, ri_data = [5, 6]\<rparr>"

lemma closing_forward:
  assumes "\<not> cclosed b" and "pool_ok p" and f_def: "f = forwardConnection cf [Up Default e, Down Default e'] (fwd_start (TCPClient (bufio_NewReader silent_conn)) b p k n t)"
  shows "fw_up f = Left" "fw_down f = Left"
proof -
  let ?r = "bufio_NewReader (TCPClient (bufio_NewReader silent_conn))"
  have "client_content ?r = []" "client_ending ?r = Stops EOF"
    by (simp_all add: client_content_def client_ending_def bufio_NewReader_def silent_conn_def conn_content_def conn_ending_def)
  then have "parse_packet (fc_maxMessageSize cf) (client_content ?r) (client_ending ?r) = Err EOF" by (simp add: parse_packet_def)
  with fwd_rd.ReadFullPacket_refines [OF assms(2), of ?r "fc_maxMessageSize cf" "re_buffer e"]
  obtain r' p' where "ReadFullPacket client_read ?r (fc_maxMessageSize cf) (re_buffer e) p = (Err EOF, r', p')" by auto
  then show "fw_up f = Left" "fw_down f = Left" using assms(1)
    by (simp_all add: f_def forwardConnection_def fwd_start_def deadline_fails_def up_round_def up_packet_def down_round_def down_message_def)
qed

lemma silent_writable: "writable silent_conn"
  by (simp add: silent_conn_def writable_def)

lemma tcp_state_fields: "hs_gw (tcp_state cn) = tcp_gateway cn" "hs_left (tcp_state cn) = None"
  by (simp_all add: tcp_state_def)

lemma closing_start:
  "pool_ok (g_buffers (hs_gw (tcp_state silent_conn)))" "\<not> UseGrpc (Server (g_config (hs_gw (tcp_state silent_conn))))"
  "0 < cp_MaxRetries (ConnectionPool (g_config (hs_gw (tcp_state silent_conn))))"
  "gomap_get (pools (g_pools (hs_gw (tcp_state silent_conn)))) (ri_backendAddr sample_info) = None"
  "0 < cp_MaxConnectionsPerService (pm_config (g_pools (hs_gw (tcp_state silent_conn))))"
  "de_ctx (he_dials closing_env 0) = None" "de_dial (he_dials closing_env 0) = Ok 0" "writable (de_sock (he_dials closing_env 0))"
  using tcp_config_fields silent_writable
  by (simp_all add: tcp_state_fields tcp_gateway_fields NewPoolManager_def closing_env_def sample_env_def sample_dial_def)

lemma closing_session:
  obtains s' where "tcp_connect closing_env 3 sample_info (tcp_state silent_conn) = (Returned, s')" "hs_left s' = None"
proof -
  let ?s = "tcp_state silent_conn"
  obtain sa r e sb m w where fw: "forward_tcp closing_env 3 sample_info r 0 sa = (e, sb)" and
    sa: "g_clients (hs_gw sa) 3 = g_clients (hs_gw ?s) 3" "g_buffers (hs_gw sa) = g_buffers (hs_gw ?s)" "writable (g_net (hs_gw sa) 0)" and
    ret: "e = Returned \<longrightarrow> tcp_connect closing_env 3 sample_info ?s = (Returned, sb\<lparr>hs_gw := (hs_gw sb)\<lparr>g_sessions :=
      Session_Remove (ri_sessionID sample_info) (g_sessions (hs_gw sb)), g_pools := m, g_pworld := w\<rparr>\<rparr>)"
    using new_backend_session [OF closing_start, of 3] by metis
  have cl: "g_clients (hs_gw sa) 3 = TCPClient (bufio_NewReader silent_conn)" "g_buffers (hs_gw sa) = []"
    using sa by (simp_all add: tcp_state_fields tcp_gateway_fields)
  have ev: "he_fwd closing_env = [Up Default sample_round, Down Default sample_round]" by (simp add: closing_env_def)
  have op: "\<not> cclosed (g_net (hs_gw sa) 0)" using sa(3) by (simp add: writable_def)
  have "e = Returned \<and> hs_left sb = None"
    using fw closing_forward [OF op pool_ok_empty refl] by (auto simp: forward_tcp_def cl ev Let_def)
  then show thesis using ret by (intro that) auto
qed

theorem pooled_connection_dead_witness:
  "\<exists>s1' s2'. tcp_connect closing_env 3 sample_info (tcp_state silent_conn) = (Returned, s1') \<and>
     tcp_connect closing_env 3 sample_info s1' = (Returned, s2') \<and>
     cs_errorMsg (hs_stats s2') = ''write message failed: use of closed network connection''"
proof -
  obtain s1' where run: "tcp_connect closing_env 3 sample_info (tcp_state silent_conn) = (Returned, s1')" "hs_left s1' = None"
    by (rule closing_session)
  have "de_t1 (he_dials closing_env 0) - he_put closing_env \<le> cp_IdleTimeout (pm_config (g_pools (hs_gw (tcp_state silent_conn))))"
    using tcp_config_fields(6)
    by (simp add: tcp_state_fields tcp_gateway_fields NewPoolManager_def closing_env_def sample_env_def sample_dial_def)
  from pooled_connection_dead [OF closing_start run refl refl refl refl refl closing_start(6) this, of 3]
  have "\<exists>s2'. tcp_connect closing_env 3 sample_info s1' = (Returned, s2') \<and>
      cs_errorMsg (hs_stats s2') = ''write message failed: use of closed network connection''" by blast
  then show ?thesis using run by blast
qed

end
