(* ===== verification/Lifecycle.thy ===== *)
theory Lifecycle
  imports Gateway "HOL-Library.Multiset"
begin

text \<open>
  \<open>Start\<close>, \<open>acceptLoop\<close>, \<open>processConnectionQueue\<close> and \<open>Shutdown\<close> of
  \<open>internal/gateway/gateway.go\<close>: the goroutines of the gateway around its wait group, the
  worker pool and the queue of connections.  Each goroutine is a program counter and each step
  one blocking or shared operation; the system is the interleaving of all of them.  What a
  worker does with its connection is the theory of the connection handler; here it is at work
  or done.  The worker pool of the library \<open>ants\<close> is used in its non-blocking mode: \<open>Submit\<close>
  fails when all workers are busy or the pool was released, a panic of a worker ends that
  worker only, and a pool of negative size has no limit.
\<close>

section \<open>State\<close>

datatype accept_pc =
    ASelect              \<comment> \<open>before the check of the context\<close>
  | AAccept              \<comment> \<open>in \<open>Accept\<close>\<close>
  | ASubmit nat          \<comment> \<open>counted, before \<open>Submit\<close>\<close>
  | AQueue nat           \<comment> \<open>\<open>Submit\<close> failed, before the send to the queue\<close>
  | ADone

text \<open>The processor of the queue holds a connection or, received from the closed channel, nil.\<close>

datatype queue_pc = QSelect | QSubmit "nat option" | QDrain | QDone

datatype shut_pc =
    Serving | Draining | Cancelled | Waiting | CloseGrpc | CloseQueue | Release | ClosePools | CloseRedis | StopMetrics | ShutDone

text \<open>
  Connections are numbered in the order they are accepted.  \<open>sy_loops\<close> are the other background
  loops, which end when the context is cancelled; \<open>sy_metrics\<close> is the goroutine of the metrics
  server; \<open>sy_timedout\<close> says that \<open>Shutdown\<close> stopped waiting because of its context.
  \<open>sy_nils\<close> workers were handed a nil connection, and \<open>sy_extra\<close> of those have ended: their
  \<open>Done\<close> has no \<open>Add\<close>.
\<close>

record system =
  sy_wg :: int
  sy_running :: "nat list"
  sy_nils :: nat
  sy_extra :: nat
  sy_capacity :: "nat option"
  sy_queue :: "nat list"
  sy_queueCap :: nat
  sy_queueClosed :: bool
  sy_released :: bool
  sy_closed :: "nat list"
  sy_handled :: "nat list"
  sy_next :: nat
  sy_accept :: accept_pc
  sy_proc :: queue_pc
  sy_loops :: nat
  sy_metrics :: bool
  sy_draining :: bool
  sy_listening :: bool
  sy_cancelled :: bool
  sy_shut :: shut_pc
  sy_timedout :: bool
  sy_result :: "unit res option"
  sy_panic :: bool

section \<open>The loops\<close>

definition pool_full :: "system \<Rightarrow> bool" where
  "pool_full s \<longleftrightarrow> (case sy_capacity s of Some n \<Rightarrow> n \<le> length (sy_running s) + sy_nils s | None \<Rightarrow> False)"

definition ants_Submit :: "nat option \<Rightarrow> system \<Rightarrow> bool \<times> system" where
  "ants_Submit qc s =
     (if sy_released s \<or> pool_full s then (False, s)
      else case qc of
             Some c \<Rightarrow> (True, s\<lparr>sy_running := sy_running s @ [c]\<rparr>)
           | None \<Rightarrow> (True, s\<lparr>sy_nils := sy_nils s + 1\<rparr>))"

text \<open>
  What \<open>Accept\<close> and \<open>SetReadDeadline\<close> return: an error, or a connection and whether its
  deadline could be set.  A closed listener gives errors only.
\<close>

datatype accept_event = AcceptError | AcceptConn bool

definition accept_step :: "accept_event \<Rightarrow> system \<Rightarrow> system" where
  "accept_step ev s =
     (case sy_accept s of
        ASelect \<Rightarrow>
          if sy_cancelled s then s\<lparr>sy_accept := ADone, sy_wg := sy_wg s - 1\<rparr> else s\<lparr>sy_accept := AAccept\<rparr>
      | AAccept \<Rightarrow>
          (case if sy_listening s then ev else AcceptError of
             AcceptError \<Rightarrow>
               if sy_draining s then s\<lparr>sy_accept := ADone, sy_wg := sy_wg s - 1\<rparr> else s\<lparr>sy_accept := ASelect\<rparr>
           | AcceptConn deadline_set \<Rightarrow>
               let c = sy_next s
               in if \<not> deadline_set then s\<lparr>sy_accept := ASelect, sy_next := c + 1, sy_closed := sy_closed s @ [c]\<rparr>
                  else s\<lparr>sy_accept := ASubmit c, sy_next := c + 1, sy_wg := sy_wg s + 1\<rparr>)
      | ASubmit c \<Rightarrow>
          (case ants_Submit (Some c) s of
             (True, s') \<Rightarrow> s'\<lparr>sy_accept := ASelect\<rparr>
           | (False, s') \<Rightarrow> s'\<lparr>sy_accept := AQueue c\<rparr>)
      | AQueue c \<Rightarrow>
          if sy_queueClosed s then s\<lparr>sy_panic := True\<rparr>
          else if length (sy_queue s) < sy_queueCap s then s\<lparr>sy_queue := sy_queue s @ [c], sy_accept := ASelect\<rparr>
          else s\<lparr>sy_wg := sy_wg s - 1, sy_closed := sy_closed s @ [c], sy_accept := ASelect\<rparr>
      | ADone \<Rightarrow> s)"

text \<open>
  \<open>take_done\<close> is the choice of the \<open>select\<close> when the context is done and a connection waits.
  Receiving from the closed and empty channel gives a nil connection, on which \<open>Close\<close> panics;
  on an empty open channel the receive blocks.
\<close>

definition queue_step :: "bool \<Rightarrow> system \<Rightarrow> system" where
  "queue_step take_done s =
     (case sy_proc s of
        QSelect \<Rightarrow>
          if sy_cancelled s \<and> (take_done \<or> sy_queue s = [] \<and> \<not> sy_queueClosed s) then s\<lparr>sy_proc := QDrain\<rparr>
          else (case sy_queue s of
                  c # cs \<Rightarrow> s\<lparr>sy_queue := cs, sy_proc := QSubmit (Some c)\<rparr>
                | [] \<Rightarrow> if sy_queueClosed s then s\<lparr>sy_proc := QSubmit None\<rparr> else s)
      | QSubmit qc \<Rightarrow>
          (case ants_Submit qc s of
             (True, s') \<Rightarrow> s'\<lparr>sy_proc := QSelect\<rparr>
           | (False, s') \<Rightarrow>
               (case qc of
                  Some c \<Rightarrow> s'\<lparr>sy_proc := QSelect, sy_closed := sy_closed s @ [c], sy_wg := sy_wg s - 1\<rparr>
                | None \<Rightarrow> s'\<lparr>sy_panic := True\<rparr>))
      | QDrain \<Rightarrow>
          (case sy_queue s of
             c # cs \<Rightarrow> s\<lparr>sy_queue := cs, sy_closed := sy_closed s @ [c], sy_wg := sy_wg s - 1\<rparr>
           | [] \<Rightarrow> if sy_queueClosed s then s\<lparr>sy_panic := True\<rparr> else s\<lparr>sy_proc := QDone, sy_wg := sy_wg s - 1\<rparr>)
      | QDone \<Rightarrow> s)"

text \<open>A worker is done with its connection.\<close>

definition handler_end :: "nat \<Rightarrow> system \<Rightarrow> system" where
  "handler_end c s =
     (if c \<in> set (sy_running s)
      then s\<lparr>sy_running := remove1 c (sy_running s), sy_handled := sy_handled s @ [c], sy_wg := sy_wg s - 1\<rparr> else s)"

text \<open>A worker with a nil connection panics at once and runs its deferred \<open>Done\<close>.\<close>

definition nil_end :: "system \<Rightarrow> system" where
  "nil_end s = (if 0 < sy_nils s then s\<lparr>sy_nils := sy_nils s - 1, sy_extra := sy_extra s + 1, sy_wg := sy_wg s - 1\<rparr> else s)"

definition loop_end :: "system \<Rightarrow> system" where
  "loop_end s = (if sy_cancelled s \<and> 0 < sy_loops s then s\<lparr>sy_loops := sy_loops s - 1, sy_wg := sy_wg s - 1\<rparr> else s)"

text \<open>\<open>ListenAndServe\<close> returns with an error, by itself or because the server was shut down.\<close>

definition metrics_end :: "system \<Rightarrow> system" where
  "metrics_end s = (if sy_metrics s then s\<lparr>sy_metrics := False, sy_wg := sy_wg s - 1\<rparr> else s)"

section \<open>Start and shutdown\<close>

text \<open>
  \<open>Shutdown\<close>, one stage per step.  \<open>Expired\<close> is the choice of the branch of the context in its
  \<open>select\<close>; without it \<open>Shutdown\<close> goes on only when the counter is zero.  \<open>Fails\<close> is the
  error of the component the stage closes (the gRPC manager, the pools, Redis, the metrics
  server), on which \<open>Shutdown\<close> returns and leaves out the remaining stages.
\<close>

datatype shut_event = Goes | Expired | Fails go_error

definition shut_fail :: "string \<Rightarrow> shut_event \<Rightarrow> shut_pc \<Rightarrow> system \<Rightarrow> system" where
  "shut_fail msg ev stage s =
     (case ev of
        Fails err \<Rightarrow> s\<lparr>sy_shut := ShutDone, sy_result := Some (Err (Errorf msg (Some err)))\<rparr>
      | _ \<Rightarrow> s\<lparr>sy_shut := stage\<rparr>)"

definition shutdown_step :: "bool \<Rightarrow> shut_event \<Rightarrow> system \<Rightarrow> system" where
  "shutdown_step has_grpc ev s =
     (case sy_shut s of
        Serving \<Rightarrow> s\<lparr>sy_draining := True, sy_shut := Draining\<rparr>
      | Draining \<Rightarrow> s\<lparr>sy_cancelled := True, sy_shut := Cancelled\<rparr>
      | Cancelled \<Rightarrow> s\<lparr>sy_listening := False, sy_shut := Waiting\<rparr>
      | Waiting \<Rightarrow>
          if ev = Expired then s\<lparr>sy_shut := CloseGrpc, sy_timedout := True\<rparr>
          else if sy_wg s = 0 then s\<lparr>sy_shut := CloseGrpc\<rparr> else s
      | CloseGrpc \<Rightarrow>
          if has_grpc then shut_fail ''failed to close gRPC connections: '' ev CloseQueue s else s\<lparr>sy_shut := CloseQueue\<rparr>
      | CloseQueue \<Rightarrow> s\<lparr>sy_queueClosed := True, sy_shut := Release\<rparr>
      | Release \<Rightarrow> s\<lparr>sy_released := True, sy_shut := ClosePools\<rparr>
      | ClosePools \<Rightarrow> shut_fail ''failed to close connection pools: '' ev CloseRedis s
      | CloseRedis \<Rightarrow> shut_fail ''failed to close Redis connection: '' ev StopMetrics s
      | StopMetrics \<Rightarrow>
          (case ev of
             Fails err \<Rightarrow> shut_fail ''failed to shutdown metrics server: '' ev ShutDone (metrics_end s)
           | _ \<Rightarrow> (metrics_end s)\<lparr>sy_shut := ShutDone, sy_result := Some (Ok ())\<rparr>)
      | ShutDone \<Rightarrow> s)"

text \<open>
  \<open>startMetricsServer\<close> starts a goroutine that the wait group counts and reports no error: one of
  \<open>ListenAndServe\<close> is only logged, later.  \<open>startListener\<close>, with the error of \<open>net.Listen\<close>.
\<close>

definition startMetricsServer :: "system \<Rightarrow> go_error option \<times> system" where
  "startMetricsServer s = (None, s\<lparr>sy_wg := sy_wg s + 1, sy_metrics := True\<rparr>)"

definition startListener :: "go_error option \<Rightarrow> system \<Rightarrow> go_error option \<times> system" where
  "startListener listen_err s =
     (case listen_err of
        Some err \<Rightarrow> (Some err, s)
      | None \<Rightarrow> (None, s\<lparr>sy_listening := True, sy_wg := sy_wg s + 1, sy_accept := ASelect\<rparr>))"

text \<open>
  \<open>Start\<close>, with the rules Redis returned and the error of \<open>net.Listen\<close>.  The wait group counts
  the refresh of Redis, that of Consul when it is enabled and was set up, the cleanup of pools
  and of sessions, the queue processor, the metrics server and the accept loop.
\<close>

definition Start :: "redis_rules res \<Rightarrow> go_error option \<Rightarrow> Gateway \<Rightarrow> unit res \<times> Gateway \<times> system" where
  "Start loaded listen_err g =
     (let idle = \<lparr>sy_wg = 0, sy_running = [], sy_nils = 0, sy_extra = 0, sy_capacity = (if g_maxGoroutines g < 0 then None else Some (nat (g_maxGoroutines g))), sy_queue = [], sy_queueCap = g_queueSize g,
                  sy_queueClosed = False, sy_released = False, sy_closed = [], sy_handled = [], sy_next = 0, sy_accept = ADone,
                  sy_proc = QDone, sy_loops = 0, sy_metrics = False, sy_draining = False, sy_listening = False, sy_cancelled = False,
                  sy_shut = Serving, sy_timedout = False, sy_result = None, sy_panic = False\<rparr>
      in case loadConfigFromRedis (Consul (g_config g)) loaded (g_routing g) of
           (Some err, _) \<Rightarrow> (Err (Errorf ''failed to load initial config: '' (Some err)), g, idle)
         | (None, Err err) \<Rightarrow> (Err err, g, idle)
         | (None, Panic m) \<Rightarrow> (Panic m, g, idle)
         | (None, Ok rs) \<Rightarrow>
             let loops = (if Enabled (Consul (g_config g)) \<and> g_consul g \<noteq> None then 4 else 3);
                 g' = g\<lparr>g_routing := rs, g_access := InitAccessLogger True (g_access g)\<rparr>;
                 s = idle\<lparr>sy_loops := loops, sy_proc := QSelect, sy_wg := int loops + 1\<rparr>
             in case startMetricsServer s of
                  (Some err, s1) \<Rightarrow> (Err (Errorf ''failed to start metrics server: '' (Some err)), g', s1)
                | (None, s1) \<Rightarrow>
                    (case startListener listen_err s1 of
                       (Some err, s2) \<Rightarrow> (Err (Errorf ''failed to start listener: '' (Some err)), g', s2)
                     | (None, s2) \<Rightarrow> (Ok (), g', s2)))"

lemmas Start_defs = Start_def startMetricsServer_def startListener_def

text \<open>The handlers of the probes: status code and body.\<close>

definition healthHandler :: "system \<Rightarrow> nat \<times> string" where
  "healthHandler s = (200, ''OK'')"

definition readyHandler :: "system \<Rightarrow> nat \<times> string" where
  "readyHandler s = (if sy_draining s then (503, ''Draining'') else (200, ''Ready''))"

text \<open>The paths of the metrics server; \<open>None\<close> stands for the page of the Prometheus handler.\<close>

definition metrics_mux :: "string \<Rightarrow> system \<Rightarrow> (nat \<times> string) option" where
  "metrics_mux path s =
     (if path = ''/health'' then Some (healthHandler s)
      else if path = ''/ready'' then Some (readyHandler s)
      else if path = ''/metrics'' then None
      else Some (404, ''404 page not found'' @ [CHR 0x0A]))"

section \<open>Runs\<close>

text \<open>
  Any goroutine moves next.  With \<open>ok\<close>, the metrics server does not fail by itself; a panic
  ends the process.
\<close>

inductive sys_step :: "bool \<Rightarrow> system \<Rightarrow> system \<Rightarrow> bool" for ok where
  step_accept: "\<not> sy_panic s \<Longrightarrow> sys_step ok s (accept_step ev s)"
| step_queue: "\<not> sy_panic s \<Longrightarrow> sys_step ok s (queue_step b s)"
| step_handler: "\<not> sy_panic s \<Longrightarrow> sys_step ok s (handler_end c s)"
| step_nil: "\<not> sy_panic s \<Longrightarrow> sys_step ok s (nil_end s)"
| step_loop: "\<not> sy_panic s \<Longrightarrow> sys_step ok s (loop_end s)"
| step_metrics: "\<not> sy_panic s \<Longrightarrow> \<not> ok \<Longrightarrow> sys_step ok s (metrics_end s)"
| step_shutdown: "\<not> sy_panic s \<Longrightarrow> sys_step ok s (shutdown_step has_grpc e s)"

inductive sys_reachable :: "bool \<Rightarrow> Gateway \<Rightarrow> system \<Rightarrow> bool" for ok g where
  sys_start: "Start loaded None g = (Ok (), g', s) \<Longrightarrow> sys_reachable ok g s"
| sys_more: "sys_reachable ok g s \<Longrightarrow> sys_step ok s s' \<Longrightarrow> sys_reachable ok g s'"

inductive_cases sys_step_elim: "sys_step ok s s'"

section \<open>The counter and the connections\<close>

text \<open>What a goroutine contributes to the counter, and the connection it holds.\<close>

primrec accept_count :: "accept_pc \<Rightarrow> nat" where
  "accept_count ASelect = 1" | "accept_count AAccept = 1" | "accept_count (ASubmit c) = 2" | "accept_count (AQueue c) = 2"
| "accept_count ADone = 0"

primrec queue_count :: "queue_pc \<Rightarrow> nat" where
  "queue_count QSelect = 1" | "queue_count (QSubmit qc) = (case qc of Some c \<Rightarrow> 2 | None \<Rightarrow> 1)" | "queue_count QDrain = 1" | "queue_count QDone = 0"

primrec accept_conn :: "accept_pc \<Rightarrow> nat list" where
  "accept_conn ASelect = []" | "accept_conn AAccept = []" | "accept_conn (ASubmit c) = [c]" | "accept_conn (AQueue c) = [c]"
| "accept_conn ADone = []"

primrec queue_conn :: "queue_pc \<Rightarrow> nat list" where
  "queue_conn QSelect = []" | "queue_conn (QSubmit qc) = (case qc of Some c \<Rightarrow> [c] | None \<Rightarrow> [])" | "queue_conn QDrain = []" | "queue_conn QDone = []"

definition busy :: "system \<Rightarrow> nat" where
  "busy s = length (sy_running s) + length (sy_queue s) + sy_loops s + (if sy_metrics s then 1 else 0) +
     accept_count (sy_accept s) + queue_count (sy_proc s)"

text \<open>Everywhere a connection can be.\<close>

definition places :: "system \<Rightarrow> nat list" where
  "places s = sy_running s @ sy_queue s @ accept_conn (sy_accept s) @ queue_conn (sy_proc s) @ sy_closed s @ sy_handled s"

definition waited :: "system \<Rightarrow> bool" where
  "waited s \<longleftrightarrow> sy_shut s \<in> {CloseGrpc, CloseQueue, Release, ClosePools, CloseRedis, StopMetrics, ShutDone}"

text \<open>The invariant in three parts: the counter and the bounds, the connections, and the shutdown.\<close>

definition count_inv :: "system \<Rightarrow> bool" where
  "count_inv s \<longleftrightarrow>
     sy_wg s = int (busy s) - int (sy_extra s) \<and>
     (\<forall>n. sy_capacity s = Some n \<longrightarrow> length (sy_running s) + sy_nils s \<le> n) \<and> length (sy_queue s) \<le> sy_queueCap s"

definition place_inv :: "system \<Rightarrow> bool" where
  "place_inv s \<longleftrightarrow> mset (places s) = mset [0..<sy_next s]"

definition shut_inv :: "system \<Rightarrow> bool" where
  "shut_inv s \<longleftrightarrow>
     (sy_queueClosed s \<longrightarrow> waited s) \<and> (sy_timedout s \<longrightarrow> waited s) \<and>
     (sy_panic s \<or> 0 < sy_nils s \<or> 0 < sy_extra s \<or> sy_proc s = QSubmit None \<longrightarrow> sy_timedout s) \<and>
     (waited s \<and> \<not> sy_timedout s \<longrightarrow> busy s = 0)"

definition sys_inv :: "system \<Rightarrow> bool" where
  "sys_inv s \<longleftrightarrow> count_inv s \<and> place_inv s \<and> shut_inv s"

lemma busy_0:
  "busy s = 0 \<longleftrightarrow>
     sy_running s = [] \<and> sy_queue s = [] \<and> sy_loops s = 0 \<and> \<not> sy_metrics s \<and> sy_accept s = ADone \<and> sy_proc s = QDone"
  by (cases "sy_accept s"; cases "sy_proc s") (auto simp: busy_def split: option.splits)

lemma length_remove1_Suc: "c \<in> set xs \<Longrightarrow> Suc (length (remove1 c xs)) = length xs"
  by (induction xs) auto

lemma mset_upt_Suc: "mset [0..<Suc n] = add_mset n (mset [0..<n])"
  by (simp del: mset_upt)


lemma count_inv_steps:
  assumes "count_inv s"
  shows "count_inv (accept_step ev s)" "count_inv (queue_step b s)" "count_inv (handler_end c s)" "count_inv (nil_end s)"
    "count_inv (loop_end s)" "count_inv (metrics_end s)" "count_inv (shutdown_step gr e s)"
proof -
  show "count_inv (accept_step ev s)" using assms
    by (cases "sy_accept s"; cases ev; cases "sy_capacity s") (auto simp: accept_step_def ants_Submit_def pool_full_def count_inv_def busy_def Let_def)
  show "count_inv (queue_step b s)" using assms
    by (cases "sy_proc s"; cases "sy_queue s"; cases "sy_capacity s")
      (auto simp: queue_step_def ants_Submit_def pool_full_def count_inv_def busy_def split: option.split)
  show "count_inv (handler_end c s)" using assms length_remove1_Suc [of c "sy_running s"]
    by (auto simp: handler_end_def count_inv_def busy_def)
  show "count_inv (nil_end s)" "count_inv (loop_end s)" "count_inv (metrics_end s)" using assms
    by (auto simp: nil_end_def loop_end_def metrics_end_def count_inv_def busy_def)
  show "count_inv (shutdown_step gr e s)" using assms
    by (cases "sy_shut s"; cases e) (simp_all add: shutdown_step_def shut_fail_def metrics_end_def count_inv_def busy_def)
qed

lemma place_inv_steps:
  assumes "place_inv s"
  shows "place_inv (accept_step ev s)" "place_inv (queue_step b s)" "place_inv (handler_end c s)" "place_inv (nil_end s)"
    "place_inv (loop_end s)" "place_inv (metrics_end s)" "place_inv (shutdown_step gr e s)"
proof -
  show "place_inv (accept_step ev s)" using assms
    by (cases "sy_accept s"; cases ev)
      (simp_all add: accept_step_def ants_Submit_def place_inv_def places_def Let_def mset_upt_Suc del: mset_upt upt_Suc)
  show "place_inv (queue_step b s)" using assms
    by (cases "sy_proc s"; cases "sy_queue s")
      (auto simp: queue_step_def ants_Submit_def place_inv_def places_def add_mset_commute split: option.splits)
  have "mset (sy_running s) = add_mset c (mset (remove1 c (sy_running s)))" if "c \<in> set (sy_running s)" using that by simp
  then show "place_inv (handler_end c s)" using assms
    by (cases "c \<in> set (sy_running s)") (simp_all add: handler_end_def place_inv_def places_def del: mset_remove1)
  show "place_inv (nil_end s)" "place_inv (loop_end s)" "place_inv (metrics_end s)" using assms
    by (simp_all add: nil_end_def loop_end_def metrics_end_def place_inv_def places_def)
  show "place_inv (shutdown_step gr e s)" using assms
    by (cases "sy_shut s"; cases e) (simp_all add: shutdown_step_def shut_fail_def metrics_end_def place_inv_def places_def)
qed

text \<open>A step outside \<open>Shutdown\<close> keeps the third part: it leaves the stage alone, and what may only follow a timeout needs one.\<close>

lemma shut_inv_keep:
  assumes "shut_inv s"
    and "busy s = 0 \<Longrightarrow> s' = s \<or> busy s' = 0"
    and "sy_shut s' = sy_shut s" "sy_timedout s' = sy_timedout s" "sy_queueClosed s' = sy_queueClosed s"
    and "sy_panic s' \<or> 0 < sy_nils s' \<or> 0 < sy_extra s' \<or> sy_proc s' = QSubmit None \<Longrightarrow>
      sy_panic s \<or> 0 < sy_nils s \<or> 0 < sy_extra s \<or> sy_proc s = QSubmit None \<or> sy_queueClosed s \<and> busy s \<noteq> 0"
  shows "shut_inv s'"
  using assms unfolding shut_inv_def waited_def by metis

lemma shut_inv_loops:
  assumes "shut_inv s"
  shows "shut_inv (accept_step ev s)" "shut_inv (queue_step b s)" "shut_inv (handler_end c s)" "shut_inv (nil_end s)"
    "shut_inv (loop_end s)" "shut_inv (metrics_end s)"
proof -
  show "shut_inv (accept_step ev s)"
    by (rule shut_inv_keep [OF assms]; cases "sy_accept s"; cases ev)
      (auto simp: accept_step_def ants_Submit_def Let_def busy_0 split: if_splits)
  show "shut_inv (queue_step b s)"
    by (rule shut_inv_keep [OF assms]; cases "sy_proc s"; cases "sy_queue s")
      (auto simp: queue_step_def ants_Submit_def busy_0 split: option.splits if_splits)
  show "shut_inv (handler_end c s)" by (rule shut_inv_keep [OF assms]) (auto simp: handler_end_def busy_0 split: if_splits)
  show "shut_inv (nil_end s)" by (rule shut_inv_keep [OF assms]) (auto simp: nil_end_def busy_def split: if_splits)
  show "shut_inv (loop_end s)" by (rule shut_inv_keep [OF assms]) (auto simp: loop_end_def busy_0 split: if_splits)
  show "shut_inv (metrics_end s)" by (rule shut_inv_keep [OF assms]) (auto simp: metrics_end_def busy_0 split: if_splits)
qed

lemma shut_inv_shutdown:
  assumes "shut_inv s" and "count_inv s"
  shows "shut_inv (shutdown_step gr e s)"
proof -
  have b: "busy (s\<lparr>sy_shut := x\<rparr>) = busy s" "busy (s\<lparr>sy_queueClosed := y\<rparr>) = busy s" "busy (s\<lparr>sy_released := y\<rparr>) = busy s"
      "busy (s\<lparr>sy_timedout := y\<rparr>) = busy s" "busy (s\<lparr>sy_draining := y\<rparr>) = busy s" "busy (s\<lparr>sy_cancelled := y\<rparr>) = busy s"
      "busy (s\<lparr>sy_listening := y\<rparr>) = busy s" "busy (s\<lparr>sy_result := z\<rparr>) = busy s"
      "busy (s\<lparr>sy_metrics := False\<rparr>) \<le> busy s" "busy (s\<lparr>sy_wg := w\<rparr>) = busy s" for s x y z w
    by (simp_all add: busy_def)
  have m: "busy (s\<lparr>sy_metrics := False\<rparr>) = 0" if "busy s = 0" using b(9) [of s] that by simp
  show ?thesis using assms
    by (cases "sy_shut s"; cases e) (auto simp: shutdown_step_def shut_fail_def shut_inv_def waited_def count_inv_def metrics_end_def b m)
qed

lemma sys_inv_start:
  assumes "Start loaded None g = (Ok (), g', s)"
  shows "sys_inv s"
  using assms by (auto simp: Start_defs sys_inv_def count_inv_def place_inv_def shut_inv_def busy_def places_def waited_def Let_def
      split: prod.splits option.splits res.splits if_splits)

lemma sys_reachable_inv: "sys_reachable ok g s \<Longrightarrow> sys_inv s"
proof (induction rule: sys_reachable.induct)
  case (sys_start loaded g' s)
  then show ?case by (rule sys_inv_start)
next
  case (sys_more s s')
  from sys_more.hyps(2) sys_more.IH show ?case
    by (cases rule: sys_step.cases)
      (auto simp: sys_inv_def intro: count_inv_steps place_inv_steps shut_inv_loops shut_inv_shutdown)
qed

text \<open>The sizes of the pool and of the queue do not change.\<close>

lemma sys_step_sizes: "sys_step ok s s' \<Longrightarrow> sy_capacity s' = sy_capacity s \<and> sy_queueCap s' = sy_queueCap s"
proof (induction rule: sys_step.induct)
  case (step_accept s ev)
  show ?case by (cases "sy_accept s"; cases ev) (simp_all add: accept_step_def ants_Submit_def Let_def)
next
  case (step_queue s b)
  show ?case by (cases "sy_proc s"; cases "sy_queue s") (simp_all add: queue_step_def ants_Submit_def split: option.split)
next
  case (step_shutdown s gr e)
  show ?case by (cases "sy_shut s"; cases e) (simp_all add: shutdown_step_def shut_fail_def metrics_end_def)
qed (simp_all add: handler_end_def nil_end_def loop_end_def metrics_end_def)

lemma sys_reachable_sizes: "sys_reachable ok g s \<Longrightarrow> sy_capacity s = (if g_maxGoroutines g < 0 then None else Some (nat (g_maxGoroutines g))) \<and> sy_queueCap s = g_queueSize g"
proof (induction rule: sys_reachable.induct)
  case (sys_start loaded g' s)
  then show ?case by (auto simp: Start_defs Let_def split: prod.splits option.splits res.splits if_splits)
qed (simp add: sys_step_sizes)

text \<open>
  While the metrics server runs it is counted, and \<open>Shutdown\<close> stops it after the wait only.
\<close>

definition metrics_inv :: "system \<Rightarrow> bool" where
  "metrics_inv s \<longleftrightarrow> (if waited s then sy_timedout s else sy_metrics s)"

lemma metrics_inv_step:
  assumes "sys_step True s s'" "metrics_inv s" "sys_inv s"
  shows "metrics_inv s'"
  using assms(1)
proof (cases rule: sys_step.cases)
  case (step_accept ev)
  then show ?thesis using assms(2)
    by (cases "sy_accept s"; cases ev) (simp_all add: accept_step_def ants_Submit_def Let_def metrics_inv_def waited_def)
next
  case (step_queue b)
  then show ?thesis using assms(2)
    by (cases "sy_proc s"; cases "sy_queue s") (simp_all add: queue_step_def ants_Submit_def metrics_inv_def waited_def split: option.split)
next
  case (step_shutdown gr e)
  have "sy_wg s \<noteq> 0" if "\<not> waited s"
    using that assms(2,3) by (auto simp: metrics_inv_def sys_inv_def count_inv_def shut_inv_def busy_def)
  then show ?thesis using step_shutdown assms(2)
    by (cases "sy_shut s"; cases e) (simp_all add: shutdown_step_def shut_fail_def metrics_end_def metrics_inv_def waited_def)
qed (use assms(2) in \<open>auto simp: handler_end_def nil_end_def loop_end_def metrics_inv_def waited_def\<close>)

lemma metrics_inv_reachable: "sys_reachable True g s \<Longrightarrow> metrics_inv s"
proof (induction rule: sys_reachable.induct)
  case (sys_start loaded g' s)
  then show ?case by (auto simp: Start_defs metrics_inv_def waited_def Let_def split: prod.splits option.splits res.splits if_splits)
next
  case (sys_more s s')
  then show ?case using metrics_inv_step sys_reachable_inv by blast
qed

text \<open>The flags of the shutdown follow its stage.\<close>

definition stage_inv :: "system \<Rightarrow> bool" where
  "stage_inv s \<longleftrightarrow> (sy_draining s \<longleftrightarrow> sy_shut s \<noteq> Serving) \<and> (sy_listening s \<longleftrightarrow> sy_shut s \<in> {Serving, Draining, Cancelled})"

lemma stage_inv_step: "sys_step ok s s' \<Longrightarrow> stage_inv s \<Longrightarrow> stage_inv s'"
proof (induction rule: sys_step.induct)
  case (step_accept s ev)
  then show ?case by (cases "sy_accept s"; cases ev) (simp_all add: accept_step_def ants_Submit_def Let_def stage_inv_def)
next
  case (step_queue s b)
  then show ?case by (cases "sy_proc s"; cases "sy_queue s") (simp_all add: queue_step_def ants_Submit_def stage_inv_def split: option.split)
next
  case (step_shutdown s gr e)
  then show ?case by (cases "sy_shut s"; cases e) (simp_all add: shutdown_step_def shut_fail_def metrics_end_def stage_inv_def)
qed (simp_all add: handler_end_def nil_end_def loop_end_def metrics_end_def stage_inv_def)

lemma stage_inv_reachable: "sys_reachable ok g s \<Longrightarrow> stage_inv s"
proof (induction rule: sys_reachable.induct)
  case (sys_start loaded g' s)
  then show ?case by (auto simp: Start_defs stage_inv_def Let_def split: prod.splits option.splits res.splits if_splits)
qed (rule stage_inv_step)

text \<open>Without a listener no step takes a new connection.\<close>

lemma sys_step_no_accept: "sys_step ok s s' \<Longrightarrow> \<not> sy_listening s \<Longrightarrow> sy_next s' = sy_next s"
proof (induction rule: sys_step.induct)
  case (step_accept s ev)
  then show ?case by (cases "sy_accept s"; cases ev) (simp_all add: accept_step_def ants_Submit_def Let_def)
next
  case (step_queue s b)
  then show ?case by (cases "sy_proc s"; cases "sy_queue s") (simp_all add: queue_step_def ants_Submit_def split: option.split)
next
  case (step_shutdown s gr e)
  then show ?case by (cases "sy_shut s"; cases e) (simp_all add: shutdown_step_def shut_fail_def metrics_end_def)
qed (simp_all add: handler_end_def nil_end_def loop_end_def metrics_end_def)

text \<open>One connection of the queue takes two steps of its processor.\<close>

lemma queue_step_twice:
  assumes "sy_proc s = QSelect" "\<not> sy_cancelled s" "\<not> sy_released s" "sy_queue s = c # cs"
  shows "queue_step b (queue_step b' s) =
    (if pool_full s then s\<lparr>sy_queue := cs, sy_closed := sy_closed s @ [c], sy_wg := sy_wg s - 1\<rparr>
     else s\<lparr>sy_queue := cs, sy_running := sy_running s @ [c]\<rparr>)"
  using assms by (cases s) (simp add: queue_step_def ants_Submit_def pool_full_def split: option.split)

lemma queue_rounds:
  assumes "sy_proc s = QSelect" "\<not> sy_cancelled s" "\<not> sy_released s" "sy_capacity s = Some n"
    and "length (sy_running s) + sy_nils s \<le> n"
  shows "(queue_step b ^^ (2 * length (sy_queue s))) s =
    s\<lparr>sy_queue := [], sy_running := sy_running s @ take (n - (length (sy_running s) + sy_nils s)) (sy_queue s),
      sy_closed := sy_closed s @ drop (n - (length (sy_running s) + sy_nils s)) (sy_queue s),
      sy_wg := sy_wg s - int (length (drop (n - (length (sy_running s) + sy_nils s)) (sy_queue s)))\<rparr>"
  using assms
proof (induction "sy_queue s" arbitrary: s)
  case Nil
  then show ?case by simp
next
  case (Cons c cs)
  let ?s = "queue_step b (queue_step b s)"
  have "(queue_step b ^^ (2 * length (sy_queue s))) s = (queue_step b ^^ (2 * length cs)) ?s"
    using Cons.hyps(2) [symmetric] by (simp add: funpow_swap1)
  moreover have s: "?s = (if pool_full s then s\<lparr>sy_queue := cs, sy_closed := sy_closed s @ [c], sy_wg := sy_wg s - 1\<rparr>
     else s\<lparr>sy_queue := cs, sy_running := sy_running s @ [c]\<rparr>)"
    using Cons.prems Cons.hyps(2) [symmetric] by (intro queue_step_twice)
  ultimately show ?case using Cons.hyps(1) [of ?s] Cons.hyps(2) [symmetric] Cons.prems
    by (cases "pool_full s") (simp_all add: pool_full_def take_Cons' drop_Cons')
qed

section \<open>A gateway with one worker\<close>

definition life_config :: Config where
  "life_config = setDefaults (zero_config\<lparr>ConnectionPool := (ConnectionPool zero_config)\<lparr>MaxGoroutines := 1\<rparr>\<rparr>)"

definition life_gateway :: Gateway where
  "life_gateway =
     (case New \<lparr>se_ping = None, se_ants = None, se_numCPU = 4, se_POD_NAME = [], se_NODE_IP = [], se_now = 0, se_ms = 0\<rparr> life_config ''pod'' of
        Ok g \<Rightarrow> g | _ \<Rightarrow> undefined)"

definition life_start :: system where
  "life_start = \<lparr>sy_wg = 6, sy_running = [], sy_nils = 0, sy_extra = 0, sy_capacity = Some 1, sy_queue = [], sy_queueCap = 1000,
     sy_queueClosed = False, sy_released = False, sy_closed = [], sy_handled = [], sy_next = 0, sy_accept = ASelect, sy_proc = QSelect,
     sy_loops = 3, sy_metrics = True, sy_draining = False, sy_listening = True, sy_cancelled = False, sy_shut = Serving,
     sy_timedout = False, sy_result = None, sy_panic = False\<rparr>"

lemma life_config_fields:
  "MaxGoroutines (ConnectionPool life_config) = 1" "ConnectionQueueSize (ConnectionPool life_config) = 1000" "\<not> Enabled (Consul life_config)"
  by code_simp+

lemma life_gateway_fields:
  "\<not> Enabled (Consul (g_config life_gateway))" "g_maxGoroutines life_gateway = 1" "g_queueSize life_gateway = 1000"
  by (simp_all add: life_gateway_def New_def Let_def life_config_fields)

lemma life_reachable: "sys_reachable ok life_gateway life_start"
  by (rule sys_start [of "Ok []"])
    (simp add: Start_defs loadConfigFromRedis_def Let_def life_gateway_fields life_start_def)

lemma life_waiting: "sys_reachable ok life_gateway (life_start\<lparr>sy_draining := True, sy_cancelled := True, sy_listening := False, sy_shut := Waiting\<rparr>)"
proof -
  let ?f = "shutdown_step False Goes"
  have "sys_reachable ok life_gateway (?f (?f (?f life_start)))"
    by (intro sys_more [OF _ step_shutdown] life_reachable) (simp_all add: shutdown_step_def life_start_def)
  then show ?thesis by (simp add: shutdown_step_def life_start_def)
qed

lemma life_timeout: "sys_reachable ok life_gateway
    (life_start\<lparr>sy_draining := True, sy_cancelled := True, sy_listening := False, sy_shut := CloseGrpc, sy_timedout := True\<rparr>)"
  using sys_more [OF life_waiting step_shutdown, of ok False Expired] by (simp add: shutdown_step_def life_start_def)

section \<open>Properties\<close>





text \<open>
  Shutdown is safe unless it timed out: when the wait ended because the counter was zero, every
  connection ever accepted is closed or handled and no goroutine of the gateway is left, so closing the
  queue and the pools disturbs nobody; and the process panics on the closed queue only after a timeout.
\<close>

theorem shutdown_without_timeout:
  assumes "sys_reachable ok g s" and "\<not> sy_timedout s"
  shows "\<not> sy_panic s \<and>
    (waited s \<longrightarrow> sy_running s = [] \<and> sy_queue s = [] \<and> sy_accept s = ADone \<and> sy_proc s = QDone \<and> sy_loops s = 0 \<and>
      mset (sy_closed s @ sy_handled s) = mset [0..<sy_next s])"
proof -
  have inv: "place_inv s" "shut_inv s" using sys_reachable_inv [OF assms(1)] by (simp_all add: sys_inv_def)
  have "mset (sy_closed s @ sy_handled s) = mset [0..<sy_next s]" if "busy s = 0"
    using inv(1) that by (simp add: place_inv_def places_def busy_0)
  then show ?thesis using inv(2) assms(2) by (auto simp: shut_inv_def busy_0 simp del: mset_append mset_upt)
qed

theorem shutdown_without_timeout_witness: "sys_reachable False life_gateway life_start \<and> \<not> sy_panic life_start"
  using shutdown_without_timeout [OF life_reachable [of False]] life_reachable [of False] by (simp add: life_start_def)

text \<open>
  Draining: from the moment the listener is closed no step of any goroutine takes a new
  connection, the readiness probe answers 503 in every state of the shutdown, and the liveness probe goes on answering 200.
\<close>

theorem drain_accepts_nothing:
  assumes "sys_reachable ok g s" and "sys_step ok s s'" and "sy_shut s \<notin> {Serving, Draining, Cancelled}"
  shows "sy_next s' = sy_next s \<and> metrics_mux ''/ready'' s = Some (503, ''Draining'') \<and> metrics_mux ''/health'' s = Some (200, ''OK'')"
  using stage_inv_reachable [OF assms(1)] sys_step_no_accept [OF assms(2)] assms(3)
  by (auto simp: stage_inv_def metrics_mux_def readyHandler_def healthHandler_def)

theorem drain_accepts_nothing_witness:
  "\<exists>s. sys_reachable True life_gateway s \<and> sy_next (accept_step (AcceptConn True) s) = sy_next s"
proof -
  let ?s = "life_start\<lparr>sy_draining := True, sy_cancelled := True, sy_listening := False, sy_shut := Waiting\<rparr>"
  have "sys_step True ?s (accept_step (AcceptConn True) ?s)" by (rule step_accept) (simp add: life_start_def)
  moreover have "sy_shut ?s \<notin> {Serving, Draining, Cancelled}" by simp
  ultimately show ?thesis using drain_accepts_nothing [OF life_waiting [of True]] life_waiting [of True] by blast
qed

text \<open>
  The queue does not hold connections back for a worker: the processor hands the first of them to
  the workers that are free at that moment and closes all others at once, in order, so that
  with all workers busy every queued connection is closed.
\<close>

theorem queue_does_not_wait:
  assumes "sy_proc s = QSelect" "\<not> sy_cancelled s" "\<not> sy_released s" "sy_capacity s = Some n"
    and "length (sy_running s) + sy_nils s + free = n"
  shows "(queue_step b ^^ (2 * length (sy_queue s))) s =
    s\<lparr>sy_queue := [], sy_running := sy_running s @ take free (sy_queue s), sy_closed := sy_closed s @ drop free (sy_queue s),
      sy_wg := sy_wg s - int (length (drop free (sy_queue s)))\<rparr>"
  using queue_rounds [OF assms(1-4), of b] assms(5) by auto

theorem queue_does_not_wait_witness:
  "(queue_step False ^^ 4) (life_start\<lparr>sy_queue := [1, 2], sy_running := [0], sy_next := 3, sy_wg := 9\<rparr>) =
     life_start\<lparr>sy_queue := [], sy_running := [0], sy_next := 3, sy_wg := 7, sy_closed := [1, 2]\<rparr>"
  using queue_does_not_wait [of "life_start\<lparr>sy_queue := [1, 2], sy_running := [0], sy_next := 3, sy_wg := 9\<rparr>" 1 0 False]
  by (simp add: life_start_def)

end
