(* ===== verification/Logger.thy ===== *)
theory Logger
  imports AccessLog
begin

text \<open>
  \<open>internal/logger/logger.go\<close>: the global logger, its levels and the loggers of a context.  The
  zap library is third-party: what the package does is the sequence of calls it makes, each
  with the logger it is made on, and which of them zap writes is decided by a parameter.
\<close>

section \<open>Levels\<close>

datatype zap_level = DebugLevel | InfoLevel | WarnLevel | ErrorLevel

primrec level_num :: "zap_level \<Rightarrow> int" where
  "level_num DebugLevel = -1" | "level_num InfoLevel = 0" | "level_num WarnLevel = 1" | "level_num ErrorLevel = 2"

lemma level_num_inj: "level_num a = level_num b \<Longrightarrow> a = b"
  by (cases a; cases b) simp_all

instantiation zap_level :: linorder
begin

definition less_eq_zap_level :: "zap_level \<Rightarrow> zap_level \<Rightarrow> bool" where
  "a \<le> b \<longleftrightarrow> level_num a \<le> level_num b"

definition less_zap_level :: "zap_level \<Rightarrow> zap_level \<Rightarrow> bool" where
  "a < b \<longleftrightarrow> level_num a < level_num b"

instance
  by standard (auto simp: less_eq_zap_level_def less_zap_level_def dest: level_num_inj)

end

text \<open>The severity numbers of OpenTelemetry.\<close>

primrec severity :: "zap_level \<Rightarrow> int" where
  "severity DebugLevel = 5" | "severity InfoLevel = 9" | "severity WarnLevel = 13" | "severity ErrorLevel = 17"

text \<open>The constants \<open>MinLogLevel\<close> and \<open>debugEnabled\<close>, \<open>infoEnabled\<close>, \<open>warnEnabled\<close>, \<open>errorEnabled\<close>.\<close>

definition MinLogLevel :: zap_level where "MinLogLevel = InfoLevel"

definition level_enabled :: "zap_level \<Rightarrow> bool" where "level_enabled lvl \<longleftrightarrow> MinLogLevel \<le> lvl"

section \<open>The global logger\<close>

record ServiceInfo =
  si_Name :: string
  si_Namespace :: string
  si_Version :: string

text \<open>A zap logger: the level of its core and the fields given to \<open>With\<close>.\<close>

record zap_logger =
  zl_core :: zap_level
  zl_with :: "zap_field list"

record zap_call =
  zc_logger :: zap_logger
  zc_level :: zap_level
  zc_msg :: string
  zc_fields :: "zap_field list"

text \<open>The variables of the package and the calls made to zap so far.\<close>

record logger_state =
  lg_L :: "zap_logger option"
  lg_serviceInfo :: ServiceInfo
  lg_initOnce :: bool
  lg_currentLevel :: zap_level
  lg_calls :: "zap_call list"

definition logger_zero :: logger_state where
  "logger_zero = \<lparr>lg_L = None, lg_serviceInfo = \<lparr>si_Name = [], si_Namespace = [], si_Version = []\<rparr>, lg_initOnce = False,
     lg_currentLevel = InfoLevel, lg_calls = []\<rparr>"

definition parse_level :: "string \<Rightarrow> zap_level" where
  "parse_level s =
     (if s = ''debug'' then DebugLevel else if s = ''info'' then InfoLevel
      else if s = ''warn'' then WarnLevel else if s = ''error'' then ErrorLevel else InfoLevel)"

text \<open>\<open>Init\<close>, with the value of \<open>POD_NAMESPACE\<close>.\<close>

definition logger_Init :: "string \<Rightarrow> string \<Rightarrow> ServiceInfo \<Rightarrow> logger_state \<Rightarrow> logger_state" where
  "logger_Init podNamespace level si st =
     (if lg_initOnce st then st
      else
        let si1 = (if si_Name si = [] then si\<lparr>si_Name := ''game-gateway''\<rparr> else si);
            si2 = (if podNamespace \<noteq> [] then si1\<lparr>si_Namespace := podNamespace\<rparr> else si1);
            zapLevel = parse_level level;
            flds = [(''service.name'', VString (si_Name si2)), (''service.namespace'', VString (si_Namespace si2))] @
              (if si_Version si2 \<noteq> [] then [(''service.version'', VString (si_Version si2))] else [])
        in st\<lparr>lg_L := Some \<lparr>zl_core = zapLevel, zl_with = flds\<rparr>, lg_serviceInfo := si2, lg_initOnce := True,
             lg_currentLevel := zapLevel\<rparr>)"

definition InitSimple :: "string \<Rightarrow> string \<Rightarrow> logger_state \<Rightarrow> logger_state" where
  "InitSimple podNamespace level = logger_Init podNamespace level \<lparr>si_Name = [], si_Namespace = [], si_Version = []\<rparr>"

definition GetServiceInfo :: "logger_state \<Rightarrow> ServiceInfo" where
  "GetServiceInfo st = lg_serviceInfo st"

definition zap_With :: "zap_field list \<Rightarrow> zap_logger \<Rightarrow> zap_logger" where
  "zap_With fs l = l\<lparr>zl_with := zl_with l @ fs\<rparr>"

text \<open>A call on a logger, \<open>None\<close> being the one of \<open>zap.NewNop\<close>.\<close>

definition zap_log :: "zap_logger option \<Rightarrow> zap_level \<Rightarrow> string \<Rightarrow> zap_field list \<Rightarrow> logger_state \<Rightarrow> logger_state" where
  "zap_log lo lvl msg fs st =
     (case lo of
        None \<Rightarrow> st
      | Some l \<Rightarrow> st\<lparr>lg_calls := lg_calls st @ [\<lparr>zc_logger = l, zc_level = lvl, zc_msg = msg, zc_fields = fs\<rparr>]\<rparr>)"

text \<open>The functions \<open>Debug\<close>, \<open>Info\<close>, \<open>Warn\<close> and \<open>Error\<close> of the package.\<close>

definition log_plain :: "zap_level \<Rightarrow> string \<Rightarrow> zap_field list \<Rightarrow> logger_state \<Rightarrow> logger_state" where
  "log_plain lvl msg fs st =
     (if \<not> level_enabled lvl then st
      else if lg_L st = None \<or> lvl < lg_currentLevel st then st
      else zap_log (lg_L st) lvl msg (fs @ [(''severity_number'', VInt (severity lvl))]) st)"

definition logger_Debug where "logger_Debug = log_plain DebugLevel"
definition logger_Info where "logger_Info = log_plain InfoLevel"
definition logger_Warn where "logger_Warn = log_plain WarnLevel"
definition logger_Error where "logger_Error = log_plain ErrorLevel"

section \<open>Loggers of a context\<close>

text \<open>\<open>span\<close> holds trace and span ID of the context when its span is valid.\<close>

definition WithContext :: "(string \<times> string) option \<Rightarrow> logger_state \<Rightarrow> zap_logger option" where
  "WithContext span st =
     (case lg_L st of
        None \<Rightarrow> None
      | Some l \<Rightarrow>
          (case span of
             None \<Rightarrow> Some l
           | Some (tid, sid) \<Rightarrow> Some (zap_With [(''trace_id'', VString tid), (''span_id'', VString sid)] l)))"

record ContextLogger =
  cl_logger :: "zap_logger option"
  cl_traceID :: string
  cl_spanID :: string

definition NewContextLogger :: "(string \<times> string) option \<Rightarrow> logger_state \<Rightarrow> ContextLogger" where
  "NewContextLogger span st =
     (case lg_L st of
        None \<Rightarrow> \<lparr>cl_logger = None, cl_traceID = [], cl_spanID = []\<rparr>
      | Some l \<Rightarrow>
          (case span of
             None \<Rightarrow> \<lparr>cl_logger = Some l, cl_traceID = [], cl_spanID = []\<rparr>
           | Some (tid, sid) \<Rightarrow>
               \<lparr>cl_logger = Some (zap_With [(''trace_id'', VString tid), (''span_id'', VString sid)] l),
                cl_traceID = tid, cl_spanID = sid\<rparr>))"

definition cl_log :: "zap_level \<Rightarrow> ContextLogger \<Rightarrow> string \<Rightarrow> zap_field list \<Rightarrow> logger_state \<Rightarrow> logger_state" where
  "cl_log lvl cl msg fs st =
     (if \<not> level_enabled lvl then st
      else zap_log (cl_logger cl) lvl msg (fs @ [(''severity_number'', VInt (severity lvl))]) st)"

definition cl_Debug where "cl_Debug = cl_log DebugLevel"
definition cl_Info where "cl_Info = cl_log InfoLevel"
definition cl_Warn where "cl_Warn = cl_log WarnLevel"
definition cl_Error where "cl_Error = cl_log ErrorLevel"

definition InfoWithTrace where "InfoWithTrace span msg fs st = cl_Info (NewContextLogger span st) msg fs st"
definition ErrorWithTrace where "ErrorWithTrace span msg fs st = cl_Error (NewContextLogger span st) msg fs st"
definition WarnWithTrace where "WarnWithTrace span msg fs st = cl_Warn (NewContextLogger span st) msg fs st"
definition DebugWithTrace where "DebugWithTrace span msg fs st = cl_Debug (NewContextLogger span st) msg fs st"

text \<open>Events carry their type and time, and are not subject to the compile-time level; \<open>err\<close> is the text of a non-nil error.\<close>

definition Event :: "(string \<times> string) option \<Rightarrow> int \<Rightarrow> string \<Rightarrow> zap_field list \<Rightarrow> logger_state \<Rightarrow> logger_state" where
  "Event span t eventType fs st =
     zap_log (cl_logger (NewContextLogger span st)) InfoLevel eventType
       (fs @ [(''event.type'', VString eventType), (''event.timestamp'', VInt t), (''severity_number'', VInt (severity InfoLevel))]) st"

definition EventError :: "(string \<times> string) option \<Rightarrow> int \<Rightarrow> string \<Rightarrow> string option \<Rightarrow> zap_field list \<Rightarrow> logger_state \<Rightarrow> logger_state" where
  "EventError span t eventType err fs st =
     zap_log (cl_logger (NewContextLogger span st)) ErrorLevel eventType
       (fs @ [(''event.type'', VString eventType), (''event.timestamp'', VInt t)] @
        (case err of None \<Rightarrow> [] | Some e \<Rightarrow> [(''error'', VString e)]) @ [(''severity_number'', VInt (severity ErrorLevel))]) st"

section \<open>What is written\<close>

text \<open>The lines zap writes, when \<open>enabled core lvl\<close> says whether a core takes a level.\<close>

definition written :: "(zap_level \<Rightarrow> zap_level \<Rightarrow> bool) \<Rightarrow> logger_state \<Rightarrow> zap_call list" where
  "written enabled st = filter (\<lambda>c. enabled (zl_core (zc_logger c)) (zc_level c)) (lg_calls st)"

text \<open>The cached level is the one of the core.\<close>

definition logger_ok :: "logger_state \<Rightarrow> bool" where
  "logger_ok st \<longleftrightarrow> (\<forall>l. lg_L st = Some l \<longrightarrow> zl_core l = lg_currentLevel st)"

inductive logger_reachable :: "logger_state \<Rightarrow> bool" where
  lr_zero: "logger_reachable logger_zero"
| lr_init: "logger_reachable st \<Longrightarrow> logger_reachable (logger_Init ns lvl si st)"
| lr_plain: "logger_reachable st \<Longrightarrow> logger_reachable (log_plain l msg fs st)"
| lr_context: "logger_reachable st \<Longrightarrow> logger_reachable (cl_log l cl msg fs st)"
| lr_event: "logger_reachable st \<Longrightarrow> logger_reachable (Event span t ty fs st)"
| lr_event_error: "logger_reachable st \<Longrightarrow> logger_reachable (EventError span t ty err fs st)"

lemma zap_log_keeps [simp]:
  "lg_L (zap_log lo l m fs st) = lg_L st" "lg_currentLevel (zap_log lo l m fs st) = lg_currentLevel st"
  by (simp_all add: zap_log_def split: option.split)

lemma logger_reachable_ok: "logger_reachable st \<Longrightarrow> logger_ok st"
  by (induction rule: logger_reachable.induct)
    (auto simp: logger_ok_def logger_zero_def logger_Init_def log_plain_def cl_log_def Event_def EventError_def Let_def)

lemma written_zap_log:
  "written enabled (zap_log lo l m fs st) =
     written enabled st @ (case lo of None \<Rightarrow> [] | Some z \<Rightarrow>
       if enabled (zl_core z) l then [\<lparr>zc_logger = z, zc_level = l, zc_msg = m, zc_fields = fs\<rparr>] else [])"
  by (simp add: written_def zap_log_def split: option.split)

text \<open>
  The functions of the package and the methods of a context logger are equivalent: under zap's
  rule that a core writes the levels at or above its own, both write the same line or none, although only the
  former test the level themselves; the line is written exactly when the level is at least the
  configured one and at least \<open>info\<close>, the level compiled in, and it ends with its severity number.
\<close>

theorem log_functions_agree:
  assumes "logger_reachable st" and enabled: "\<And>core lvl. enabled core lvl \<longleftrightarrow> core \<le> lvl"
  shows "written enabled (log_plain lvl msg fs st) = written enabled (cl_log lvl (NewContextLogger None st) msg fs st) \<and>
    written enabled (log_plain lvl msg fs st) =
      written enabled st @
        (case lg_L st of
           None \<Rightarrow> []
         | Some l \<Rightarrow> if max InfoLevel (zl_core l) \<le> lvl
             then [\<lparr>zc_logger = l, zc_level = lvl, zc_msg = msg, zc_fields = fs @ [(''severity_number'', VInt (severity lvl))]\<rparr>] else [])"
  using logger_reachable_ok [OF assms(1)]
  by (auto simp: log_plain_def cl_log_def NewContextLogger_def written_zap_log level_enabled_def MinLogLevel_def logger_ok_def enabled
      split: option.splits)

theorem log_functions_agree_witness:
  "let st = logger_Init [] ''warn'' \<lparr>si_Name = [], si_Namespace = [], si_Version = []\<rparr> logger_zero
   in written (\<le>) (logger_Warn ''m'' [] st) = written (\<le>) (cl_Warn (NewContextLogger None st) ''m'' [] st) \<and>
      length (written (\<le>) (logger_Warn ''m'' [] st)) = 1 \<and> written (\<le>) (logger_Info ''m'' [] st) = []"
proof -
  define st where "st = logger_Init [] ''warn'' \<lparr>si_Name = [], si_Namespace = [], si_Version = []\<rparr> logger_zero"
  have r: "logger_reachable st" unfolding st_def by (intro lr_init lr_zero)
  obtain l where l: "lg_L st = Some l" "zl_core l = WarnLevel" "written (\<le>) st = []"
    by (simp add: st_def logger_Init_def parse_level_def logger_zero_def written_def Let_def)
  note agree = log_functions_agree [OF r, of "(\<le>)", OF refl, of _ "''m''" "[]"]
  have "max InfoLevel WarnLevel \<le> WarnLevel" "\<not> max InfoLevel WarnLevel \<le> InfoLevel" by (simp_all add: less_eq_zap_level_def max_def)
  then have "length (written (\<le>) (log_plain WarnLevel ''m'' [] st)) = 1" "written (\<le>) (log_plain InfoLevel ''m'' [] st) = []"
    using agree [THEN conjunct2, of WarnLevel] agree [THEN conjunct2, of InfoLevel] l by simp_all
  then show ?thesis unfolding st_def [symmetric] Let_def logger_Warn_def cl_Warn_def logger_Info_def
    using agree [THEN conjunct1, of WarnLevel] by (intro conjI)
qed

end
