(* ===== verification/RedisClient.thy ===== *)
theory RedisClient
  imports Discovery
begin

text \<open>
  The rest of \<open>internal/redis/client.go\<close>: keys, the realm mapping and the two watchers, and
  \<open>onRealmMappingUpdate\<close> of \<open>internal/gateway/gateway.go\<close>.  The answers of Redis are inputs; keys
  of the realm hash are ASCII.
\<close>

section \<open>Keys and the realm mapping\<close>

record redis_client = rc_prefix :: string

definition NewClient :: "RedisConfig \<Rightarrow> redis_client" where
  "NewClient cfg = \<lparr>rc_prefix = KeyPrefix cfg\<rparr>"

definition redis_key :: "redis_client \<Rightarrow> string \<Rightarrow> string" where
  "redis_key c key = rc_prefix c @ key"

text \<open>
  \<open>fmt.Sscanf(s, "%d", &x)\<close> for a 32-bit \<open>x\<close>: blanks are skipped and a newline among them is an
  error; then an optional sign and at least one digit; what follows the digits is not looked at.
\<close>

fun skip_space :: "string \<Rightarrow> string option" where
  "skip_space [] = Some []"
| "skip_space (c # cs) =
     (if c = CHR 0x0A then None
      else if (of_char c :: nat) \<in> {9, 11, 12, 13, 32} then skip_space cs
      else Some (c # cs))"

definition Sscanf_d :: "string \<Rightarrow> int option" where
  "Sscanf_d s =
     (case skip_space s of
        None \<Rightarrow> None
      | Some t \<Rightarrow>
          let (sign, ds) = (case t of
                 c # cs \<Rightarrow> if c = CHR ''-'' \<or> c = CHR ''+'' then ([c], cs) else ([], t)
               | [] \<Rightarrow> ([], []))
          in (case Atoi (sign @ takeWhile is_digit ds) of
                None \<Rightarrow> None
              | Some i \<Rightarrow> if - (2 ^ 31) \<le> i \<and> i < 2 ^ 31 then Some i else None))"

type_synonym realm_map = "(int, string) gomap"

fun realm_entries :: "(string \<times> string) list \<Rightarrow> realm_map \<Rightarrow> realm_map" where
  "realm_entries [] mapping = mapping"
| "realm_entries ((realmIDStr, address) # data) mapping =
     (case Sscanf_d realmIDStr of
        None \<Rightarrow> realm_entries data mapping
      | Some realmID \<Rightarrow> realm_entries data (gomap_put realmID address mapping))"

text \<open>\<open>LoadRealmMapping\<close>, with the hash in the order Go walks through it.\<close>

definition LoadRealmMapping :: "(string \<times> string) list res \<Rightarrow> realm_map res" where
  "LoadRealmMapping reply =
     (case reply of
        Err err \<Rightarrow> Err (Errorf ''failed to load realm mapping: '' (Some err))
      | Ok data \<Rightarrow> Ok (realm_entries data [])
      | Panic m \<Rightarrow> Panic m)"

text \<open>The callback of the gateway only counts: failed and successful refreshes.\<close>

record refresh_counts =
  ConfigRefreshErrors :: nat
  ConfigRefreshSuccess :: nat

definition onRealmMappingUpdate :: "realm_map option \<Rightarrow> refresh_counts \<Rightarrow> refresh_counts" where
  "onRealmMappingUpdate mapping m =
     (case mapping of
        None \<Rightarrow> m\<lparr>ConfigRefreshErrors := ConfigRefreshErrors m + 1\<rparr>
      | Some _ \<Rightarrow> m\<lparr>ConfigRefreshSuccess := ConfigRefreshSuccess m + 1\<rparr>)"

section \<open>Watchers\<close>

text \<open>
  The messages of the subscription until the context is done, each with the load it triggers;
  \<open>None\<close> is the nil message of a closed subscription.  A load that fails is skipped.
\<close>

fun WatchRoutingRules :: "(redis_rules option \<Rightarrow> 's \<Rightarrow> 's) \<Rightarrow> redis_rules option res option list \<Rightarrow> 's \<Rightarrow> 's res" where
  "WatchRoutingRules callback [] s = Ok s"
| "WatchRoutingRules callback (None # msgs) s = WatchRoutingRules callback msgs s"
| "WatchRoutingRules callback (Some (Ok rs) # msgs) s = WatchRoutingRules callback msgs (callback rs s)"
| "WatchRoutingRules callback (Some (Err err) # msgs) s = WatchRoutingRules callback msgs s"
| "WatchRoutingRules callback (Some (Panic m) # msgs) s = Panic m"

fun WatchRealmMapping :: "(realm_map \<Rightarrow> 's \<Rightarrow> 's) \<Rightarrow> realm_map res option list \<Rightarrow> 's \<Rightarrow> 's res" where
  "WatchRealmMapping callback [] s = Ok s"
| "WatchRealmMapping callback (None # msgs) s = WatchRealmMapping callback msgs s"
| "WatchRealmMapping callback (Some (Ok mp) # msgs) s = WatchRealmMapping callback msgs (callback mp s)"
| "WatchRealmMapping callback (Some (Err err) # msgs) s = WatchRealmMapping callback msgs s"
| "WatchRealmMapping callback (Some (Panic m) # msgs) s = Panic m"

section \<open>The realm mapping is read back\<close>

lemma skip_space_dec_int: "skip_space (dec_int i) = Some (dec_int i)"
proof -
  have d: "skip_space (c # cs) = Some (c # cs)" if "is_digit c" for c cs
    using that by (auto simp: is_digit_def Let_def)
  obtain c cs where n: "dec_nat (nat i) = c # cs" by (cases "dec_nat (nat i)") auto
  then have "is_digit c" using dec_nat_digits [of "nat i"] by simp
  then show ?thesis using d n by (simp add: dec_int_def)
qed

lemma takeWhile_digits: "takeWhile is_digit (dec_nat n) = dec_nat n"
  using dec_nat_digits [of n] by (simp add: takeWhile_eq_all_conv list_all_iff)

lemma Sscanf_dec_int:
  assumes "- (2 ^ 31) \<le> i" "i < 2 ^ 31"
  shows "Sscanf_d (dec_int i) = Some i"
proof -
  have a: "Atoi (dec_int i) = Some i" using assms by (intro Atoi_dec_int) auto
  show ?thesis
  proof (cases "i < 0")
    case True
    then show ?thesis using a assms skip_space_dec_int [of i] by (simp add: Sscanf_d_def dec_int_def takeWhile_digits)
  next
    case False
    obtain c cs where n: "dec_nat (nat i) = c # cs" by (cases "dec_nat (nat i)") auto
    then have "c \<noteq> CHR ''-''" "c \<noteq> CHR ''+''" using dec_nat_first by blast+
    moreover have tw: "is_digit c" "takeWhile is_digit cs = cs" using takeWhile_digits [of "nat i"] n by (simp_all split: if_splits)
    ultimately show ?thesis using a assms False n skip_space_dec_int [of i]
      by (simp add: Sscanf_d_def dec_int_def tw)
  qed
qed

lemma realm_entries_get:
  "gomap_get (realm_entries data mapping) n =
     (case map_of (rev [(i, a). (k, a) \<leftarrow> data, i \<leftarrow> (case Sscanf_d k of None \<Rightarrow> [] | Some i \<Rightarrow> [i])]) n of
        Some a \<Rightarrow> Some a | None \<Rightarrow> gomap_get mapping n)"
proof (induction data mapping rule: realm_entries.induct)
  case (2 k a data mapping)
  then show ?case by (cases "Sscanf_d k") (auto simp: map_add_def split: option.splits)
qed simp

text \<open>
  The realm mapping that was stored is loaded: the hash of a table of realm IDs in decimal
  form, in any order and among any entries with other keys, gives the table.
\<close>

theorem LoadRealmMapping_roundtrip:
  assumes "distinct (map fst table)" and "\<forall>(i, a) \<in> set table. - (2 ^ 31) \<le> i \<and> i < 2 ^ 31"
    and "set data = (\<lambda>(i, a). (dec_int i, a)) ` set table \<union> others" and "\<forall>(k, a) \<in> others. Sscanf_d k = None"
  shows "\<exists>mapping. LoadRealmMapping (Ok data) = Ok mapping \<and> gomap_get mapping = map_of table"
proof (intro exI conjI ext)
  show "LoadRealmMapping (Ok data) = Ok (realm_entries data [])" by (simp add: LoadRealmMapping_def)
  fix n
  define kept where "kept = rev [(i, a). (k, a) \<leftarrow> data, i \<leftarrow> (case Sscanf_d k of None \<Rightarrow> [] | Some i \<Rightarrow> [i])]"
  have "set kept = {(i, a). \<exists>k. (k, a) \<in> set data \<and> Sscanf_d k = Some i}" by (auto simp: kept_def split: option.splits)
  also have "\<dots> = set table"
    unfolding assms(3) using assms(2,4) Sscanf_dec_int by fastforce
  finally have s: "set kept = set table" .
  have "map_of kept n = map_of table n"
  proof (cases "map_of kept n")
    case None
    then have "map_of table n = None" by (simp add: map_of_eq_None_iff s)
    then show ?thesis using None by simp
  next
    case (Some a)
    then have "(n, a) \<in> set table" using s by (auto dest: map_of_SomeD)
    then show ?thesis using Some assms(1) by simp
  qed
  then show "gomap_get (realm_entries data []) n = map_of table n"
    unfolding realm_entries_get kept_def [symmetric] by (simp split: option.split)
qed

end
