(* ===== verification/Process.thy ===== *)
theory Process
  imports Lifecycle Logger RedisClient
begin

text \<open>
  \<open>cmd/gateway/main.go\<close> and \<open>internal/tracing/tracing.go\<close>: from the command line to a running
  gateway.  Environment variables, the file system, the YAML decoder, Redis, the listener and
  the OpenTelemetry exporter are inputs.
\<close>

section \<open>Tracing\<close>

datatype otel_attr = ServiceNameAttr string | ServiceVersion string | ServiceInstanceID string | ServiceNamespace string | K8SNodeName string

text \<open>\<open>tracerProvider\<close> and \<open>Tracer\<close>: nil, or the attributes of the resource and the name of the tracer.\<close>

record tracing_state =
  tr_provider :: "otel_attr list option"
  tr_Tracer :: "string option"

record tracing_env =
  te_exporter :: "go_error option"
  te_POD_NAME :: string
  te_POD_NAMESPACE :: string
  te_NODE_NAME :: string
  te_merge :: "go_error option"

definition tracing_Init :: "tracing_env \<Rightarrow> string \<Rightarrow> string \<Rightarrow> string \<Rightarrow> tracing_state \<Rightarrow> go_error option \<times> tracing_state" where
  "tracing_Init env serviceName serviceVersion endpoint st =
     (if endpoint = [] then (None, st)
      else
        case te_exporter env of
          Some err \<Rightarrow> (Some (Errorf ''failed to create OTLP exporter: '' (Some err)), st)
        | None \<Rightarrow>
            let base = [ServiceNameAttr serviceName, ServiceVersion serviceVersion];
                attrs = base @ (if te_POD_NAME env \<noteq> [] then [ServiceInstanceID (te_POD_NAME env)] else []) @
                  (if te_POD_NAMESPACE env \<noteq> [] then [ServiceNamespace (te_POD_NAMESPACE env)] else []) @
                  (if te_NODE_NAME env \<noteq> [] then [K8SNodeName (te_NODE_NAME env)] else []);
                res = (if te_merge env = None then attrs else base)
            in (None, st\<lparr>tr_provider := Some res, tr_Tracer := Some serviceName\<rparr>))"

text \<open>\<open>StartSpan\<close>: the context is left alone without a tracer; \<open>start\<close> is \<open>Tracer.Start\<close>, \<open>current\<close> is \<open>trace.SpanFromContext\<close>.\<close>

definition StartSpan :: "(string \<Rightarrow> 'ctx \<Rightarrow> string \<Rightarrow> 'ctx \<times> 'span) \<Rightarrow> ('ctx \<Rightarrow> 'span) \<Rightarrow> tracing_state \<Rightarrow> 'ctx \<Rightarrow> string \<Rightarrow> 'ctx \<times> 'span" where
  "StartSpan start cur st ctx name = (case tr_Tracer st of None \<Rightarrow> (ctx, cur ctx) | Some t \<Rightarrow> start t ctx name)"

definition tracing_Shutdown :: "(otel_attr list \<Rightarrow> go_error option) \<Rightarrow> tracing_state \<Rightarrow> go_error option" where
  "tracing_Shutdown shut st = (case tr_provider st of None \<Rightarrow> None | Some p \<Rightarrow> shut p)"

section \<open>Start of the process\<close>

record main_env =
  me_config :: string
  me_POD_NAME :: string
  me_hostname :: string
  me_POD_NAMESPACE :: string
  me_LOG_LEVEL :: string
  me_version :: string
  me_buildTime :: string
  me_gitCommit :: string
  me_OTEL :: string
  me_ReadFile :: "string \<Rightarrow> string res"
  me_Unmarshal :: "string \<Rightarrow> Config res"
  me_start :: start_env
  me_rules :: "redis_rules res"
  me_listen :: "go_error option"
  me_tracing :: tracing_env

record running =
  rn_gw :: Gateway
  rn_sys :: system
  rn_log :: logger_state
  rn_tracing :: tracing_state
  rn_podName :: string

text \<open>\<open>Fatal\<close> logs its message and exits with status 1; a panic ends the process.\<close>

datatype main_out = Fatal string go_error | Dies string | Serves running

definition main :: "main_env \<Rightarrow> main_out" where
  "main env =
     (let podName = (if me_POD_NAME env = [] then me_hostname env else me_POD_NAME env);
          logLevel = (if me_LOG_LEVEL env = [] then ''info'' else me_LOG_LEVEL env);
          log1 = logger_Init (me_POD_NAMESPACE env) logLevel
            \<lparr>si_Name = ''game-gateway'', si_Namespace = [], si_Version = me_version env\<rparr> logger_zero;
          no_tracing = \<lparr>tr_provider = None, tr_Tracer = None\<rparr>
      in case Load (me_ReadFile env) (me_Unmarshal env) (me_config env) of
           Err err \<Rightarrow> Fatal ''Failed to load configuration'' err
         | Panic m \<Rightarrow> Dies m
         | Ok cfg \<Rightarrow>
             (case New (me_start env) cfg podName of
                Err err \<Rightarrow> Fatal ''Failed to create gateway'' err
              | Panic m \<Rightarrow> Dies m
              | Ok gw \<Rightarrow>
                  (case Start (me_rules env) (me_listen env) gw of
                     (Err err, _) \<Rightarrow> Fatal ''Failed to start gateway'' err
                   | (Panic m, _) \<Rightarrow> Dies m
                   | (Ok _, gw', s) \<Rightarrow>
                       let (terr, tr) = (if me_OTEL env \<noteq> []
                              then tracing_Init (me_tracing env) ''game-gateway'' (me_version env) (me_OTEL env) no_tracing
                              else (None, no_tracing));
                           log2 = (if me_OTEL env = [] then log1
                              else if terr \<noteq> None then logger_Warn ''Failed to initialize tracing'' [(''error'', VString (error_text (the terr)))] log1
                              else logger_Info ''Tracing initialized (OTLP)'' [(''endpoint'', VString (me_OTEL env))] log1);
                           log3 = logger_Info ''Game Gateway started successfully''
                             [(''version'', VString (me_version env)), (''build_time'', VString (me_buildTime env)),
                              (''git_commit'', VString (me_gitCommit env)), (''pod'', VString podName)] log2
                       in Serves \<lparr>rn_gw = gw', rn_sys = s, rn_log = log3, rn_tracing = tr, rn_podName = podName\<rparr>)))"

text \<open>
  After the signal: \<open>stopped\<close> is what \<open>Shutdown\<close> of the gateway returned and \<open>shut\<close> the shutdown of the tracer
  provider.
\<close>

definition main_stop :: "unit res \<Rightarrow> (otel_attr list \<Rightarrow> go_error option) \<Rightarrow> running \<Rightarrow> running" where
  "main_stop stopped shut r =
     (let field = (\<lambda>err. [(''error'', VString (error_text err))]);
          log1 = logger_Info ''Received stop signal, starting graceful shutdown...'' [] (rn_log r);
          log2 = (case stopped of Err err \<Rightarrow> logger_Error ''Error during gateway shutdown'' (field err) log1 | _ \<Rightarrow> log1);
          log3 = (case tracing_Shutdown shut (rn_tracing r) of
                    None \<Rightarrow> log2
                  | Some err \<Rightarrow>
                      if err \<noteq> ErrDeadlineExceeded then logger_Warn ''Error during tracing shutdown'' (field err) log2
                      else logger_Debug ''Tracing shutdown timed out (non-critical)'' (field err) log2)
      in r\<lparr>rn_log := logger_Info ''Game Gateway closed'' [] log3\<rparr>)"

section \<open>A process that serves\<close>

lemma store_configs_nil_rule:
  assumes "(k, None) \<in> set rs"
  shows "\<exists>m. store_configs rs configs = Panic m"
  using assms by (induction rs configs rule: store_configs.induct) auto

lemma store_configs_ok:
  assumes "\<forall>(k, r) \<in> set rs. r \<noteq> None"
  shows "\<exists>c. store_configs rs configs = Ok c"
  using assms by (induction rs configs rule: store_configs.induct) auto

lemma store_configs_no_err: "store_configs rs configs \<noteq> Err e"
  by (induction rs configs rule: store_configs.induct) auto

lemma Start_ok_iff:
  "(\<exists>g' s. Start loaded listen g = (Ok (), g', s)) \<longleftrightarrow>
     listen = None \<and> (\<exists>rs. loaded = Ok rs \<and> (\<forall>(k, r) \<in> set rs. r \<noteq> None))"
proof (cases loaded)
  case (Ok rs)
  show ?thesis
  proof (cases "\<forall>(k, r) \<in> set rs. r \<noteq> None")
    case True
    then show ?thesis using Ok store_configs_ok [OF True, of "routingConfigs (g_routing g)"]
      by (cases listen) (auto simp: Start_defs loadConfigFromRedis_def Let_def)
  next
    case False
    then obtain k where "(k, None) \<in> set rs" by auto
    then obtain m where "store_configs rs (routingConfigs (g_routing g)) = Panic m" using store_configs_nil_rule by blast
    then show ?thesis using Ok False by (auto simp: Start_defs loadConfigFromRedis_def Let_def)
  qed
qed (simp_all add: Start_def loadConfigFromRedis_def Let_def)

lemma Start_keeps:
  assumes "Start loaded None g = (Ok (), g', s)"
  shows "g_conf g' = g_conf g" "g_sessions g' = g_sessions g" "g_pools g' = g_pools g" "g_grpc g' = g_grpc g" "alg_once (g_access g')"
    "sy_accept s = ASelect" "sy_proc s = QSelect" "sy_listening s" "\<not> sy_draining s"
  using assms by (auto simp: Start_defs InitAccessLogger_def Let_def split: prod.splits option.splits res.splits if_splits)

lemma New_ok_iff:
  "(\<exists>g. New env cfg pod = Ok g) \<longleftrightarrow> se_ping env = None \<and> se_ants env = None \<and> 0 \<le> ConnectionQueueSize (ConnectionPool cfg)"
  by (auto simp: New_def Let_def split: option.splits)

lemma New_fields:
  assumes "New env cfg pod = Ok g"
  shows "g_config g = cfg" "gw_rateLimiter (g_conf g) = NewLimiter (cp_MaxConnections (ConnectionPool cfg))" "g_sessions g = NewManager"
    "g_pools g = NewPoolManager (ConnectionPool cfg)" "(g_grpc g \<noteq> None) = UseGrpc (Server cfg)"
  using assms by (auto simp: New_def Let_def split: option.splits if_splits)

lemma Session_Count_New: "Session_Count NewManager = 0"
  by code_simp

lemma Load_ok_iff:
  "Load rd um path = Ok cfg \<longleftrightarrow> (\<exists>data raw. rd path = Ok data \<and> um data = Ok raw \<and> cfg = setDefaults raw \<and> validateConfig cfg = None)"
  by (auto simp: Load_def Let_def split: res.splits option.splits)

text \<open>
  C39. The process comes up exactly when everything it needs is there: the configuration loads and passes
  validation, Redis answers, its rules contain no null, the worker pool and the queue can be made and the
  port can be bound.  It then serves with the validated configuration, no sessions, an empty
  connection count, the gRPC manager if and only if it is in gRPC mode, and a system of goroutines in which the accept loop and
  the queue processor run.
\<close>

theorem main_serves_iff:
  "((\<exists>r. main env = Serves r) \<longleftrightarrow>
      (\<exists>cfg rs. Load (me_ReadFile env) (me_Unmarshal env) (me_config env) = Ok cfg \<and>
         se_ping (me_start env) = None \<and> se_ants (me_start env) = None \<and> 0 \<le> ConnectionQueueSize (ConnectionPool cfg) \<and>
         me_rules env = Ok rs \<and> (\<forall>(k, rule) \<in> set rs. rule \<noteq> None) \<and> me_listen env = None)) \<and>
   (\<forall>r. main env = Serves r \<longrightarrow>
      validateConfig (g_config (rn_gw r)) = None \<and> Session_Count (g_sessions (rn_gw r)) = 0 \<and>
      Limiter_Current (gw_rateLimiter (g_conf (rn_gw r))) = 0 \<and> (g_grpc (rn_gw r) \<noteq> None) = UseGrpc (Server (g_config (rn_gw r))) \<and>
      (\<exists>g. sys_reachable True g (rn_sys r)) \<and> sy_accept (rn_sys r) = ASelect \<and> sy_proc (rn_sys r) = QSelect \<and>
      readyHandler (rn_sys r) = (200, ''Ready''))"
proof (intro conjI allI impI)
  let ?pod = "if me_POD_NAME env = [] then me_hostname env else me_POD_NAME env"
  have serves: "(\<exists>r. main env = Serves r) \<longleftrightarrow>
      (\<exists>cfg g g' s. Load (me_ReadFile env) (me_Unmarshal env) (me_config env) = Ok cfg \<and> New (me_start env) cfg ?pod = Ok g \<and>
         Start (me_rules env) (me_listen env) g = (Ok (), g', s))"
    by (auto simp: main_def Let_def split: res.splits prod.splits)
  show "(\<exists>r. main env = Serves r) \<longleftrightarrow>
      (\<exists>cfg rs. Load (me_ReadFile env) (me_Unmarshal env) (me_config env) = Ok cfg \<and>
         se_ping (me_start env) = None \<and> se_ants (me_start env) = None \<and> 0 \<le> ConnectionQueueSize (ConnectionPool cfg) \<and>
         me_rules env = Ok rs \<and> (\<forall>(k, rule) \<in> set rs. rule \<noteq> None) \<and> me_listen env = None)"
    unfolding serves using New_ok_iff [of "me_start env" _ ?pod] Start_ok_iff [of "me_rules env" "me_listen env"] by blast
next
  fix r
  assume "main env = Serves r"
  then obtain cfg g where r: "Load (me_ReadFile env) (me_Unmarshal env) (me_config env) = Ok cfg"
      "New (me_start env) cfg (rn_podName r) = Ok g" "Start (me_rules env) (me_listen env) g = (Ok (), rn_gw r, rn_sys r)"
    by (auto simp: main_def Let_def split: res.splits prod.splits)
  then have st: "Start (me_rules env) None g = (Ok (), rn_gw r, rn_sys r)" using Start_ok_iff by metis
  note f = New_fields [OF r(2)] Start_keeps [OF st]
  have "validateConfig cfg = None" using r(1) Load_ok_iff by blast
  then show "validateConfig (g_config (rn_gw r)) = None" using f by simp
  show "Session_Count (g_sessions (rn_gw r)) = 0" using f Session_Count_New by simp
  show "Limiter_Current (gw_rateLimiter (g_conf (rn_gw r))) = 0" using f by (simp add: Limiter_Current_def NewLimiter_def)
  show "(g_grpc (rn_gw r) \<noteq> None) = UseGrpc (Server (g_config (rn_gw r)))" using f by simp
  show "\<exists>g. sys_reachable True g (rn_sys r)" using sys_start [OF st] by blast
  show "sy_accept (rn_sys r) = ASelect" "sy_proc (rn_sys r) = QSelect" "readyHandler (rn_sys r) = (200, ''Ready'')"
    using f by (simp_all add: readyHandler_def)
qed

definition sample_main :: main_env where
  "sample_main = \<lparr>me_config = ''config/config.yaml'', me_POD_NAME = [], me_hostname = ''pod'', me_POD_NAMESPACE = [], me_LOG_LEVEL = [],
     me_version = ''dev'', me_buildTime = ''unknown'', me_gitCommit = ''unknown'', me_OTEL = [], me_ReadFile = (\<lambda>_. Ok []), me_Unmarshal = (\<lambda>_. Ok zero_config),
     me_start = \<lparr>se_ping = None, se_ants = None, se_numCPU = 4, se_POD_NAME = [], se_NODE_IP = [], se_now = 0, se_ms = 0\<rparr>,
     me_rules = Ok [], me_listen = None,
     me_tracing = \<lparr>te_exporter = None, te_POD_NAME = [], te_POD_NAMESPACE = [], te_NODE_NAME = [], te_merge = None\<rparr>\<rparr>"

theorem main_serves_iff_witness:
  "\<exists>r. main sample_main = Serves r \<and> validateConfig (g_config (rn_gw r)) = None \<and> readyHandler (rn_sys r) = (200, ''Ready'')"
proof -
  have "0 \<le> ConnectionQueueSize (ConnectionPool (setDefaults zero_config))" by code_simp
  moreover have "Load (me_ReadFile sample_main) (me_Unmarshal sample_main) (me_config sample_main) = Ok (setDefaults zero_config)"
    by (simp add: sample_main_def Load_def zero_config_valid)
  moreover have "se_ping (me_start sample_main) = None" "se_ants (me_start sample_main) = None" "me_rules sample_main = Ok []" "me_listen sample_main = None"
    by (simp_all add: sample_main_def)
  ultimately obtain r where "main sample_main = Serves r" using main_serves_iff [THEN conjunct1, of sample_main] by auto
  then show ?thesis using main_serves_iff [THEN conjunct2, of sample_main] by blast
qed

end
