(* ===== verification/History.thy ===== *)
theory History
  imports SessionFlow Process
begin

text \<open>
  The gateway over time: the histories of a started gateway in which connections are handled,
  packets arrive from backends, idle sessions are cleaned up, the configuration is reloaded and
  the routing rules are refreshed, each between the connections of the list.  Within one
  connection the packets and cleanups interleave with it as in the theory of the handler;
  connections that overlap are the subject of \<open>Overlap\<close> and of the theories of the limiters, the
  pool, the session IDs and the life cycle, which treat the shared operations as atomic steps.
\<close>

inductive gw_history :: "nat \<Rightarrow> Gateway \<Rightarrow> bool" where
  hist_start: "New env cfg pod = Ok g0 \<Longrightarrow> 0 \<le> ConnectionRateLimit (Security cfg) \<Longrightarrow> Start loaded None g0 = (Ok (), g, sys) \<Longrightarrow>
    gw_history 0 g"
| hist_connection: "gw_history n g \<Longrightarrow> handleConnection env c g = (e, s) \<Longrightarrow> ended e \<Longrightarrow> gw_history (Suc n) (hs_gw s)"
| hist_packet: "gw_history n g \<Longrightarrow> gw_history n (handleGrpcPacket p g)"
| hist_cleanup: "gw_history n g \<Longrightarrow> gw_history n (session_cleanup_tick t g)"
| hist_reload: "gw_history n g \<Longrightarrow> 0 \<le> ConnectionRateLimit (Security cfg) \<Longrightarrow>
    gw_history n (g\<lparr>g_conf := snd (Gateway_UpdateConfig t cfg (g_conf g))\<rparr>)"
| hist_rules: "gw_history n g \<Longrightarrow> onRoutingRulesUpdate (Consul (g_config g)) d reply rs (g_routing g) = Ok rt \<Longrightarrow>
    gw_history n (g\<lparr>g_routing := rt\<rparr>)"
| hist_consul: "gw_history n g \<Longrightarrow> gw_history n (g\<lparr>g_routing := onConsulServicesUpdate (Consul (g_config g)) svcs (g_routing g)\<rparr>)"

text \<open>The state between connections.\<close>

definition conf_idle :: "gateway_conf \<Rightarrow> bool" where
  "conf_idle k \<longleftrightarrow> current (gw_rateLimiter k) = 0 \<and> ip_inv (gw_ipLimiter k) \<and> 0 \<le> rateLimit (gw_ipLimiter k) \<and>
     rateLimit (gw_ipLimiter k) = ConnectionRateLimit (Security (gw_config k)) \<and> (\<forall>ip. conn_count (gw_ipLimiter k) ip = 0)"

definition idle_ok :: "nat \<Rightarrow> Gateway \<Rightarrow> bool" where
  "idle_ok n g \<longleftrightarrow> gw_ok g \<and> conf_idle (g_conf g) \<and> (\<forall>sid. Session_Get (g_sessions g) sid = None) \<and>
     alg_enabled (g_access g) = Some True \<and> length (alg_lines (g_access g)) = n"

lemma NewIPLimiter_count [simp]: "conn_count (NewIPLimiter m r t) ip = 0" "rateLimit (NewIPLimiter m r t) = r"
  by (simp_all add: conn_count_def NewIPLimiter_def)

lemma conf_idle_new:
  "0 \<le> ConnectionRateLimit (Security cfg) \<Longrightarrow>
     conf_idle \<lparr>gw_config = cfg, gw_rateLimiter = NewLimiter n, gw_ipLimiter = NewIPLimiter m (ConnectionRateLimit (Security cfg)) t\<rparr>"
  by (simp add: conf_idle_def NewLimiter_def NewIPLimiter_inv)

lemma conf_idle_reload:
  assumes "conf_idle k" and "0 \<le> ConnectionRateLimit (Security cfg)"
  shows "conf_idle (snd (Gateway_UpdateConfig t cfg k))"
  using assms by (simp add: Gateway_UpdateConfig_def conf_idle_def NewLimiter_def NewIPLimiter_inv Let_def split: option.split)

lemma conf_idle_counts: "conf_idle k \<Longrightarrow> same_counts k k' \<Longrightarrow> conf_idle k'"
  by (simp add: conf_idle_def same_counts_def)

lemma idle_ok_start:
  assumes "New env cfg pod = Ok g0" and "0 \<le> ConnectionRateLimit (Security cfg)" and "Start loaded None g0 = (Ok (), g, sys)"
  shows "idle_ok 0 g"
proof -
  have g0: "conf_idle (g_conf g0)" "gw_ok g0" "g_sessions g0 = NewManager" "g_access g0 = \<lparr>alg_enabled = None, alg_once = False, alg_lines = []\<rparr>"
    using assms(1,2) by (auto simp: New_def Let_def gw_ok_def NewManager_ok Get_empty intro!: conf_idle_new split: option.splits if_splits)
  obtain rt where "g = g0\<lparr>g_routing := rt, g_access := InitAccessLogger True (g_access g0)\<rparr>"
    using assms(3) by (auto simp: Start_defs Let_def split: prod.splits option.splits res.splits)
  then show ?thesis using g0 by (simp add: idle_ok_def gw_ok_def InitAccessLogger_def Get_empty)
qed

lemma idle_ok_connection:
  assumes "idle_ok n g" and "handleConnection env c g = (e, s)" and "ended e"
  shows "idle_ok (Suc n) (hs_gw s)"
proof -
  have "gw_ok g" "ip_inv (gw_ipLimiter (g_conf g))" "0 \<le> rateLimit (gw_ipLimiter (g_conf g))" "alg_enabled (g_access g) = Some True"
    using assms(1) by (simp_all add: idle_ok_def conf_idle_def)
  note eff = connection_effect [OF this assms(2,3)]
  have "Session_Get (g_sessions (hs_gw s)) sid = None" for sid
    using eff(3) assms(1) by (cases "Session_Get (g_sessions (hs_gw s)) sid") (auto simp: sessions_within_def idle_ok_def)
  moreover have "length (alg_lines (g_access (hs_gw s))) = Suc n" using eff(6) assms(1) by (auto simp: idle_ok_def)
  ultimately show ?thesis using eff(1,2,5) conf_idle_counts [OF _ eff(1)] assms(1) by (simp add: idle_ok_def)
qed

lemma idle_ok_event:
  assumes "idle_ok n (gf_gw s)"
  shows "idle_ok n (gf_gw (grpc_event_step cf ev s))"
proof -
  have "fixed_part (gf_gw (grpc_event_step cf ev s)) = fixed_part (gf_gw s)" by (rule fixed_grpc_event)
  moreover have "gw_ok (gf_gw (grpc_event_step cf ev s))" "sessions_within (gf_gw s) (gf_gw (grpc_event_step cf ev s))"
    using gw_ok_grpc_event [of s cf ev] assms by (simp_all add: idle_ok_def)
  ultimately show ?thesis using assms unfolding idle_ok_def fixed_part_def sessions_within_def
    by (metis fst_conv snd_conv not_None_eq)
qed

lemma gw_history_idle: "gw_history n g \<Longrightarrow> idle_ok n g"
proof (induction rule: gw_history.induct)
  case (hist_packet n g p)
  then show ?case using idle_ok_event [of n "grpc_start 0 g" undefined "BackendPacket p"] by (simp add: grpc_start_def)
next
  case (hist_cleanup n g t)
  then show ?case using idle_ok_event [of n "grpc_start 0 g" undefined "CleanupTick t"] by (simp add: grpc_start_def)
next
  case (hist_reload n g cfg t)
  then show ?case using conf_idle_reload by (simp add: idle_ok_def gw_ok_def)
next
  case hist_start
  then show ?case by (rule idle_ok_start)
next
  case hist_connection
  then show ?case by (blast intro: idle_ok_connection)
qed (simp_all add: idle_ok_def gw_ok_def)

lemma sample_config_consul: "\<not> Enabled (Consul sample_config)"
  by code_simp



end
