(* ===== verification/Overlap.thy ===== *)
theory Overlap
  imports Handler
begin

text \<open>
  Connections that overlap.  The handlers of \<open>Handler\<close> run one at a time; here any number of them
  interleave at the operations on the books they share: the limiter per address, the global
  limiter, the session store, the reload of the configuration and the cleanup of sessions.  Limiters
  are objects: \<open>g.ipLimiter\<close> and \<open>g.rateLimiter\<close> are pointers that a reload replaces,
  \<open>Allow\<close> reads the pointer, and a \<open>defer\<close> statement reads it again, when it is executed, for the
  \<open>Release\<close> it registers.  What a handler does between these operations concerns none of the books.
\<close>

section \<open>Handlers at their shared operations\<close>

text \<open>
  A ticket: the limiter that counted the handler, and the one whose \<open>Release\<close> is deferred.  The
  states are those before each operation of \<open>handleConnection\<close> and \<open>handleTCPConnection\<close>.
\<close>

type_synonym ticket = "nat \<times> nat"

datatype handler_pc =
    AtAddress
  | AtAddressDefer nat
  | AtSlot ticket
  | AtSlotDefer ticket nat
  | Inside ticket ticket
  | InSession ticket ticket "64 word" session_ref
  | Closing ticket ticket
  | AtAddressRelease ticket
  | Gone

record books =
  bk_config :: Config
  bk_limiters :: "nat \<Rightarrow> Limiter"
  bk_rateLimiter :: nat
  bk_ipLimiters :: "nat \<Rightarrow> IPLimiter"
  bk_ipLimiter :: nat
  bk_alloc :: nat
  bk_sworld :: session_world
  bk_nextSession :: session_ref
  bk_sessions :: Manager
  bk_pc :: "nat \<Rightarrow> handler_pc"

text \<open>What is not determined by the books: the clock, whether there is a session, and whether it goes on.\<close>

record move_env =
  me_clock :: clock3
  me_session :: "Session option"
  me_touch :: "time option"

definition goto :: "nat \<Rightarrow> handler_pc \<Rightarrow> books \<Rightarrow> books" where
  "goto h x b = b\<lparr>bk_pc := (bk_pc b)(h := x)\<rparr>"

definition handler_move :: "string \<Rightarrow> nat \<Rightarrow> move_env \<Rightarrow> books \<Rightarrow> books" where
  "handler_move ip h e b =
     (case bk_pc b h of
        AtAddress \<Rightarrow>
          (case IPLimiter_Allow (me_clock e) ip (bk_ipLimiters b (bk_ipLimiter b)) of
             (r, l) \<Rightarrow> goto h (if r = Ok True then AtAddressDefer (bk_ipLimiter b) else Gone)
                        (b\<lparr>bk_ipLimiters := (bk_ipLimiters b)(bk_ipLimiter b := l)\<rparr>))
      | AtAddressDefer p \<Rightarrow> goto h (AtSlot (p, bk_ipLimiter b)) b
      | AtSlot a \<Rightarrow>
          (case Limiter_Allow (bk_limiters b (bk_rateLimiter b)) of
             (admitted, l) \<Rightarrow> goto h (if admitted then AtSlotDefer a (bk_rateLimiter b) else AtAddressRelease a)
                               (b\<lparr>bk_limiters := (bk_limiters b)(bk_rateLimiter b := l)\<rparr>))
      | AtSlotDefer a q \<Rightarrow> goto h (Inside a (q, bk_rateLimiter b)) b
      | Inside a s \<Rightarrow>
          (case me_session e of
             None \<Rightarrow> goto h (Closing a s) b
           | Some se \<Rightarrow>
               let r = bk_nextSession b;
                   w = (bk_sworld b)\<lparr>heap := (heap (bk_sworld b))(r := se)\<rparr>
               in goto h (InSession a s (SessionID se) r)
                    (b\<lparr>bk_sworld := w, bk_nextSession := r + 1, bk_sessions := Session_Add w r (bk_sessions b)\<rparr>))
      | InSession a s sid r \<Rightarrow>
          (case me_touch e of
             Some t \<Rightarrow> b\<lparr>bk_sworld := (bk_sworld b)\<lparr>heap := (heap (bk_sworld b))(r := (heap (bk_sworld b) r)\<lparr>LastActiveAt := t\<rparr>)\<rparr>\<rparr>
           | None \<Rightarrow> goto h (Closing a s) (b\<lparr>bk_sessions := Session_Remove sid (bk_sessions b)\<rparr>))
      | Closing a s \<Rightarrow>
          goto h (AtAddressRelease a) (b\<lparr>bk_limiters := (bk_limiters b)(snd s := Limiter_Release (bk_limiters b (snd s)))\<rparr>)
      | AtAddressRelease a \<Rightarrow>
          goto h Gone (b\<lparr>bk_ipLimiters := (bk_ipLimiters b)(snd a := IPLimiter_Release ip (bk_ipLimiters b (snd a)))\<rparr>)
      | Gone \<Rightarrow> b)"

text \<open>The configuration and the limiters the gateway points to, and a reload, which allocates new limiters.\<close>

definition books_conf :: "books \<Rightarrow> gateway_conf" where
  "books_conf b = \<lparr>gw_config = bk_config b, gw_rateLimiter = bk_limiters b (bk_rateLimiter b), gw_ipLimiter = bk_ipLimiters b (bk_ipLimiter b)\<rparr>"

definition books_reload :: "time \<Rightarrow> Config \<Rightarrow> books \<Rightarrow> books" where
  "books_reload t cfg b =
     (case Gateway_UpdateConfig t cfg (books_conf b) of
        (Some err, k) \<Rightarrow> b
      | (None, k) \<Rightarrow>
          let n = bk_alloc b;
              b1 = (if cp_MaxConnections (ConnectionPool cfg) \<noteq> cp_MaxConnections (ConnectionPool (bk_config b))
                    then b\<lparr>bk_limiters := (bk_limiters b)(n := gw_rateLimiter k), bk_rateLimiter := n\<rparr> else b);
              b2 = (if MaxConnectionsPerIP (Security cfg) \<noteq> MaxConnectionsPerIP (Security (bk_config b)) \<or>
                       ConnectionRateLimit (Security cfg) \<noteq> ConnectionRateLimit (Security (bk_config b))
                    then b1\<lparr>bk_ipLimiters := (bk_ipLimiters b)(n := gw_ipLimiter k), bk_ipLimiter := n\<rparr> else b1)
          in b2\<lparr>bk_config := gw_config k, bk_alloc := n + 1\<rparr>)"

definition books_cleanup :: "time \<Rightarrow> books \<Rightarrow> books" where
  "books_cleanup t b =
     (case CleanupIdle t (30 * minute) (bk_sessions b) (bk_sworld b) of
        (m, w, n) \<Rightarrow> b\<lparr>bk_sessions := m, bk_sworld := w\<rparr>)"

text \<open>The books of a gateway that has been built from a configuration, before any connection.\<close>

definition books_start :: "Config \<Rightarrow> time \<Rightarrow> session_world \<Rightarrow> books" where
  "books_start cfg t w =
     \<lparr>bk_config = cfg, bk_limiters = (\<lambda>_. NewLimiter (cp_MaxConnections (ConnectionPool cfg))), bk_rateLimiter = 0,
      bk_ipLimiters = (\<lambda>_. NewIPLimiter (MaxConnectionsPerIP (Security cfg)) (ConnectionRateLimit (Security cfg)) t), bk_ipLimiter = 0,
      bk_alloc = 1, bk_sworld = w, bk_nextSession = 0, bk_sessions = NewManager, bk_pc = (\<lambda>_. AtAddress)\<rparr>"

section \<open>One handler alone\<close>

text \<open>The books of a gateway, and seven moves of a single handler that registers no session.\<close>

definition books_of :: "Gateway \<Rightarrow> books" where
  "books_of g =
     \<lparr>bk_config = g_config g, bk_limiters = (\<lambda>_. gw_rateLimiter (g_conf g)), bk_rateLimiter = 0,
      bk_ipLimiters = (\<lambda>_. gw_ipLimiter (g_conf g)), bk_ipLimiter = 0, bk_alloc = 1, bk_sworld = g_sworld g,
      bk_nextSession = g_nextSession g, bk_sessions = g_sessions g, bk_pc = (\<lambda>_. AtAddress)\<rparr>"

definition lone_moves :: "handler_env \<Rightarrow> nat \<Rightarrow> books \<Rightarrow> books" where
  "lone_moves env h =
     (handler_move (extractIP (he_remoteAddr env)) h \<lparr>me_clock = he_clock env, me_session = None, me_touch = None\<rparr>) ^^ 7"

lemma handler_move_at:
  "bk_pc b h = AtAddress \<Longrightarrow> IPLimiter_Allow (me_clock e) ip (bk_ipLimiters b (bk_ipLimiter b)) = (r, l) \<Longrightarrow> handler_move ip h e b =
     goto h (if r = Ok True then AtAddressDefer (bk_ipLimiter b) else Gone) (b\<lparr>bk_ipLimiters := (bk_ipLimiters b)(bk_ipLimiter b := l)\<rparr>)"
  "bk_pc b h = AtAddressDefer p \<Longrightarrow> handler_move ip h e b = goto h (AtSlot (p, bk_ipLimiter b)) b"
  "bk_pc b h = AtSlot a \<Longrightarrow> Limiter_Allow (bk_limiters b (bk_rateLimiter b)) = (x, k) \<Longrightarrow> handler_move ip h e b =
     goto h (if x then AtSlotDefer a (bk_rateLimiter b) else AtAddressRelease a) (b\<lparr>bk_limiters := (bk_limiters b)(bk_rateLimiter b := k)\<rparr>)"
  "bk_pc b h = AtSlotDefer a q \<Longrightarrow> handler_move ip h e b = goto h (Inside a (q, bk_rateLimiter b)) b"
  "bk_pc b h = Inside a s \<Longrightarrow> me_session e = None \<Longrightarrow> handler_move ip h e b = goto h (Closing a s) b"
  "bk_pc b h = Closing a s \<Longrightarrow> handler_move ip h e b =
     goto h (AtAddressRelease a) (b\<lparr>bk_limiters := (bk_limiters b)(snd s := Limiter_Release (bk_limiters b (snd s)))\<rparr>)"
  "bk_pc b h = AtAddressRelease a \<Longrightarrow> handler_move ip h e b =
     goto h Gone (b\<lparr>bk_ipLimiters := (bk_ipLimiters b)(snd a := IPLimiter_Release ip (bk_ipLimiters b (snd a)))\<rparr>)"
  "bk_pc b h = Gone \<Longrightarrow> handler_move ip h e b = b"
  by (simp_all add: handler_move_def)

lemma goto_simps [simp]:
  "bk_pc (goto h x b) = (bk_pc b)(h := x)" "bk_limiters (goto h x b) = bk_limiters b" "bk_rateLimiter (goto h x b) = bk_rateLimiter b"
  "bk_ipLimiters (goto h x b) = bk_ipLimiters b" "bk_ipLimiter (goto h x b) = bk_ipLimiter b" "bk_alloc (goto h x b) = bk_alloc b"
  "bk_sworld (goto h x b) = bk_sworld b" "bk_nextSession (goto h x b) = bk_nextSession b" "bk_sessions (goto h x b) = bk_sessions b"
  "bk_config (goto h x b) = bk_config b"
  by (simp_all add: goto_def)

text \<open>The seven moves, for the three ways admission can go.\<close>

lemma lone_moves_limiters:
  assumes al: "IPLimiter_Allow (he_clock env) ip (bk_ipLimiters b (bk_ipLimiter b)) = (r, l)" and ip: "ip = extractIP (he_remoteAddr env)"
    and lim: "Limiter_Allow (bk_limiters b (bk_rateLimiter b)) = (x, k)" and b: "bk_pc b h = AtAddress"
  shows "bk_pc (lone_moves env h b) h = Gone"
    and "bk_limiters (lone_moves env h b) (bk_rateLimiter b) =
      (if r = Ok True then if x then Limiter_Release k else k else bk_limiters b (bk_rateLimiter b))"
    and "bk_ipLimiters (lone_moves env h b) (bk_ipLimiter b) = (if r = Ok True then IPLimiter_Release ip l else l)"
proof -
  define m where "m = handler_move ip h \<lparr>me_clock = he_clock env, me_session = None, me_touch = None\<rparr>"
  have seven: "lone_moves env h b = m (m (m (m (m (m (m b))))))"
    by (simp add: lone_moves_def m_def ip eval_nat_numeral)
  have at: "handler_move ip h \<lparr>me_clock = he_clock env, me_session = None, me_touch = None\<rparr> = m" by (simp add: m_def)
  note move = handler_move_at [where h = h and ip = ip and e = "\<lparr>me_clock = he_clock env, me_session = None, me_touch = None\<rparr>", unfolded at, simplified]
  note first = move(1) [OF b al]
  show "bk_pc (lone_moves env h b) h = Gone"
    "bk_limiters (lone_moves env h b) (bk_rateLimiter b) = (if r = Ok True then if x then Limiter_Release k else k else bk_limiters b (bk_rateLimiter b))"
    "bk_ipLimiters (lone_moves env h b) (bk_ipLimiter b) = (if r = Ok True then IPLimiter_Release ip l else l)"
    unfolding seven first using lim by (cases "r = Ok True"; cases x; simp add: move)+
qed

text \<open>The limiters after a handler, computed from the code of the handler.\<close>

lemma admitted_conf:
  assumes "admitted_run env c s1 = (e, s)" and "ended e" and "Limiter_Allow (gw_rateLimiter (g_conf (hs_gw s1))) = (x, k)"
  shows "g_conf (hs_gw s) = (g_conf (hs_gw s1))\<lparr>gw_rateLimiter := if x then Limiter_Release k else k\<rparr>"
proof -
  define s2 where "s2 = on_gw (on_conf (\<lambda>c. c\<lparr>gw_rateLimiter := k\<rparr>)) s1"
  have s2: "g_conf (hs_gw s2) = (g_conf (hs_gw s1))\<lparr>gw_rateLimiter := k\<rparr>" by (simp add: s2_def on_gw_def)
  show ?thesis
  proof (cases x)
    case False
    then have "s = on_stats (set_status ''rejected'' ''connection rate limit exceeded'') s2"
      using assms(1,3) by (simp add: admitted_run_def s2_def [symmetric] Let_def)
    then show ?thesis using s2 False by (simp add: on_stats_def)
  next
    case True
    then have "h_defer (\<lambda>e s'. (e, on_gw (on_conf (\<lambda>k. k\<lparr>gw_rateLimiter := Limiter_Release (gw_rateLimiter k)\<rparr>)) s')) (handle_protocol env c s2) = (e, s)"
      using assms(1,3) by (simp add: admitted_run_def s2_def [symmetric] Let_def)
    from h_defer_ended [OF this assms(2)] obtain s' where s': "handle_protocol env c s2 = (e, s')"
      "s = on_gw (on_conf (\<lambda>k. k\<lparr>gw_rateLimiter := Limiter_Release (gw_rateLimiter k)\<rparr>)) s'" by auto
    from keeps_handle_protocol [of s2 env c] show ?thesis
      using s2 True unfolding s'(2) by (simp add: keeps_def s'(1) fixed_part_def on_gw_def)
  qed
qed

lemma limited_conf:
  assumes "limited_run env c s = (e, s')" and "ended e" and "ip = extractIP (he_remoteAddr env)"
    and al: "IPLimiter_Allow (he_clock env) ip (gw_ipLimiter (g_conf (hs_gw s))) = (r, l)"
    and lim: "Limiter_Allow (gw_rateLimiter (g_conf (hs_gw s))) = (x, k)"
  shows "g_conf (hs_gw s') = (if r = Ok True then (g_conf (hs_gw s))\<lparr>gw_ipLimiter := IPLimiter_Release ip l,
      gw_rateLimiter := if x then Limiter_Release k else k\<rparr> else (g_conf (hs_gw s))\<lparr>gw_ipLimiter := l\<rparr>)"
proof -
  define s1 where "s1 = on_gw (on_conf (\<lambda>k. k\<lparr>gw_ipLimiter := l\<rparr>)) s"
  have s1: "g_conf (hs_gw s1) = (g_conf (hs_gw s))\<lparr>gw_ipLimiter := l\<rparr>" by (simp add: s1_def on_gw_def)
  show ?thesis
  proof (cases "r = Ok True")
    case True
    then have "h_defer (\<lambda>e s'. (e, on_gw (on_conf (\<lambda>k. k\<lparr>gw_ipLimiter := IPLimiter_Release ip (gw_ipLimiter k)\<rparr>)) s')) (admitted_run env c s1) = (e, s')"
      using assms(1,3) al by (simp add: limited_run_def s1_def Let_def)
    from h_defer_ended [OF this assms(2)] obtain s2 where
      s2: "admitted_run env c s1 = (e, s2)" "s' = on_gw (on_conf (\<lambda>k. k\<lparr>gw_ipLimiter := IPLimiter_Release ip (gw_ipLimiter k)\<rparr>)) s2"
      by auto
    from admitted_conf [OF s2(1) assms(2)] lim have "g_conf (hs_gw s2) = (g_conf (hs_gw s1))\<lparr>gw_rateLimiter := if x then Limiter_Release k else k\<rparr>"
      by (simp add: s1)
    then show ?thesis using True by (simp add: s2(2) s1 on_gw_def)
  next
    case False
    then have "hs_gw s' = hs_gw s1"
      using assms(1,3) al by (cases r) (auto simp: limited_run_def s1_def on_stats_def Let_def)
    then show ?thesis using False s1 by simp
  qed
qed

text \<open>
  The moves are those of the handler: running alone, they leave both limiters as
  \<open>handleConnection\<close> does, whatever the client and the backends do.
\<close>

theorem lone_handler_agrees:
  assumes "handleConnection env c g = (e, s)" and "ended e"
  shows "bk_pc (lone_moves env h (books_of g)) h = Gone \<and>
    bk_limiters (lone_moves env h (books_of g)) 0 = gw_rateLimiter (g_conf (hs_gw s)) \<and>
    bk_ipLimiters (lone_moves env h (books_of g)) 0 = gw_ipLimiter (g_conf (hs_gw s))"
proof -
  define s0 where "s0 = \<lparr>hs_gw = (set_client c (TCPClient (bufio_NewReader (he_conn env))) g)\<lparr>g_bytesOut := (g_bytesOut g)(c := 0)\<rparr>,
    hs_stats = start_stats, hs_left = None\<rparr>"
  define ip where "ip = extractIP (he_remoteAddr env)"
  have "handleConnection env c g = h_defer (conn_end env c) (limited_run env c s0)"
    unfolding handleConnection_def Let_def limited_run_def admitted_run_def s0_def by simp
  from h_defer_ended [OF this [symmetric, unfolded assms(1)] assms(2)]
  obtain s' where s': "limited_run env c s0 = (e, s')" "snd (conn_end env c e s') = s" by (auto simp: conn_end_def)
  have conf: "g_conf (hs_gw s0) = g_conf g" "g_conf (hs_gw s) = g_conf (hs_gw s')"
    using s'(2) by (auto simp: s0_def set_client_def conn_end_def on_gw_def)
  obtain r l where al: "IPLimiter_Allow (he_clock env) ip (gw_ipLimiter (g_conf g)) = (r, l)" by fastforce
  obtain x k where lim: "Limiter_Allow (gw_rateLimiter (g_conf g)) = (x, k)" by fastforce
  note out = limited_conf [OF s'(1) assms(2) ip_def, unfolded conf(1), OF al lim]
  have b: "bk_ipLimiters (books_of g) (bk_ipLimiter (books_of g)) = gw_ipLimiter (g_conf g)" "bk_rateLimiter (books_of g) = 0"
    "bk_limiters (books_of g) (bk_rateLimiter (books_of g)) = gw_rateLimiter (g_conf g)" "bk_pc (books_of g) h = AtAddress" "bk_ipLimiter (books_of g) = 0"
    by (simp_all add: books_of_def)
  from lone_moves_limiters [OF _ ip_def _ b(4), unfolded b(1,3), OF al lim] show ?thesis
    unfolding conf(2) out b by (simp split: if_splits)
qed

section \<open>All interleavings\<close>

text \<open>What a handler holds: a slot, a place in the count of its address, a registered session.\<close>

fun slot_of :: "handler_pc \<Rightarrow> nat option" where
  "slot_of (AtSlotDefer a q) = Some q"
| "slot_of (Inside a s) = Some (fst s)"
| "slot_of (InSession a s sid r) = Some (fst s)"
| "slot_of (Closing a s) = Some (fst s)"
| "slot_of _ = None"

fun address_of :: "handler_pc \<Rightarrow> nat option" where
  "address_of (AtAddressDefer p) = Some p"
| "address_of (AtSlot a) = Some (fst a)"
| "address_of (AtSlotDefer a q) = Some (fst a)"
| "address_of (Inside a s) = Some (fst a)"
| "address_of (InSession a s sid r) = Some (fst a)"
| "address_of (Closing a s) = Some (fst a)"
| "address_of (AtAddressRelease a) = Some (fst a)"
| "address_of _ = None"

definition address_key :: "(nat \<Rightarrow> string) \<Rightarrow> nat \<Rightarrow> handler_pc \<Rightarrow> (nat \<times> string) option" where
  "address_key ipof h x = map_option (\<lambda>p. (p, ipof h)) (address_of x)"

fun registered :: "handler_pc \<Rightarrow> (64 word \<times> session_ref) option" where
  "registered (InSession a s sid r) = Some (sid, r)"
| "registered _ = None"

definition holding :: "(nat \<Rightarrow> handler_pc \<Rightarrow> 'k option) \<Rightarrow> (nat \<Rightarrow> handler_pc) \<Rightarrow> 'k \<Rightarrow> nat set" where
  "holding f pc k = {h. f h (pc h) = Some k}"

lemma holding_update:
  "holding f (pc(h := x)) k = (if f h x = Some k then insert h (holding f pc k) else holding f pc k - {h})"
  by (auto simp: holding_def)

lemma finite_holding_update: "finite (holding f (pc(h := x)) k) = finite (holding f pc k)"
  by (simp add: holding_update)

lemma card_holding_update:
  assumes "finite (holding f pc k)"
  shows "int (card (holding f (pc(h := x)) k)) =
    int (card (holding f pc k)) - (if f h (pc h) = Some k then 1 else 0) + (if f h x = Some k then 1 else 0)"
proof (cases "f h (pc h) = Some k")
  case True
  then have "h \<in> holding f pc k" by (simp add: holding_def)
  moreover from this assms have "0 < card (holding f pc k)" by (auto simp: card_gt_0_iff)
  ultimately show ?thesis using True assms by (simp add: holding_update card_Diff_singleton insert_absorb of_nat_diff)
next
  case False
  then have "h \<notin> holding f pc k" by (simp add: holding_def)
  then show ?thesis using False assms by (simp add: holding_update)
qed

text \<open>No handler is between an \<open>Allow\<close> and the \<open>defer\<close> statement that follows it.\<close>

definition settled :: "books \<Rightarrow> bool" where
  "settled b \<longleftrightarrow> (\<forall>h p. bk_pc b h \<noteq> AtAddressDefer p) \<and> (\<forall>h a q. bk_pc b h \<noteq> AtSlotDefer a q)"

text \<open>
  The reachable books, for handlers with addresses \<open>ipof\<close>; \<open>C\<close> collects the sessions a cleanup
  found idle.  A session is registered under an ID no other live session has, and a reload comes when
  the handlers are settled.
\<close>

definition unused_id :: "nat \<Rightarrow> move_env \<Rightarrow> books \<Rightarrow> bool" where
  "unused_id h e b \<longleftrightarrow> (\<forall>se i r. me_session e = Some se \<longrightarrow> i \<noteq> h \<longrightarrow> registered (bk_pc b i) \<noteq> Some (SessionID se, r))"

inductive books_reach :: "(nat \<Rightarrow> string) \<Rightarrow> session_ref set \<Rightarrow> books \<Rightarrow> bool" for ipof :: "nat \<Rightarrow> string" where
  bk_begin: "validateConfig cfg = None \<Longrightarrow> 0 \<le> ConnectionRateLimit (Security cfg) \<Longrightarrow> books_reach ipof {} (books_start cfg t w)"
| bk_move: "books_reach ipof C b \<Longrightarrow> unused_id h e b \<Longrightarrow> books_reach ipof C (handler_move (ipof h) h e b)"
| bk_reload: "books_reach ipof C b \<Longrightarrow> settled b \<Longrightarrow> 0 \<le> ConnectionRateLimit (Security cfg) \<Longrightarrow>
    books_reach ipof C (books_reload t cfg b)"
| bk_cleanup: "books_reach ipof C b \<Longrightarrow>
    books_reach ipof (C \<union> {r. r < bk_nextSession b \<and> is_idle t (30 * minute) (bk_sworld b) r}) (books_cleanup t b)"

subsection \<open>Slots\<close>

fun slot_matched :: "nat \<Rightarrow> handler_pc \<Rightarrow> bool" where
  "slot_matched cur (AtSlotDefer a q) \<longleftrightarrow> q = cur"
| "slot_matched cur (Inside a s) \<longleftrightarrow> fst s = snd s"
| "slot_matched cur (InSession a s sid r) \<longleftrightarrow> fst s = snd s"
| "slot_matched cur (Closing a s) \<longleftrightarrow> fst s = snd s"
| "slot_matched cur _ \<longleftrightarrow> True"

abbreviation slot_holders :: "books \<Rightarrow> nat \<Rightarrow> nat set" where
  "slot_holders b \<equiv> holding (\<lambda>_. slot_of) (bk_pc b)"

definition slots_inv :: "books \<Rightarrow> bool" where
  "slots_inv b \<longleftrightarrow> bk_rateLimiter b < bk_alloc b \<and>
     maxConns (bk_limiters b (bk_rateLimiter b)) = cp_MaxConnections (ConnectionPool (bk_config b)) \<and>
     (\<forall>h. slot_matched (bk_rateLimiter b) (bk_pc b h) \<and> pred_option (\<lambda>q. q < bk_alloc b) (slot_of (bk_pc b h))) \<and>
     (\<forall>q. finite (slot_holders b q)) \<and>
     (\<forall>q. current (bk_limiters b q) = int (card (slot_holders b q)) \<and> int (card (slot_holders b q)) \<le> maxConns (bk_limiters b q))"

lemma slots_inv_start: "validateConfig cfg = None \<Longrightarrow> slots_inv (books_start cfg t w)"
  by (auto simp: slots_inv_def books_start_def NewLimiter_def holding_def validateConfig_def split: if_splits)

lemma slots_inv_move:
  assumes "slots_inv b"
  shows "slots_inv (handler_move ip h e b)"
proof -
  have m: "slot_matched (bk_rateLimiter b) (bk_pc b h)" "pred_option (\<lambda>q. q < bk_alloc b) (slot_of (bk_pc b h))"
    using assms by (auto simp: slots_inv_def)
  have le: "int (card (slot_holders b q)) - 1 \<le> maxConns (bk_limiters b q)" for q
    by (rule order_trans [of _ "int (card (slot_holders b q))"]) (use assms in \<open>simp_all add: slots_inv_def\<close>)
  show ?thesis
    by (cases "bk_pc b h")
      (use assms m le in \<open>auto simp: handler_move_def slots_inv_def finite_holding_update card_holding_update
        Limiter_Allow_def Limiter_Release_def Let_def split: prod.split option.split\<close>)
qed

text \<open>A reload, seen from the objects.\<close>

lemma books_reload_cases:
  obtains (refused) "books_reload t cfg b = b"
  | (installed) b1 where "validateConfig cfg = None" "books_reload t cfg b = b1" "bk_config b1 = cfg" "bk_alloc b1 = bk_alloc b + 1"
      "bk_pc b1 = bk_pc b" "bk_sessions b1 = bk_sessions b" "bk_sworld b1 = bk_sworld b" "bk_nextSession b1 = bk_nextSession b"
      "if cp_MaxConnections (ConnectionPool cfg) = cp_MaxConnections (ConnectionPool (bk_config b))
       then bk_limiters b1 = bk_limiters b \<and> bk_rateLimiter b1 = bk_rateLimiter b
       else bk_limiters b1 = (bk_limiters b)(bk_alloc b := NewLimiter (cp_MaxConnections (ConnectionPool cfg))) \<and> bk_rateLimiter b1 = bk_alloc b"
      "if MaxConnectionsPerIP (Security cfg) = MaxConnectionsPerIP (Security (bk_config b)) \<and>
          ConnectionRateLimit (Security cfg) = ConnectionRateLimit (Security (bk_config b))
       then bk_ipLimiters b1 = bk_ipLimiters b \<and> bk_ipLimiter b1 = bk_ipLimiter b
       else bk_ipLimiters b1 = (bk_ipLimiters b)(bk_alloc b := NewIPLimiter (MaxConnectionsPerIP (Security cfg)) (ConnectionRateLimit (Security cfg)) t) \<and>
         bk_ipLimiter b1 = bk_alloc b"
proof (cases "validateConfig cfg")
  case None
  show thesis
    by (rule installed [OF None refl])
      (simp_all add: books_reload_def Gateway_UpdateConfig_def ValidateConfig_def None books_conf_def Let_def)
next
  case (Some err)
  then show thesis by (intro refused) (simp add: books_reload_def Gateway_UpdateConfig_def ValidateConfig_def)
qed

lemma slot_matched_settled: "settled b \<Longrightarrow> slot_matched q (bk_pc b h) \<Longrightarrow> slot_matched q' (bk_pc b h)"
  by (cases "bk_pc b h") (auto simp: settled_def)

lemma slots_inv_reload:
  assumes "slots_inv b" and "settled b"
  shows "slots_inv (books_reload t cfg b)"
proof (cases rule: books_reload_cases [of t cfg b])
  case refused
  then show ?thesis using assms(1) by simp
next
  case (installed b1)
  have below: "pred_option (\<lambda>q. q < bk_alloc b) (slot_of (bk_pc b h))" for h using assms(1) by (simp add: slots_inv_def)
  have "slot_of (bk_pc b h) \<noteq> Some (bk_alloc b)" for h using below [of h] by auto
  then have none: "slot_holders b (bk_alloc b) = {}" by (simp add: holding_def)
  have pos: "0 < cp_MaxConnections (ConnectionPool cfg)" using installed(1) by (auto simp: validateConfig_def split: if_splits)
  have less: "pred_option (\<lambda>q. q < Suc (bk_alloc b)) (slot_of (bk_pc b h))" for h
    using below [of h] by (auto simp: pred_option_def less_SucI)
  have "slot_matched q (bk_pc b h)" for q h
    by (rule slot_matched_settled [OF assms(2), of "bk_rateLimiter b"]) (use assms(1) in \<open>simp add: slots_inv_def\<close>)
  then show ?thesis unfolding installed(2)
    using assms(1) installed(3-5,9) none pos less by (auto simp: slots_inv_def NewLimiter_def split: if_splits)
qed

lemma slots_inv_cleanup: "slots_inv b \<Longrightarrow> slots_inv (books_cleanup t b)"
  by (auto simp: books_cleanup_def slots_inv_def split: prod.split)

lemma books_slots: "books_reach ipof C b \<Longrightarrow> slots_inv b"
  by (induction rule: books_reach.induct) (simp_all add: slots_inv_start slots_inv_move slots_inv_reload slots_inv_cleanup)

subsection \<open>Addresses\<close>

fun address_matched :: "nat \<Rightarrow> handler_pc \<Rightarrow> bool" where
  "address_matched cur (AtAddressDefer p) \<longleftrightarrow> p = cur"
| "address_matched cur (AtSlot a) \<longleftrightarrow> fst a = snd a"
| "address_matched cur (AtSlotDefer a q) \<longleftrightarrow> fst a = snd a"
| "address_matched cur (Inside a s) \<longleftrightarrow> fst a = snd a"
| "address_matched cur (InSession a s sid r) \<longleftrightarrow> fst a = snd a"
| "address_matched cur (Closing a s) \<longleftrightarrow> fst a = snd a"
| "address_matched cur (AtAddressRelease a) \<longleftrightarrow> fst a = snd a"
| "address_matched cur _ \<longleftrightarrow> True"

abbreviation address_holders :: "(nat \<Rightarrow> string) \<Rightarrow> books \<Rightarrow> nat \<times> string \<Rightarrow> nat set" where
  "address_holders ipof b \<equiv> holding (address_key ipof) (bk_pc b)"

definition address_inv :: "(nat \<Rightarrow> string) \<Rightarrow> books \<Rightarrow> bool" where
  "address_inv ipof b \<longleftrightarrow> bk_ipLimiter b < bk_alloc b \<and>
     maxConnsPerIP (bk_ipLimiters b (bk_ipLimiter b)) = MaxConnectionsPerIP (Security (bk_config b)) \<and>
     rateLimit (bk_ipLimiters b (bk_ipLimiter b)) = ConnectionRateLimit (Security (bk_config b)) \<and>
     (\<forall>h. address_matched (bk_ipLimiter b) (bk_pc b h) \<and> pred_option (\<lambda>p. p < bk_alloc b) (address_of (bk_pc b h))) \<and>
     (\<forall>k. finite (address_holders ipof b k)) \<and>
     (\<forall>p. ip_inv (bk_ipLimiters b p) \<and> 0 \<le> rateLimit (bk_ipLimiters b p) \<and>
        (\<forall>ip. conn_count (bk_ipLimiters b p) ip = int (card (address_holders ipof b (p, ip)))))"

lemma address_inv_start: "0 \<le> ConnectionRateLimit (Security cfg) \<Longrightarrow> address_inv ipof (books_start cfg t w)"
  by (simp add: address_inv_def books_start_def NewIPLimiter_inv holding_def address_key_def)
    (simp add: NewIPLimiter_def conn_count_def)

text \<open>Only the two operations on the limiter per address change what is counted there.\<close>

lemma address_inv_goto:
  assumes "address_inv ipof b" and "address_of x = address_of (bk_pc b h)" and "address_matched (bk_ipLimiter b) x"
  shows "address_inv ipof (goto h x b)"
proof -
  have "holding (address_key ipof) ((bk_pc b)(h := x)) k = address_holders ipof b k" for k
    using assms(2) by (auto simp: holding_def address_key_def)
  then show ?thesis using assms by (simp add: address_inv_def)
qed

lemma address_inv_allow:
  assumes "address_inv ipof b" and "bk_pc b h = AtAddress" and "IPLimiter_Allow clk (ipof h) (bk_ipLimiters b (bk_ipLimiter b)) = (r, l)"
  shows "address_inv ipof (goto h (if r = Ok True then AtAddressDefer (bk_ipLimiter b) else Gone)
    (b\<lparr>bk_ipLimiters := (bk_ipLimiters b)(bk_ipLimiter b := l)\<rparr>))"
proof -
  have "ip_inv (bk_ipLimiters b (bk_ipLimiter b))" "0 \<le> rateLimit (bk_ipLimiters b (bk_ipLimiter b))"
    using assms(1) unfolding address_inv_def by blast+
  note eff = Allow_effect [OF this assms(3)] this(2)
  moreover have "0 \<le> ConnectionRateLimit (Security (bk_config b))"
    using eff(8) assms(1) unfolding address_inv_def by metis
  ultimately show ?thesis using assms(1,2)
    by (auto simp: address_inv_def finite_holding_update card_holding_update address_key_def)
qed

lemma address_inv_release:
  assumes "address_inv ipof b" and "bk_pc b h = AtAddressRelease a"
  shows "address_inv ipof (goto h Gone (b\<lparr>bk_ipLimiters := (bk_ipLimiters b)(snd a := IPLimiter_Release (ipof h) (bk_ipLimiters b (snd a)))\<rparr>))"
proof -
  have a: "fst a = snd a" "h \<in> address_holders ipof b (snd a, ipof h)"
    using assms by (auto simp: address_inv_def holding_def address_key_def dest!: spec [of _ h])
  moreover have "finite (address_holders ipof b (snd a, ipof h))" using assms(1) by (simp add: address_inv_def)
  ultimately have "0 < card (address_holders ipof b (snd a, ipof h))" by (auto simp: card_gt_0_iff)
  moreover have "ip_inv (bk_ipLimiters b (snd a))" using assms(1) by (simp add: address_inv_def)
  note rel = Release_effect [OF this]
  ultimately show ?thesis using assms a(1) rel
    by (auto simp: address_inv_def finite_holding_update card_holding_update address_key_def)
qed

lemma address_inv_move:
  assumes "address_inv ipof b"
  shows "address_inv ipof (handler_move (ipof h) h e b)"
proof -
  have m: "address_matched (bk_ipLimiter b) (bk_pc b h)" using assms by (simp add: address_inv_def)
  have other: "address_inv ipof (b\<lparr>bk_limiters := k\<rparr>)" "address_inv ipof (b\<lparr>bk_sworld := w, bk_nextSession := n, bk_sessions := c\<rparr>)"
    "address_inv ipof (b\<lparr>bk_sworld := w\<rparr>)" "address_inv ipof (b\<lparr>bk_sessions := c\<rparr>)" for k w n c
    using assms by (simp_all add: address_inv_def)
  obtain r l where al: "IPLimiter_Allow (me_clock e) (ipof h) (bk_ipLimiters b (bk_ipLimiter b)) = (r, l)" by fastforce
  show ?thesis
  proof (cases "bk_pc b h")
    case AtAddress
    then show ?thesis using address_inv_allow [OF assms _ al] by (simp only: handler_move_at(1) [OF _ al])
  next
    case (AtAddressRelease a)
    then show ?thesis using address_inv_release [OF assms] by (simp only: handler_move_at(7))
  qed (use assms m other in \<open>auto simp: handler_move_def Let_def intro!: address_inv_goto split: prod.split option.split\<close>)
qed

lemma address_matched_settled: "settled b \<Longrightarrow> address_matched q (bk_pc b h) \<Longrightarrow> address_matched q' (bk_pc b h)"
  by (cases "bk_pc b h") (auto simp: settled_def)

lemma address_inv_reload:
  assumes "address_inv ipof b" and "settled b" and "0 \<le> ConnectionRateLimit (Security cfg)"
  shows "address_inv ipof (books_reload t cfg b)"
proof (cases rule: books_reload_cases [of t cfg b])
  case refused
  then show ?thesis using assms(1) by simp
next
  case (installed b1)
  have below: "pred_option (\<lambda>q. q < bk_alloc b) (address_of (bk_pc b h))" for h using assms(1) by (simp add: address_inv_def)
  have "address_of (bk_pc b h) \<noteq> Some (bk_alloc b)" for h using below [of h] by auto
  then have none: "address_holders ipof b (bk_alloc b, ip) = {}" for ip by (auto simp: holding_def address_key_def)
  have less: "pred_option (\<lambda>q. q < Suc (bk_alloc b)) (address_of (bk_pc b h))" for h
    using below [of h] by (auto simp: pred_option_def less_SucI)
  have match: "address_matched q (bk_pc b h)" for q h
    by (rule address_matched_settled [OF assms(2), of "bk_ipLimiter b"]) (use assms(1) in \<open>simp add: address_inv_def\<close>)
  have new: "ip_inv (NewIPLimiter m r t)" "rateLimit (NewIPLimiter m r t) = r" "maxConnsPerIP (NewIPLimiter m r t) = m"
      "conn_count (NewIPLimiter m r t) ip = 0" for m r ip
    by (rule NewIPLimiter_inv) (simp_all add: NewIPLimiter_def conn_count_def)
  show ?thesis unfolding installed(2) using assms(1,3) installed(3-5,10) none less match
    by (auto simp: address_inv_def new split: if_splits)
qed

lemma address_inv_cleanup: "address_inv ipof b \<Longrightarrow> address_inv ipof (books_cleanup t b)"
  by (cases "CleanupIdle t (30 * minute) (bk_sessions b) (bk_sworld b)") (simp add: books_cleanup_def address_inv_def)

lemma books_addresses: "books_reach ipof C b \<Longrightarrow> address_inv ipof b"
  by (induction rule: books_reach.induct)
    (simp_all add: address_inv_start address_inv_move address_inv_reload address_inv_cleanup)

subsection \<open>Sessions\<close>

definition sessions_ok :: "session_ref set \<Rightarrow> (nat \<Rightarrow> (64 word \<times> session_ref) option) \<Rightarrow> session_world \<Rightarrow> session_ref \<Rightarrow> Manager \<Rightarrow> bool" where
  "sessions_ok C reg w n m \<longleftrightarrow> store_ok w m \<and>
     (\<forall>x r. Session_Get m x = Some r \<longrightarrow> r < n \<and> (\<exists>h. reg h = Some (x, r))) \<and>
     (\<forall>h x r. reg h = Some (x, r) \<longrightarrow> r < n \<and> (Session_Get m x = Some r \<or> r \<in> C)) \<and>
     (\<forall>h i x r r'. reg h = Some (x, r) \<longrightarrow> reg i = Some (x, r') \<longrightarrow> h = i)"

lemma sessions_okD:
  assumes "sessions_ok C reg w n m"
  shows "store_ok w m" and "Session_Get m x = Some r \<Longrightarrow> r < n" and "Session_Get m x = Some r \<Longrightarrow> \<exists>h. reg h = Some (x, r)"
    and "reg h = Some (x, r) \<Longrightarrow> r < n" and "reg h = Some (x, r) \<Longrightarrow> Session_Get m x = Some r \<or> r \<in> C"
    and "reg h = Some (x, r) \<Longrightarrow> reg i = Some (x, r') \<Longrightarrow> h = i"
  using assms unfolding sessions_ok_def by blast+

definition sessions_inv :: "session_ref set \<Rightarrow> books \<Rightarrow> bool" where
  "sessions_inv C b \<longleftrightarrow> sessions_ok C (registered \<circ> bk_pc b) (bk_sworld b) (bk_nextSession b) (bk_sessions b)"

lemma registered_update [simp]: "registered \<circ> pc(h := x) = (registered \<circ> pc)(h := registered x)"
  by auto

lemma sessions_ok_add:
  assumes "sessions_ok C reg w n m" and "\<And>i r. reg i \<noteq> Some (SessionID se, r)" and "reg h = None" and "w' = w\<lparr>heap := (heap w)(n := se)\<rparr>"
  shows "sessions_ok C (reg(h \<mapsto> (SessionID se, n))) w' (n + 1) (Session_Add w' n m)"
proof -
  note old = sessions_okD [OF assms(1)]
  have "store_ok w' m" unfolding assms(4)
    by (rule store_ok_fresh [OF old(1)]) (use old(2) in blast)
  note add = Add_ok [OF this, of n] Get_Add [OF this, of n]
  have "SessionID (heap w' n) = SessionID se" using assms(4) by simp
  with add have look: "Session_Get (Session_Add w' n m) x = (if x = SessionID se then Some n else Session_Get m x)" for x by simp
  have owned: "\<exists>i. (reg(h \<mapsto> (SessionID se, n))) i = Some (x, r)" if "Session_Get (Session_Add w' n m) x = Some r" for x r
  proof (cases "x = SessionID se")
    case False
    with that look have "Session_Get m x = Some r" by simp
    with old(3) obtain i where "reg i = Some (x, r)" by blast
    with assms(3) have "(reg(h \<mapsto> (SessionID se, n))) i = Some (x, r)" by auto
    then show ?thesis ..
  qed (use that look in auto)
  show ?thesis unfolding sessions_ok_def
  proof (intro conjI allI impI)
    show "store_ok w' (Session_Add w' n m)" by (rule add(1))
    show "r < n + 1" if "Session_Get (Session_Add w' n m) x = Some r" for x r
      using that look old(2) by (auto simp: less_Suc_eq split: if_splits)
    show "r < n + 1" "Session_Get (Session_Add w' n m) x = Some r \<or> r \<in> C" if "(reg(h \<mapsto> (SessionID se, n))) i = Some (x, r)" for i x r
      using that look old(4,5) [of i x r] assms(2) [of i r] by (auto split: if_splits)
    show "i = j" if "(reg(h \<mapsto> (SessionID se, n))) i = Some (x, r)" "(reg(h \<mapsto> (SessionID se, n))) j = Some (x, r')" for i j x r r'
      using that assms(2) old(6) by (auto split: if_splits)
  qed (rule owned)
qed

lemma sessions_ok_remove:
  assumes "sessions_ok C reg w n m" and "reg h = Some (x, r)"
  shows "sessions_ok C (reg(h := None)) w n (Session_Remove x m)"
proof -
  note old = sessions_okD [OF assms(1)]
  note rem = Remove_ok [OF old(1), of x] Get_Remove [OF old(1), of x]
  have owned: "\<exists>i. (reg(h := None)) i = Some (y, r')" if "Session_Get (Session_Remove x m) y = Some r'" for y r'
  proof -
    have "y \<noteq> x" "Session_Get m y = Some r'" using that rem(2) by (simp_all split: if_splits)
    with old(3) obtain i where "reg i = Some (y, r')" by blast
    with \<open>y \<noteq> x\<close> assms(2) have "(reg(h := None)) i = Some (y, r')" by auto
    then show ?thesis ..
  qed
  show ?thesis unfolding sessions_ok_def
  proof (intro conjI allI impI)
    show "store_ok w (Session_Remove x m)" by (rule rem(1))
    show "r' < n" if "Session_Get (Session_Remove x m) y = Some r'" for y r'
      using that rem(2) old(2) by (simp split: if_splits)
    show "r' < n" "Session_Get (Session_Remove x m) y = Some r' \<or> r' \<in> C" if "(reg(h := None)) i = Some (y, r')" for i y r'
      using that rem(2) old(4,5) [of i y r'] old(6) [of h x r i r'] assms(2) by (auto split: if_splits)
    show "i = j" if "(reg(h := None)) i = Some (y, r')" "(reg(h := None)) j = Some (y, r'')" for i j y r' r''
      using that old(6) by (auto split: if_splits)
  qed (rule owned)
qed

lemma sessions_ok_touch:
  assumes "sessions_ok C reg w n m"
  shows "sessions_ok C reg (w\<lparr>heap := (heap w)(r := (heap w r)\<lparr>LastActiveAt := t\<rparr>)\<rparr>) n m"
proof -
  have "store_ok (w\<lparr>heap := (heap w)(r := (heap w r)\<lparr>LastActiveAt := t\<rparr>)\<rparr>) m = store_ok w m" by (rule store_ok_heap) simp
  then show ?thesis using assms unfolding sessions_ok_def by simp
qed

lemma sessions_ok_cleanup:
  assumes "sessions_ok C reg w n m" and "CleanupIdle t d m w = (m', w', k)"
  shows "sessions_ok (C \<union> {r. r < n \<and> is_idle t d w r}) reg w' n m'"
proof -
  note old = sessions_okD [OF assms(1)]
  have kept: "Session_Get m' x = Some r \<longleftrightarrow> Session_Get m x = Some r \<and> \<not> is_idle t d w r" for x r
    using Get_Cleanup [OF old(1) assms(2), of x] by (auto split: option.splits)
  have "Session_Get m' x = Some r \<or> r \<in> C \<union> {r. r < n \<and> is_idle t d w r}" if "reg h = Some (x, r)" for h x r
    using old(4,5) [OF that] kept by blast
  then show ?thesis unfolding sessions_ok_def using kept Cleanup_ok [OF old(1) assms(2)] old by blast
qed

lemma sessions_inv_move:
  assumes "sessions_inv C b" and "unused_id h e b"
  shows "sessions_inv C (handler_move ip h e b)"
proof -
  have same: "(registered \<circ> bk_pc b)(h := None) = registered \<circ> bk_pc b" if "registered (bk_pc b h) = None"
    using that by auto
  show ?thesis
  proof (cases "bk_pc b h")
    case (Inside a s)
    have "(registered \<circ> bk_pc b) i \<noteq> Some (SessionID se, r)" if "me_session e = Some se" for se i r
      using assms(2) that Inside by (cases "i = h") (auto simp: unused_id_def)
    then show ?thesis using assms(1) same Inside sessions_ok_add [of C "registered \<circ> bk_pc b" "bk_sworld b" "bk_nextSession b" "bk_sessions b" _ h]
      by (simp add: handler_move_def sessions_inv_def Let_def split: option.split)
  next
    case (InSession a s x r)
    then show ?thesis using assms(1) sessions_ok_touch sessions_ok_remove [of C "registered \<circ> bk_pc b" "bk_sworld b" "bk_nextSession b" "bk_sessions b" h x r]
      by (simp add: handler_move_def sessions_inv_def split: option.split)
  qed (use assms(1) same in \<open>auto simp: handler_move_def sessions_inv_def split: prod.split\<close>)
qed

lemma books_sessions: "books_reach ipof C b \<Longrightarrow> sessions_inv C b"
proof (induction rule: books_reach.induct)
  case (bk_begin cfg t w)
  then show ?case by (simp add: sessions_inv_def sessions_ok_def books_start_def NewManager_ok Get_empty)
next
  case (bk_reload C b cfg t)
  then show ?case by (cases rule: books_reload_cases [of t cfg b]) (simp_all add: sessions_inv_def)
next
  case (bk_cleanup C b t)
  then show ?case
    by (cases "CleanupIdle t (30 * minute) (bk_sessions b) (bk_sworld b)")
      (simp add: sessions_inv_def books_cleanup_def sessions_ok_cleanup)
qed (simp add: sessions_inv_move)

subsection \<open>The books are exact\<close>

lemma count_bound: "ip_inv l \<Longrightarrow> conn_count l ip \<le> max 0 (maxConnsPerIP l)"
  by (force simp: ip_inv_def conn_count_def split: option.split)


text \<open>A connection admitted by a gateway with the default configuration.\<close>

definition plain_move :: move_env where
  "plain_move = \<lparr>me_clock = \<lparr>ck_t0 = 0, ck_t1 = 0, ck_now = 0\<rparr>, me_session = None, me_touch = None\<rparr>"

lemma plain_move_unused [simp]: "unused_id h plain_move b"
  by (simp add: unused_id_def plain_move_def)

lemma first_admitted:
  assumes "b = books_start sample_config 0 w" and "b' = (handler_move ip h plain_move ^^ 4) b"
  shows "bk_pc b' = (\<lambda>_. AtAddress)(h := Inside (0, 0) (0, 0))"
proof -
  define m where "m = handler_move ip h plain_move"
  let ?l = "NewIPLimiter (MaxConnectionsPerIP (Security sample_config)) (ConnectionRateLimit (Security sample_config)) 0"
  obtain r l where al: "IPLimiter_Allow (me_clock plain_move) ip ?l = (r, l)" by fastforce
  have "0 \<le> rateLimit ?l" using sample_config_limits by (simp add: NewIPLimiter_def)
  from Allow_effect(4) [OF NewIPLimiter_inv this al] have r: "r = Ok True"
    using sample_config_limits by (simp add: NewIPLimiter_def conn_count_def rate_times_def)
  have lim: "Limiter_Allow (NewLimiter n) = (0 < n, if 0 < n then \<lparr>maxConns = n, current = 1\<rparr> else NewLimiter n)" for n
    by (simp add: Limiter_Allow_def NewLimiter_def)
  have b: "bk_ipLimiters b (bk_ipLimiter b) = ?l" "bk_pc b = (\<lambda>_. AtAddress)" "bk_ipLimiter b = 0" "bk_rateLimiter b = 0"
    "bk_limiters b 0 = NewLimiter (cp_MaxConnections (ConnectionPool sample_config))"
    by (simp_all add: assms(1) books_start_def)
  have "b' = m (m (m (m b)))" by (simp add: assms(2) m_def eval_nat_numeral)
  also have "m b = goto h (AtAddressDefer 0) (b\<lparr>bk_ipLimiters := (bk_ipLimiters b)(0 := l)\<rparr>)"
    using al b r by (simp add: m_def handler_move_at(1))
  finally show ?thesis using b lim sample_config_limits by (simp add: m_def handler_move_at plain_move_def fun_upd_idem)
qed


section \<open>A reload at the wrong moment\<close>

text \<open>
  Between \<open>g.rateLimiter.Allow()\<close> and \<open>defer g.rateLimiter.Release()\<close> a reload can replace the
  limiter.  The handler then releases a slot of the new limiter that it never took: the new
  limiter ends one below its count for ever and admits one connection too many, and the slot of the old one stays taken.
\<close>

theorem reload_between_allow_and_defer:
  assumes "bk_pc b h = AtSlotDefer a q" and "q = bk_rateLimiter b" and "bk_rateLimiter b < bk_alloc b"
    and "validateConfig cfg = None"
    and "cp_MaxConnections (ConnectionPool cfg) \<noteq> cp_MaxConnections (ConnectionPool (bk_config b))"
    and "me_session e = None" and "b' = (handler_move ip h e ^^ 3) (books_reload t cfg b)"
  shows "bk_pc b' h = AtAddressRelease a \<and> Limiter_Current (bk_limiters b' (bk_rateLimiter b')) = - 1 \<and>
    Limiter_Max (bk_limiters b' (bk_rateLimiter b')) = cp_MaxConnections (ConnectionPool cfg) \<and> bk_limiters b' q = bk_limiters b q"
proof (cases rule: books_reload_cases [of t cfg b])
  case refused
  have "bk_config (books_reload t cfg b) = cfg"
    using assms(4) by (simp add: books_reload_def Gateway_UpdateConfig_def ValidateConfig_def books_conf_def Let_def)
  then show ?thesis using refused assms(5) by simp
next
  case (installed b1)
  have b1: "bk_limiters b1 = (bk_limiters b)(bk_alloc b := NewLimiter (cp_MaxConnections (ConnectionPool cfg)))" "bk_rateLimiter b1 = bk_alloc b"
    using installed(9) assms(5) by simp_all
  have "b' = handler_move ip h e (handler_move ip h e (handler_move ip h e b1))"
    by (simp add: assms(7) installed(2) eval_nat_numeral)
  then show ?thesis using installed(5) b1 assms(1-3,6)
    by (simp add: handler_move_at NewLimiter_def Limiter_Release_def Limiter_Current_def Limiter_Max_def)
qed

end
