(* ===== verification/Metrics.thy ===== *)
theory Metrics
  imports GatewayPrelude
begin

text \<open>
  \<open>internal/metrics/metrics.go\<close>: the collectors and their registration.  The Prometheus library
  is third-party; what the program relies on is that \<open>promauto\<close> panics when a name is registered
  twice and that \<open>WithLabelValues\<close> panics unless it is given one value per label.  The gateway
  never reads a collector, so that the other theories leave them out.
\<close>

datatype metric_kind = Gauge | Counter | Histogram

datatype collector =
    ActiveConnections | TotalConnections | BackendConnectionsActive | ActiveSessions | RoutingErrors | ConnectionRejected
  | CircuitBreakerState | BackendRequestsTotal | BackendConnectionSetupLatency | BackendConnectionLatency | BackendErrorsTotal
  | BackendTimeoutsTotal | BackendRetriesTotal | BackendBytesTransmitted | ConnectionSetupLatency | MessagesProcessed
  | ConfigRefreshErrors | PoolCleanupErrors | ConfigRefreshSuccess

text \<open>The declarations, in the order they are initialised: name, kind and labels.\<close>

primrec declared :: "collector \<Rightarrow> string \<times> metric_kind \<times> string list" where
  "declared ActiveConnections = (''game_gateway_connections_active'', Gauge, [])"
| "declared TotalConnections = (''game_gateway_connections_total'', Counter, [])"
| "declared BackendConnectionsActive = (''game_gateway_backend_connections_active'', Gauge, [''backend''])"
| "declared ActiveSessions = (''game_gateway_sessions_active'', Gauge, [])"
| "declared RoutingErrors = (''game_gateway_routing_errors_total'', Counter, [''error_type''])"
| "declared ConnectionRejected = (''game_gateway_connection_rejected_total'', Counter, [''reason''])"
| "declared CircuitBreakerState = (''game_gateway_circuit_breaker_state'', Gauge, [''backend''])"
| "declared BackendRequestsTotal = (''game_gateway_backend_requests_total'', Counter, [''backend'', ''status''])"
| "declared BackendConnectionSetupLatency = (''game_gateway_backend_connection_setup_latency_seconds'', Histogram, [''backend''])"
| "declared BackendConnectionLatency = (''game_gateway_backend_connection_latency_seconds'', Histogram, [''backend''])"
| "declared BackendErrorsTotal = (''game_gateway_backend_errors_total'', Counter, [''backend'', ''error_type''])"
| "declared BackendTimeoutsTotal = (''game_gateway_backend_timeouts_total'', Counter, [''backend''])"
| "declared BackendRetriesTotal = (''game_gateway_backend_retries_total'', Counter, [''backend''])"
| "declared BackendBytesTransmitted = (''game_gateway_backend_bytes_transmitted_total'', Counter, [''backend'', ''direction''])"
| "declared ConnectionSetupLatency = (''game_gateway_connection_setup_latency_seconds'', Histogram, [''service_type''])"
| "declared MessagesProcessed = (''game_gateway_messages_processed_total'', Counter, [''direction'', ''service_type''])"
| "declared ConfigRefreshErrors = (''game_gateway_config_refresh_errors_total'', Counter, [''config_type''])"
| "declared PoolCleanupErrors = (''game_gateway_pool_cleanup_errors_total'', Counter, [])"
| "declared ConfigRefreshSuccess = (''game_gateway_config_refresh_success_total'', Counter, [''config_type''])"

definition collectors :: "collector list" where
  "collectors = [ActiveConnections, TotalConnections, BackendConnectionsActive, ActiveSessions, RoutingErrors, ConnectionRejected,
     CircuitBreakerState, BackendRequestsTotal, BackendConnectionSetupLatency, BackendConnectionLatency, BackendErrorsTotal,
     BackendTimeoutsTotal, BackendRetriesTotal, BackendBytesTransmitted, ConnectionSetupLatency, MessagesProcessed,
     ConfigRefreshErrors, PoolCleanupErrors, ConfigRefreshSuccess]"

text \<open>Registration one by one in the registry of names.\<close>

fun register :: "collector list \<Rightarrow> string list \<Rightarrow> string list res" where
  "register [] names = Ok names"
| "register (c # cs) names =
     (let n = fst (declared c) in if n \<in> set names then Panic ''duplicate metrics collector registration attempted'' else register cs (n # names))"

text \<open>The values of the children of a collector, by label values.\<close>

type_synonym metric_values = "collector \<times> string list \<Rightarrow> int"

definition WithLabelValues_Inc :: "collector \<Rightarrow> string list \<Rightarrow> metric_values \<Rightarrow> metric_values res" where
  "WithLabelValues_Inc c vs m =
     (if length vs \<noteq> length (snd (snd (declared c))) then Panic ''inconsistent label cardinality'' else Ok (m((c, vs) := m (c, vs) + 1)))"

definition IncConnectionRejected :: "string \<Rightarrow> metric_values \<Rightarrow> metric_values res" where
  "IncConnectionRejected reason = WithLabelValues_Inc ConnectionRejected [reason]"

lemma register_ok:
  assumes "distinct (map (fst \<circ> declared) cs)" and "set (map (fst \<circ> declared) cs) \<inter> set names = {}"
  shows "\<exists>ns. register cs names = Ok ns \<and> set ns = set (map (fst \<circ> declared) cs) \<union> set names"
  using assms by (induction cs names rule: register.induct) (auto simp: Let_def)

text \<open>
  The metrics do not bring the process down: every collector is registered, under a name of its own, and
  counting a rejection never panics and touches its own reason only.
\<close>

theorem metrics_register:
  "(\<exists>names. register collectors [] = Ok names) \<and> set collectors = UNIV \<and>
   (\<exists>m'. IncConnectionRejected reason m = Ok m' \<and>
     (\<forall>k. m' k = m k + (if k = (ConnectionRejected, [reason]) then 1 else 0)))"
proof (intro conjI)
  have "distinct (map (fst \<circ> declared) collectors)" by (simp add: collectors_def)
  from register_ok [OF this, of "[]"] show "\<exists>names. register collectors [] = Ok names" by auto
  show "set collectors = UNIV" by (auto simp: collectors_def intro: collector.exhaust)
  show "\<exists>m'. IncConnectionRejected reason m = Ok m' \<and> (\<forall>k. m' k = m k + (if k = (ConnectionRejected, [reason]) then 1 else 0))"
    by (simp add: IncConnectionRejected_def WithLabelValues_Inc_def)
qed

end
