(* ===== verification/LoadTest.thy ===== *)
theory LoadTest
  imports Forward
begin

text \<open>
  The load generator \<open>src/tools/loadtest/main.go\<close>: the messages it sends, seen with the packet
  reader of the gateway, its counters, the exit code, and the compare-and-swap loops of the
  latency extrema as interleaved steps.  Printing is left out.
\<close>

section \<open>Messages\<close>

text \<open>The flags that shape a message.\<close>

record lt_flags =
  lf_serverType :: int
  lf_worldID :: int
  lf_messageSize :: int

definition lt_serverID :: "lt_flags \<Rightarrow> 32 word" where
  "lt_serverID f = (let instID = 0 in of_int (push_bit 16 (lf_worldID f) OR push_bit 8 (lf_serverType f) OR instID))"

definition lt_header :: "lt_flags \<Rightarrow> bytes" where
  "lt_header f =
     le_bytes 2 (of_int (lf_messageSize f) :: 16 word) @ le_bytes 2 (1 :: 16 word) @ le_bytes 4 (lt_serverID f)"

section \<open>Counters\<close>

record Stats =
  TotalConnections :: int
  SuccessfulConns :: int
  FailedConns :: int
  TotalMessages :: int
  SuccessfulMsgs :: int
  FailedMsgs :: int
  TotalBytes :: int
  MinLatency :: int
  MaxLatency :: int
  TotalLatency :: int
  LatencyCount :: int
  ConnErrors :: int
  ReadErrors :: int
  WriteErrors :: int

definition zero_stats :: Stats where
  "zero_stats = \<lparr>TotalConnections = 0, SuccessfulConns = 0, FailedConns = 0, TotalMessages = 0, SuccessfulMsgs = 0, FailedMsgs = 0,
     TotalBytes = 0, MinLatency = 0, MaxLatency = 0, TotalLatency = 0, LatencyCount = 0, ConnErrors = 0, ReadErrors = 0, WriteErrors = 0\<rparr>"

text \<open>The loops for the extrema when no other goroutine interferes; zero means no latency yet.\<close>

definition lt_min :: "int \<Rightarrow> int \<Rightarrow> int" where
  "lt_min latency oldMin = (if oldMin = 0 \<or> latency < oldMin then latency else oldMin)"

definition lt_max :: "int \<Rightarrow> int \<Rightarrow> int" where
  "lt_max latency oldMax = (if oldMax < latency then latency else oldMax)"

definition sendMessage :: "lt_flags \<Rightarrow> int \<Rightarrow> conn \<Rightarrow> Stats \<Rightarrow> go_error option \<times> conn \<times> Stats" where
  "sendMessage f latency c st =
     (case conn_Write c (lt_header f) of
        (Some err, c1) \<Rightarrow> (Some err, c1, st\<lparr>WriteErrors := WriteErrors st + 1, FailedMsgs := FailedMsgs st + 1\<rparr>)
      | (None, c1) \<Rightarrow>
          let st1 = st\<lparr>TotalMessages := TotalMessages st + 1, TotalBytes := TotalBytes st + int (length (lt_header f))\<rparr>
          in case conn_Read c1 1024 of
               (r, c2) \<Rightarrow>
                 let st2 = (case r of
                       Got b bs \<Rightarrow> st1\<lparr>TotalBytes := TotalBytes st1 + int (Suc (length bs))\<rparr>
                     | Failed err \<Rightarrow> if err = EOF \<or> err = ErrTimeout then st1 else st1\<lparr>ReadErrors := ReadErrors st1 + 1\<rparr>
                     | Panicked m \<Rightarrow> st1)
                 in (None, c2, st2\<lparr>SuccessfulMsgs := SuccessfulMsgs st2 + 1, LatencyCount := LatencyCount st2 + 1,
                       MinLatency := lt_min latency (MinLatency st2), MaxLatency := lt_max latency (MaxLatency st2),
                       TotalLatency := TotalLatency st2 + latency\<rparr>))"

text \<open>The loop of a connection: one message per tick, with its latency, until a write fails or the test is over.\<close>

fun lt_loop :: "lt_flags \<Rightarrow> int list \<Rightarrow> conn \<Rightarrow> Stats \<Rightarrow> conn \<times> Stats" where
  "lt_loop f [] c st = (c, st)"
| "lt_loop f (latency # ticks) c st =
     (case sendMessage f latency c st of
        (Some err, c', st') \<Rightarrow> (c', st')
      | (None, c', st') \<Rightarrow> lt_loop f ticks c' st')"

definition runConnection :: "lt_flags \<Rightarrow> conn res \<Rightarrow> int list \<Rightarrow> Stats \<Rightarrow> conn option \<times> Stats" where
  "runConnection f dial ticks st =
     (let st1 = st\<lparr>TotalConnections := TotalConnections st + 1\<rparr>
      in case dial of
           Ok c \<Rightarrow>
             (case lt_loop f ticks c (st1\<lparr>SuccessfulConns := SuccessfulConns st1 + 1\<rparr>) of
                (c', st') \<Rightarrow> (Some (snd (conn_Close c')), st'))
         | _ \<Rightarrow> (None, st1\<lparr>FailedConns := FailedConns st1 + 1, ConnErrors := ConnErrors st1 + 1\<rparr>))"

text \<open>The exit code of \<open>printFinalReport\<close>; the counters are not negative, so \<open>div\<close> is Go's division.\<close>

definition lt_exit :: "Stats \<Rightarrow> nat" where
  "lt_exit st = (if TotalConnections st div 10 < FailedConns st \<or> TotalMessages st div 10 < FailedMsgs st then 1 else 0)"

text \<open>The semaphore of \<open>main\<close>: a connection starts only while fewer than \<open>connections\<close> run.\<close>

record lt_main = lm_limit :: nat lm_running :: nat lm_wg :: nat

datatype lt_event = TryStart | ConnEnds

primrec main_round :: "lt_event \<Rightarrow> lt_main \<Rightarrow> lt_main" where
  "main_round TryStart m =
     (if lm_running m < lm_limit m then m\<lparr>lm_running := lm_running m + 1, lm_wg := lm_wg m + 1\<rparr> else m)"
| "main_round ConnEnds m = (if 0 < lm_running m then m\<lparr>lm_running := lm_running m - 1, lm_wg := lm_wg m - 1\<rparr> else m)"

section \<open>Framing\<close>

definition lt_client_header :: "lt_flags \<Rightarrow> ClientMessageHeader" where
  "lt_client_header f = \<lparr>cmh_Length = of_int (lf_messageSize f), cmh_MessageID = 1, cmh_ServerID = lt_serverID f\<rparr>"

lemma lt_header_bytes: "lt_header f = client_header_bytes (lt_client_header f)"
  by (simp add: lt_header_def client_header_bytes_def lt_client_header_def)

lemma length_lt_header [simp]: "length (lt_header f) = 8"
  by (simp add: lt_header_bytes)

lemma length_replicate_header: "length (concat (replicate n (lt_header f))) = 8 * n"
  by (induction n) simp_all

lemma concat_replicate_mult: "concat (replicate (m * n) xs) = concat (replicate n (concat (replicate m xs)))"
  by (induction n) (simp_all add: replicate_add)

lemma lt_length_unat:
  assumes "lf_messageSize f = 8 * int k" and "k < 8192"
  shows "unat (cmh_Length (lt_client_header f)) = 8 * k"
proof -
  have "of_int (lf_messageSize f) = (of_nat (8 * k) :: 16 word)" using assms(1) by simp
  then have "unat (cmh_Length (lt_client_header f)) = 8 * k mod 2 ^ 16"
    by (simp only: lt_client_header_def ClientMessageHeader.simps unat_of_nat) simp
  then show ?thesis using assms(2) by simp
qed

lemma parse_lt_header:
  assumes "unat (cmh_Length (lt_client_header f)) = 8 * k"
  shows "parse_packet 0 (lt_header f @ rest) e =
    (if length rest < 8 * k then short_read rest e else Ok (lt_client_header f, take (8 * k) rest))"
  by (simp add: parse_packet_def lt_header_bytes assms Let_def)

lemma replicate_header_Suc: "concat (replicate (Suc n) (lt_header f)) = lt_header f @ concat (replicate n (lt_header f))"
  by simp

text \<open>
  The load generator sends headers without the payload they announce.  With a message size of \<open>8 * k\<close> bytes (the
  default has \<open>k = 1\<close>) the gateway takes the next \<open>k\<close> messages for the payload of the first:
  up to \<open>k\<close> messages are no packet at all, and \<open>n * (k + 1)\<close> messages are \<open>n\<close> packets.
\<close>

theorem loadtest_misframed:
  assumes "lf_messageSize f = 8 * int k" and "k < 8192"
  shows "(\<forall>j \<le> k. \<not> is_ok (parse_packet 0 (concat (replicate j (lt_header f))) e)) \<and>
    concat (replicate ((k + 1) * n) (lt_header f)) =
      concat (map client_bytes (replicate n (lt_client_header f, concat (replicate k (lt_header f)), None))) \<and>
    whole_packet (lt_client_header f, concat (replicate k (lt_header f)), None) \<and>
    (0 < n \<longrightarrow> parse_packet 0 (concat (replicate ((k + 1) * n) (lt_header f))) e = Ok (lt_client_header f, concat (replicate k (lt_header f))))"
proof -
  note len = lt_length_unat [OF assms]
  have few: "\<not> is_ok (parse_packet 0 (concat (replicate j (lt_header f))) e)" if "j \<le> k" for j
  proof (cases j)
    case 0
    then show ?thesis by (simp add: parse_packet_def)
  next
    case (Suc i)
    then show ?thesis using that parse_lt_header [OF len, of "concat (replicate i (lt_header f))" e]
      by (simp add: length_replicate_header)
  qed
  have whole: "whole_packet (lt_client_header f, concat (replicate k (lt_header f)), None)" by (simp add: len length_replicate_header)
  have bytes: "concat (replicate ((k + 1) * m) (lt_header f)) =
      concat (map client_bytes (replicate m (lt_client_header f, concat (replicate k (lt_header f)), None)))" for m
    unfolding concat_replicate_mult by (simp add: lt_header_bytes)
  have "parse_packet 0 (concat (replicate ((k + 1) * n) (lt_header f))) e = Ok (lt_client_header f, concat (replicate k (lt_header f)))" if n: "0 < n"
  proof -
    obtain m where "n = Suc m" using gr0_implies_Suc [OF n] by blast
    then have "concat (replicate ((k + 1) * n) (lt_header f)) =
        lt_header f @ concat (replicate k (lt_header f)) @ concat (replicate ((k + 1) * m) (lt_header f))"
      using bytes [of n] bytes [of m] by (simp add: lt_header_bytes)
    then show ?thesis using parse_lt_header [OF len] by (simp add: length_replicate_header)
  qed
  then show ?thesis using few bytes [of n] whole by blast
qed

theorem loadtest_misframed_witness:
  "\<not> is_ok (parse_packet 0 (lt_header \<lparr>lf_serverType = 10, lf_worldID = 0, lf_messageSize = 8\<rparr>) (Stops EOF))"
  using loadtest_misframed [of "\<lparr>lf_serverType = 10, lf_worldID = 0, lf_messageSize = 8\<rparr>" 1 "Stops EOF" 0] by force

section \<open>Accounting\<close>

definition stats_inv :: "Stats \<Rightarrow> bool" where
  "stats_inv st \<longleftrightarrow> TotalConnections st = SuccessfulConns st + FailedConns st \<and> ConnErrors st = FailedConns st \<and>
     TotalMessages st = SuccessfulMsgs st \<and> LatencyCount st = SuccessfulMsgs st \<and> FailedMsgs st = WriteErrors st \<and>
     0 \<le> FailedConns st \<and> 0 \<le> SuccessfulMsgs st \<and> 0 \<le> FailedMsgs st \<and> FailedMsgs st \<le> SuccessfulConns st \<and>
     8 * TotalMessages st \<le> TotalBytes st"

lemma sendMessage_stats:
  assumes "sendMessage f l c st = (err, c', st')"
  shows "TotalConnections st' = TotalConnections st" "SuccessfulConns st' = SuccessfulConns st" "FailedConns st' = FailedConns st"
    "ConnErrors st' = ConnErrors st"
    "TotalMessages st' = TotalMessages st + (if err = None then 1 else 0)" "SuccessfulMsgs st' = SuccessfulMsgs st + (if err = None then 1 else 0)"
    "LatencyCount st' = LatencyCount st + (if err = None then 1 else 0)" "FailedMsgs st' = FailedMsgs st + (if err = None then 0 else 1)"
    "WriteErrors st' = WriteErrors st + (if err = None then 0 else 1)" "TotalBytes st + (if err = None then 8 else 0) \<le> TotalBytes st'"
  using assms by (auto simp: sendMessage_def Let_def split: prod.splits option.splits rd_result.splits)

text \<open>A connection loses at most one message, its last.\<close>

lemma lt_loop_stats:
  assumes "lt_loop f ticks c st = (c', st')"
  shows "TotalConnections st' = TotalConnections st \<and> SuccessfulConns st' = SuccessfulConns st \<and> FailedConns st' = FailedConns st \<and>
    ConnErrors st' = ConnErrors st \<and> TotalMessages st' - SuccessfulMsgs st' = TotalMessages st - SuccessfulMsgs st \<and>
    LatencyCount st' - SuccessfulMsgs st' = LatencyCount st - SuccessfulMsgs st \<and> SuccessfulMsgs st \<le> SuccessfulMsgs st' \<and>
    FailedMsgs st' - WriteErrors st' = FailedMsgs st - WriteErrors st \<and> FailedMsgs st \<le> FailedMsgs st' \<and> FailedMsgs st' \<le> FailedMsgs st + 1 \<and>
    TotalBytes st - 8 * TotalMessages st \<le> TotalBytes st' - 8 * TotalMessages st'"
  using assms
proof (induction f ticks c st rule: lt_loop.induct)
  case (2 f l ticks c st)
  obtain err c1 st1 where s: "sendMessage f l c st = (err, c1, st1)" by (cases "sendMessage f l c st")
  note stats = sendMessage_stats [OF s]
  show ?case
  proof (cases err)
    case None
    then have "lt_loop f ticks c1 st1 = (c', st')" using "2.prems" s by simp
    from "2.IH" [OF s [symmetric] None refl this] show ?thesis using stats None by simp
  next
    case (Some x)
    then show ?thesis using "2.prems" s stats by simp
  qed
qed simp

lemma runConnection_inv: "stats_inv st \<Longrightarrow> stats_inv (snd (runConnection f dial ticks st))"
proof (cases dial)
  case (Ok c)
  assume inv: "stats_inv st"
  define st1 where "st1 = st\<lparr>TotalConnections := TotalConnections st + 1, SuccessfulConns := SuccessfulConns st + 1\<rparr>"
  obtain c' st' where l: "lt_loop f ticks c st1 = (c', st')" by fastforce
  then have "snd (runConnection f dial ticks st) = st'" using Ok by (simp add: runConnection_def st1_def)
  then show ?thesis using lt_loop_stats [OF l] inv by (simp add: stats_inv_def st1_def)
qed (simp_all add: runConnection_def stats_inv_def)

text \<open>
  The counters add up after any sequence of connections: each connection is a success or a failure, every message
  sent has a latency and counts as a success whatever is read, at most one message per
  connection fails; so a test without failed connections that sends more than ten messages per connection
  passes, even if the gateway never answers.
\<close>

theorem loadtest_accounting:
  assumes "st = fold (\<lambda>(dial, ticks) s. snd (runConnection f dial ticks s)) runs zero_stats"
  shows "TotalConnections st = SuccessfulConns st + FailedConns st \<and> TotalMessages st = SuccessfulMsgs st \<and>
    FailedMsgs st = WriteErrors st \<and> FailedMsgs st \<le> SuccessfulConns st \<and> 8 * TotalMessages st \<le> TotalBytes st \<and>
    (FailedConns st = 0 \<and> 10 * SuccessfulConns st \<le> TotalMessages st \<longrightarrow> lt_exit st = 0)"
proof -
  have "stats_inv s \<Longrightarrow> stats_inv (fold (\<lambda>(dial, ticks) s. snd (runConnection f dial ticks s)) runs s)" for s
    by (induction runs arbitrary: s) (auto simp: runConnection_inv)
  moreover have "stats_inv zero_stats" by (simp add: stats_inv_def zero_stats_def)
  ultimately have "stats_inv st" using assms by blast
  then show ?thesis by (auto simp: stats_inv_def lt_exit_def)
qed

section \<open>The extrema under interleaving\<close>

text \<open>
  Where the goroutine of a message is in the two loops: before a load, or before the swap with
  the value it loaded.  Everything else of the loops is local.
\<close>

datatype lat_pc = LMin | LMinSwap int | LMax | LMaxSwap int | LDone

record lat_sys =
  ls_min :: int
  ls_max :: int
  ls_pc :: "nat \<Rightarrow> lat_pc"

definition min_load :: "(nat \<Rightarrow> int) \<Rightarrow> nat \<Rightarrow> lat_sys \<Rightarrow> lat_sys" where
  "min_load latency i s =
     s\<lparr>ls_pc := (ls_pc s)(i := if ls_min s = 0 \<or> latency i < ls_min s then LMinSwap (ls_min s) else LMax)\<rparr>"

definition min_swap :: "(nat \<Rightarrow> int) \<Rightarrow> nat \<Rightarrow> int \<Rightarrow> lat_sys \<Rightarrow> lat_sys" where
  "min_swap latency i oldMin s =
     (if ls_min s = oldMin then s\<lparr>ls_min := latency i, ls_pc := (ls_pc s)(i := LMax)\<rparr> else s\<lparr>ls_pc := (ls_pc s)(i := LMin)\<rparr>)"

definition max_load :: "(nat \<Rightarrow> int) \<Rightarrow> nat \<Rightarrow> lat_sys \<Rightarrow> lat_sys" where
  "max_load latency i s =
     s\<lparr>ls_pc := (ls_pc s)(i := if ls_max s < latency i then LMaxSwap (ls_max s) else LDone)\<rparr>"

definition max_swap :: "(nat \<Rightarrow> int) \<Rightarrow> nat \<Rightarrow> int \<Rightarrow> lat_sys \<Rightarrow> lat_sys" where
  "max_swap latency i oldMax s =
     (if ls_max s = oldMax then s\<lparr>ls_max := latency i, ls_pc := (ls_pc s)(i := LDone)\<rparr> else s\<lparr>ls_pc := (ls_pc s)(i := LMax)\<rparr>)"

inductive lat_reach :: "(nat \<Rightarrow> int) \<Rightarrow> lat_sys \<Rightarrow> bool" for latency where
  lat_start: "lat_reach latency \<lparr>ls_min = 0, ls_max = 0, ls_pc = (\<lambda>_. LMin)\<rparr>"
| lat_min_load: "lat_reach latency s \<Longrightarrow> ls_pc s i = LMin \<Longrightarrow> lat_reach latency (min_load latency i s)"
| lat_min_swap: "lat_reach latency s \<Longrightarrow> ls_pc s i = LMinSwap v \<Longrightarrow> lat_reach latency (min_swap latency i v s)"
| lat_max_load: "lat_reach latency s \<Longrightarrow> ls_pc s i = LMax \<Longrightarrow> lat_reach latency (max_load latency i s)"
| lat_max_swap: "lat_reach latency s \<Longrightarrow> ls_pc s i = LMaxSwap v \<Longrightarrow> lat_reach latency (max_swap latency i v s)"

definition past_min :: "lat_pc \<Rightarrow> bool" where
  "past_min pc \<longleftrightarrow> (case pc of LMin \<Rightarrow> False | LMinSwap v \<Rightarrow> False | _ \<Rightarrow> True)"

text \<open>\<open>v\<close> is the least or greatest value on a set, and zero when that is empty.\<close>

definition least :: "('a \<Rightarrow> int) \<Rightarrow> 'a set \<Rightarrow> int \<Rightarrow> bool" where
  "least f S v \<longleftrightarrow> (if S = {} then v = 0 else v \<in> f ` S \<and> (\<forall>i \<in> S. v \<le> f i))"

definition greatest :: "('a \<Rightarrow> int) \<Rightarrow> 'a set \<Rightarrow> int \<Rightarrow> bool" where
  "greatest f S v \<longleftrightarrow> (if S = {} then v = 0 else v \<in> f ` S \<and> (\<forall>i \<in> S. f i \<le> v))"

lemma least_insert:
  assumes "least f S v" and "\<And>i. 0 < f i"
  shows "v = 0 \<or> f i < v \<Longrightarrow> least f (insert i S) (f i)" "v \<noteq> 0 \<Longrightarrow> v \<le> f i \<Longrightarrow> least f (insert i S) v"
proof -
  have z: "v = 0 \<Longrightarrow> S = {}" using assms unfolding least_def by (metis imageE less_irrefl)
  then show "v = 0 \<or> f i < v \<Longrightarrow> least f (insert i S) (f i)" using assms(1) by (force simp: least_def split: if_splits)
  show "v \<noteq> 0 \<Longrightarrow> v \<le> f i \<Longrightarrow> least f (insert i S) v" using assms(1) by (auto simp: least_def split: if_splits)
qed

lemma greatest_insert:
  assumes "greatest f S v" and "\<And>i. 0 < f i"
  shows "v < f i \<Longrightarrow> greatest f (insert i S) (f i)" "f i \<le> v \<Longrightarrow> greatest f (insert i S) v"
  using assms(1) assms(2) [of i] by (force simp: greatest_def split: if_splits)+

definition passed :: "(nat \<Rightarrow> lat_pc) \<Rightarrow> nat set" where "passed pc = {i. past_min (pc i)}"
definition through :: "(nat \<Rightarrow> lat_pc) \<Rightarrow> nat set" where "through pc = {i. pc i = LDone}"

text \<open>
  The minimum is that of the latencies past the first loop, the maximum that of those past
  both; and a value loaded for a swap justified the swap.
\<close>

definition lat_inv :: "(nat \<Rightarrow> int) \<Rightarrow> lat_sys \<Rightarrow> bool" where
  "lat_inv latency s \<longleftrightarrow> least latency (passed (ls_pc s)) (ls_min s) \<and> greatest latency (through (ls_pc s)) (ls_max s) \<and>
     (\<forall>i v. ls_pc s i = LMinSwap v \<longrightarrow> v = 0 \<or> latency i < v) \<and> (\<forall>i v. ls_pc s i = LMaxSwap v \<longrightarrow> v < latency i)"

lemma past_min_simps [simp]:
  "\<not> past_min LMin" "\<not> past_min (LMinSwap v)" "past_min LMax" "past_min (LMaxSwap v)" "past_min LDone"
  by (simp_all add: past_min_def)

lemma passed_upd:
  "past_min x \<Longrightarrow> past_min (pc i) \<Longrightarrow> passed (pc(i := x)) = passed pc" "past_min x \<Longrightarrow> \<not> past_min (pc i) \<Longrightarrow> passed (pc(i := x)) = insert i (passed pc)"
  "\<not> past_min x \<Longrightarrow> \<not> past_min (pc i) \<Longrightarrow> passed (pc(i := x)) = passed pc"
  by (auto simp: passed_def)

lemma through_upd:
  "through (pc(i := LDone)) = insert i (through pc)" "x \<noteq> LDone \<Longrightarrow> pc i \<noteq> LDone \<Longrightarrow> through (pc(i := x)) = through pc"
  by (auto simp: through_def)

lemma lat_inv_steps:
  assumes "lat_inv latency s" and pos: "\<And>i. 0 < latency i"
  shows "ls_pc s i = LMin \<Longrightarrow> lat_inv latency (min_load latency i s)"
    and "ls_pc s i = LMinSwap v \<Longrightarrow> lat_inv latency (min_swap latency i v s)"
    and "ls_pc s i = LMax \<Longrightarrow> lat_inv latency (max_load latency i s)"
    and "ls_pc s i = LMaxSwap v \<Longrightarrow> lat_inv latency (max_swap latency i v s)"
proof -
  note lo = least_insert [where f = latency, OF _ pos] and hi = greatest_insert [where f = latency, OF _ pos]
  show "lat_inv latency (min_load latency i s)" if "ls_pc s i = LMin"
    using assms(1) that unfolding lat_inv_def min_load_def by (auto simp: passed_upd through_upd intro: lo)
  show "lat_inv latency (min_swap latency i v s)" if "ls_pc s i = LMinSwap v"
  proof -
    have "v = 0 \<or> latency i < v" using assms(1) that by (simp add: lat_inv_def)
    then show ?thesis using assms(1) that lo(1) [where S = "passed (ls_pc s)" and v = v and i = i] unfolding lat_inv_def min_swap_def
      by (auto simp: passed_upd through_upd)
  qed
  show "lat_inv latency (max_load latency i s)" if "ls_pc s i = LMax"
    using assms(1) that unfolding lat_inv_def max_load_def by (auto simp: passed_upd through_upd intro: hi)
  show "lat_inv latency (max_swap latency i v s)" if "ls_pc s i = LMaxSwap v"
    using assms(1) that unfolding lat_inv_def max_swap_def by (auto simp: passed_upd through_upd intro: hi)
qed

lemma lat_reach_inv: "lat_reach latency s \<Longrightarrow> (\<And>i. 0 < latency i) \<Longrightarrow> lat_inv latency s"
proof (induction rule: lat_reach.induct)
  case lat_start
  then show ?case by (simp add: lat_inv_def least_def greatest_def passed_def through_def)
qed (simp_all add: lat_inv_steps)

text \<open>
  The lock-free loops compute the extrema: in every interleaving of any number of messages,
  once all those that have begun are through, the two variables hold the least and the greatest of their latencies.
\<close>

theorem latency_extrema_exact:
  assumes "lat_reach latency s" and "\<And>i. 0 < latency i" and "finite I" and "I \<noteq> {}"
    and "\<And>i. ls_pc s i = (if i \<in> I then LDone else LMin)"
  shows "ls_min s = Min (latency ` I) \<and> ls_max s = Max (latency ` I)"
proof -
  have I: "passed (ls_pc s) = I" "through (ls_pc s) = I" using assms(5) by (auto simp: passed_def through_def)
  have "least latency I (ls_min s)" "greatest latency I (ls_max s)"
    using lat_reach_inv [OF assms(1,2)] by (simp_all add: lat_inv_def I)
  then show ?thesis using assms(3,4) by (auto simp: least_def greatest_def intro!: Min_eqI [symmetric] Max_eqI [symmetric])
qed

end
