(* ===== verification/Deadlines.thy ===== *)
theory Deadlines
  imports Forward Sniffer
begin

text \<open>
  Time.  The other theories let a read fail with a timeout whenever it may; here a connection has
  deadlines and its bytes have arrival times, so that the calls of \<open>SetReadDeadline\<close> in the accept
  loop, the sniffer and the forwarding loops can be followed: which waits they bound,
  and which they do not.  A connection is shown to be a \<open>byte_reader\<close>, of the bytes that arrive in
  time, so that the theorems on reading apply to it as they are.
\<close>

section \<open>Connections with deadlines\<close>

text \<open>
  \<open>tc_clock\<close> is the time of the goroutine that reads.  The bytes of the peer come with the time they
  arrive; \<open>tc_final\<close> is when and how the peer ends the stream, \<open>None\<close> if it never does.  A deadline
  \<open>None\<close> is Go's zero time: no deadline.
\<close>

record timed_conn =
  tc_clock :: time
  tc_arrivals :: "(time \<times> byte) list"
  tc_final :: "(time \<times> go_error) option"
  tc_readDeadline :: "time option"
  tc_writeDeadline :: "time option"
  tc_closed :: bool
  tc_localAddr :: string
  tc_remoteAddr :: string

definition overdue :: "timed_conn \<Rightarrow> time \<Rightarrow> bool" where
  "overdue c t \<longleftrightarrow> (case tc_readDeadline c of None \<Rightarrow> False | Some d \<Rightarrow> d \<le> t)"

text \<open>
  \<open>Read\<close>: at once when the deadline has passed or something has arrived, otherwise when the next
  byte, the end of the stream or the deadline comes, whichever is first.  \<open>None\<close> is a call that
  never returns.
\<close>

definition timed_Read :: "timed_conn \<Rightarrow> nat \<Rightarrow> (rd_result \<times> timed_conn) option" where
  "timed_Read c n =
     (let late = Some (Failed ErrTimeout, c\<lparr>tc_clock := (case tc_readDeadline c of None \<Rightarrow> tc_clock c | Some d \<Rightarrow> max (tc_clock c) d)\<rparr>)
      in if tc_closed c then Some (Failed ErrClosed, c)
         else if overdue c (tc_clock c) then late
         else case tc_arrivals c of
           (a, x) # rest \<Rightarrow>
             let t = max (tc_clock c) a;
                 got = take (n - 1) (takeWhile (\<lambda>(a', _). a' \<le> t) rest)
             in if overdue c t then late else Some (Got x (map snd got), c\<lparr>tc_clock := t, tc_arrivals := drop (length got) rest\<rparr>)
         | [] \<Rightarrow>
             (case tc_final c of
                Some (a, e) \<Rightarrow> let t = max (tc_clock c) a in if overdue c t then late else Some (Failed e, c\<lparr>tc_clock := t\<rparr>)
              | None \<Rightarrow> if tc_readDeadline c = None then None else late))"

text \<open>
  A reader in the sense of \<open>Streams\<close>: the state \<open>None\<close> is that of a goroutine whose read never
  returned, and the error that comes with it is returned to nobody.
\<close>

definition timed_rd :: "timed_conn option rd" where
  "timed_rd s n =
     (case s of
        None \<Rightarrow> (Failed ErrTimeout, None)
      | Some c \<Rightarrow> (case timed_Read c n of None \<Rightarrow> (Failed ErrTimeout, None) | Some (r, c') \<Rightarrow> (r, Some c')))"

definition net_SetReadDeadline :: "time option \<Rightarrow> timed_conn \<Rightarrow> go_error option \<times> timed_conn" where
  "net_SetReadDeadline t c = (if tc_closed c then (Some ErrClosed, c) else (None, c\<lparr>tc_readDeadline := t\<rparr>))"

definition net_SetWriteDeadline :: "time option \<Rightarrow> timed_conn \<Rightarrow> go_error option \<times> timed_conn" where
  "net_SetWriteDeadline t c = (if tc_closed c then (Some ErrClosed, c) else (None, c\<lparr>tc_writeDeadline := t\<rparr>))"

definition net_SetDeadline :: "time option \<Rightarrow> timed_conn \<Rightarrow> go_error option \<times> timed_conn" where
  "net_SetDeadline t c = (if tc_closed c then (Some ErrClosed, c) else (None, c\<lparr>tc_readDeadline := t, tc_writeDeadline := t\<rparr>))"

section \<open>The methods of the wrappers\<close>

text \<open>
  \<open>SniffConn\<close> over a connection, and \<open>WebSocketConn\<close>, which keeps the connection beside the buffered
  reader.  The connection of a \<open>SniffConn\<close> is \<open>None\<close> once its goroutine is in a read that never
  returns, and then makes no further call.
\<close>

type_synonym timed_sniff = "timed_conn option bufio"

definition on_sniffed :: "(timed_conn \<Rightarrow> go_error option \<times> timed_conn) \<Rightarrow> timed_sniff \<Rightarrow> go_error option \<times> timed_sniff" where
  "on_sniffed f s =
     (case bf_rd s of
        None \<Rightarrow> (None, s)
      | Some c \<Rightarrow> (case f c of (err, c') \<Rightarrow> (err, s\<lparr>bf_rd := Some c'\<rparr>)))"

definition sniff_SetDeadline :: "time option \<Rightarrow> timed_sniff \<Rightarrow> go_error option \<times> timed_sniff" where
  "sniff_SetDeadline t = on_sniffed (net_SetDeadline t)"

definition sniff_SetReadDeadline :: "time option \<Rightarrow> timed_sniff \<Rightarrow> go_error option \<times> timed_sniff" where
  "sniff_SetReadDeadline t = on_sniffed (net_SetReadDeadline t)"

definition sniff_SetWriteDeadline :: "time option \<Rightarrow> timed_sniff \<Rightarrow> go_error option \<times> timed_sniff" where
  "sniff_SetWriteDeadline t = on_sniffed (net_SetWriteDeadline t)"

definition sniff_LocalAddr :: "timed_sniff \<Rightarrow> string option" where "sniff_LocalAddr s = map_option tc_localAddr (bf_rd s)"
definition sniff_RemoteAddr :: "timed_sniff \<Rightarrow> string option" where "sniff_RemoteAddr s = map_option tc_remoteAddr (bf_rd s)"

record timed_ws =
  tw_conn :: timed_conn
  tw_buffered :: bytes

definition on_bridged :: "(timed_conn \<Rightarrow> 'a \<times> timed_conn) \<Rightarrow> timed_ws \<Rightarrow> 'a \<times> timed_ws" where
  "on_bridged f w = (case f (tw_conn w) of (x, c) \<Rightarrow> (x, w\<lparr>tw_conn := c\<rparr>))"

definition ws_SetDeadline :: "time option \<Rightarrow> timed_ws \<Rightarrow> go_error option \<times> timed_ws" where
  "ws_SetDeadline t = on_bridged (net_SetDeadline t)"

definition ws_SetReadDeadline :: "time option \<Rightarrow> timed_ws \<Rightarrow> go_error option \<times> timed_ws" where
  "ws_SetReadDeadline t = on_bridged (net_SetReadDeadline t)"

definition ws_SetWriteDeadline :: "time option \<Rightarrow> timed_ws \<Rightarrow> go_error option \<times> timed_ws" where
  "ws_SetWriteDeadline t = on_bridged (net_SetWriteDeadline t)"

definition ws_LocalAddr :: "timed_ws \<Rightarrow> string" where "ws_LocalAddr w = tc_localAddr (tw_conn w)"
definition ws_RemoteAddr :: "timed_ws \<Rightarrow> string" where "ws_RemoteAddr w = tc_remoteAddr (tw_conn w)"

section \<open>A timed connection is a reader of what arrives in time\<close>

fun timed_content :: "timed_conn option \<Rightarrow> bytes" where
  "timed_content (Some c) =
     (if tc_closed c \<or> overdue c (tc_clock c) then [] else map snd (takeWhile (\<lambda>(a, _). \<not> overdue c a) (tc_arrivals c)))"
| "timed_content None = []"

fun timed_ending :: "timed_conn option \<Rightarrow> stop" where
  "timed_ending (Some c) =
     Stops (if tc_closed c then ErrClosed
            else if overdue c (tc_clock c) \<or> \<not> list_all (\<lambda>(a, _). \<not> overdue c a) (tc_arrivals c) then ErrTimeout
            else case tc_final c of Some (a, e) \<Rightarrow> if overdue c a then ErrTimeout else e | None \<Rightarrow> ErrTimeout)"
| "timed_ending None = Stops ErrTimeout"

lemma overdue_simps [simp]:
  "overdue (c\<lparr>tc_clock := t\<rparr>) x = overdue c x" "overdue (c\<lparr>tc_arrivals := as\<rparr>) x = overdue c x"
  "\<not> overdue c (tc_clock c) \<Longrightarrow> overdue c (max (tc_clock c) a) = overdue c a"
  by (auto simp: overdue_def max_def split: option.splits)

lemma overdue_mono: "overdue c x \<Longrightarrow> x \<le> y \<Longrightarrow> overdue c y"
  by (auto simp: overdue_def split: option.splits)

lemma overdue_some: "overdue c x \<Longrightarrow> tc_readDeadline c \<noteq> None"
  by (cases "tc_readDeadline c") (simp_all add: overdue_def)

text \<open>The bytes a read returns all arrive in time, and what remains is what it left.\<close>

lemma in_time_drop:
  assumes "\<not> overdue c t" and "got = take k (takeWhile (\<lambda>(a, _). a \<le> t) rest)"
  shows "takeWhile (\<lambda>(a, _). \<not> overdue c a) rest = got @ takeWhile (\<lambda>(a, _). \<not> overdue c a) (drop (length got) rest)"
    and "list_all (\<lambda>(a, _). \<not> overdue c a) rest = list_all (\<lambda>(a, _). \<not> overdue c a) (drop (length got) rest)"
proof -
  have "prefix got rest" using assms(2) by (metis take_is_prefix takeWhile_eq_take prefix_order.trans)
  then have split: "rest = got @ drop (length got) rest" by (auto simp: prefix_def)
  have "\<forall>(a, b) \<in> set got. a \<le> t" using assms(2) by (auto dest: in_set_takeD set_takeWhileD)
  then have ok: "\<forall>(a, b) \<in> set got. \<not> overdue c a" using assms(1) overdue_mono by fastforce
  show "takeWhile (\<lambda>(a, _). \<not> overdue c a) rest = got @ takeWhile (\<lambda>(a, _). \<not> overdue c a) (drop (length got) rest)"
    by (subst split, rule takeWhile_append2) (use ok in auto)
  show "list_all (\<lambda>(a, _). \<not> overdue c a) rest = list_all (\<lambda>(a, _). \<not> overdue c a) (drop (length got) rest)"
    by (subst split, simp only: list_all_append) (use ok in \<open>auto simp: list_all_iff\<close>)
qed

lemma timed_Read_got:
  assumes "0 < n" and "timed_content (Some c) \<noteq> []"
  shows "\<exists>b bs c'. timed_Read c n = Some (Got b bs, c') \<and> length bs < n \<and>
    timed_content (Some c) = b # bs @ timed_content (Some c') \<and> timed_ending (Some c') = timed_ending (Some c)"
proof -
  from assms(2) obtain a x rest where c: "tc_arrivals c = (a, x) # rest" "\<not> tc_closed c" "\<not> overdue c (tc_clock c)" "\<not> overdue c a"
    by (cases "tc_arrivals c") (auto split: if_splits)
  define t where "t = max (tc_clock c) a"
  define got where "got = take (n - 1) (takeWhile (\<lambda>(a', _). a' \<le> t) rest)"
  have t: "\<not> overdue c t" using c by (simp add: t_def)
  note rest = in_time_drop [OF t got_def]
  define c1 where "c1 = c\<lparr>tc_clock := t, tc_arrivals := drop (length got) rest\<rparr>"
  have read: "timed_Read c n = Some (Got x (map snd got), c1)"
    using c t unfolding timed_Read_def c1_def got_def t_def by (simp add: Let_def)
  have c1: "overdue c1 = overdue c" "tc_clock c1 = t" "tc_closed c1 = tc_closed c" "tc_final c1 = tc_final c" "tc_arrivals c1 = drop (length got) rest"
    by (auto simp: c1_def)
  have "length (map snd got) < n" using assms(1) by (simp add: got_def)
  moreover have "timed_content (Some c) = x # map snd got @ timed_content (Some c1)" using c t rest(1) by (simp add: c1)
  moreover have "timed_ending (Some c1) = timed_ending (Some c)" using c t rest(2) by (simp add: c1 split: option.split)
  ultimately show ?thesis using read by blast
qed

text \<open>Nothing more comes in time: the read fails with the error of the stream, or does not return.\<close>

definition given_up :: "timed_conn \<Rightarrow> timed_conn" where
  "given_up c = c\<lparr>tc_clock := (case tc_readDeadline c of None \<Rightarrow> tc_clock c | Some d \<Rightarrow> max (tc_clock c) d)\<rparr>"

lemma given_up_simps [simp]:
  "overdue (given_up c) = overdue c" "tc_closed (given_up c) = tc_closed c" "tc_readDeadline c \<noteq> None \<Longrightarrow> overdue c (tc_clock (given_up c))"
  by (auto simp: given_up_def overdue_def)

lemmas timed_Read_defs = timed_Read_def Let_def given_up_def [symmetric]

lemma timed_Read_no_more:
  assumes "tc_arrivals c = []" and "\<not> overdue c (tc_clock c)" and "\<not> tc_closed c"
  obtains (never) "timed_Read c n = None" "tc_readDeadline c = None" "tc_final c = None"
  | (late) "timed_Read c n = Some (Failed ErrTimeout, given_up c)" "timed_ending (Some c) = Stops ErrTimeout" "tc_readDeadline c \<noteq> None"
  | (ended) a e where "timed_Read c n = Some (Failed e, c\<lparr>tc_clock := max (tc_clock c) a\<rparr>)" "tc_final c = Some (a, e)" "\<not> overdue c a"
proof (cases "tc_final c")
  case None
  show thesis
  proof (cases "tc_readDeadline c = None")
    case True
    then show thesis using assms None by (intro never) (simp_all add: timed_Read_def Let_def)
  next
    case False
    then show thesis using assms None by (intro late) (simp_all add: timed_Read_defs)
  qed
next
  case (Some f)
  obtain a e where f: "f = (a, e)" by (cases f)
  show thesis
  proof (cases "overdue c a")
    case True
    then show thesis using assms Some f by (intro late) (simp_all add: timed_Read_defs overdue_some)
  next
    case False
    then show thesis using assms Some f by (intro ended [of e a]) (simp_all add: timed_Read_defs)
  qed
qed

lemma timed_Read_end:
  assumes "timed_content (Some c) = []"
  obtains (never) "timed_Read c n = None" "timed_ending (Some c) = Stops ErrTimeout"
  | (fails) c' where "timed_Read c n = Some (stop_result (timed_ending (Some c)), c')" "timed_content (Some c') = []"
      "timed_ending (Some c') = timed_ending (Some c)"
proof -
  have timeout: thesis if "timed_Read c n = Some (Failed ErrTimeout, given_up c)" "timed_ending (Some c) = Stops ErrTimeout"
      "tc_readDeadline c \<noteq> None" "\<not> tc_closed c"
    by (rule fails [of "given_up c"]) (use that in simp_all)
  consider "tc_closed c" | "\<not> tc_closed c" "overdue c (tc_clock c)"
    | a x rest where "\<not> tc_closed c" "\<not> overdue c (tc_clock c)" "tc_arrivals c = (a, x) # rest" "overdue c a"
    | "\<not> tc_closed c" "\<not> overdue c (tc_clock c)" "tc_arrivals c = []"
    using assms by (cases "tc_arrivals c") (auto split: if_splits)
  then show thesis
  proof cases
    case 1
    then show thesis by (intro fails [of c]) (simp_all add: timed_Read_def)
  next
    case 2
    then show thesis by (intro timeout) (simp_all add: timed_Read_defs overdue_some)
  next
    case 3
    then show thesis by (intro timeout) (simp_all add: timed_Read_defs overdue_some)
  next
    case 4
    from 4(3,2,1) show thesis
    proof (cases rule: timed_Read_no_more [where n = n])
      case never
      then show thesis using 4 by (intro that(1)) simp_all
    next
      case (ended a e)
      then show thesis using 4 by (intro fails [of "c\<lparr>tc_clock := max (tc_clock c) a\<rparr>"]) simp_all
    qed (use 4 timeout in blast)
  qed
qed

interpretation timed: steady_reader timed_rd timed_content timed_ending
proof
  fix n :: nat and s :: "timed_conn option"
  assume n: "0 < n"
  show "\<exists>b bs s'. timed_rd s n = (Got b bs, s') \<and> length bs < n \<and> timed_content s = b # bs @ timed_content s' \<and> timed_ending s' = timed_ending s"
    if ne: "timed_content s \<noteq> []"
  proof -
    obtain c where s: "s = Some c" using ne by (cases s) simp_all
    from timed_Read_got [OF n ne [unfolded s]] obtain b bs c' where "timed_Read c n = Some (Got b bs, c')" "length bs < n"
      "timed_content (Some c) = b # bs @ timed_content (Some c')" "timed_ending (Some c') = timed_ending (Some c)" by blast
    then show ?thesis unfolding s by (intro exI [of _ b] exI [of _ bs] exI [of _ "Some c'"]) (simp add: timed_rd_def)
  qed
  have "\<exists>s'. timed_rd s n = (stop_result (timed_ending s), s') \<and> timed_content s' = [] \<and> timed_ending s' = timed_ending s"
    if e: "timed_content s = []"
  proof (cases s)
    case None
    then show ?thesis by (simp add: timed_rd_def)
  next
    case (Some c)
    show ?thesis
      by (rule timed_Read_end [OF e [unfolded Some], of n]) (simp_all add: Some timed_rd_def del: timed_content.simps(1) timed_ending.simps(1))
  qed
  then show "timed_content s = [] \<Longrightarrow> \<exists>s'. timed_rd s n = (stop_result (timed_ending s), s')"
    "timed_content s = [] \<Longrightarrow> timed_rd s n = (res, s') \<Longrightarrow> timed_content s' = [] \<and> timed_ending s' = timed_ending s" for res s'
    by fastforce+
qed

text \<open>
  What a deadline set on a wrapper does to what can be read through it.  The bytes already buffered
  are given out even when the deadline has passed; a write deadline does not matter to reads.
\<close>

definition timed_stream :: "timed_sniff \<Rightarrow> bytes" where
  "timed_stream s = bf_buf s @ timed_content (bf_rd s)"

lemma sniff_deadline_stream:
  assumes "bf_rd s = Some c" and "\<not> tc_closed c"
  shows "timed_stream (snd (sniff_SetReadDeadline (Some t) s)) =
      bf_buf s @ (if t \<le> tc_clock c then [] else map snd (takeWhile (\<lambda>(a, _). a < t) (tc_arrivals c)))"
    and "timed_stream (snd (sniff_SetDeadline (Some t) s)) = timed_stream (snd (sniff_SetReadDeadline (Some t) s))"
    and "timed_stream (snd (sniff_SetReadDeadline None s)) = bf_buf s @ map snd (tc_arrivals c)"
    and "timed_stream (snd (sniff_SetWriteDeadline u s)) = timed_stream s"
proof -
  note defs = sniff_SetReadDeadline_def sniff_SetDeadline_def sniff_SetWriteDeadline_def on_sniffed_def
    net_SetReadDeadline_def net_SetDeadline_def net_SetWriteDeadline_def timed_stream_def overdue_def
  show "timed_stream (snd (sniff_SetReadDeadline (Some t) s)) =
      bf_buf s @ (if t \<le> tc_clock c then [] else map snd (takeWhile (\<lambda>(a, _). a < t) (tc_arrivals c)))"
    using assms by (simp add: defs not_le)
  show "timed_stream (snd (sniff_SetDeadline (Some t) s)) = timed_stream (snd (sniff_SetReadDeadline (Some t) s))"
    "timed_stream (snd (sniff_SetWriteDeadline u s)) = timed_stream s"
    using assms by (simp_all add: defs)
  show "timed_stream (snd (sniff_SetReadDeadline None s)) = bf_buf s @ map snd (tc_arrivals c)"
    using assms by (simp add: defs case_prod_beta takeWhile_eq_all_conv [THEN iffD2])
qed

text \<open>Both wrappers fail to set a deadline exactly when the connection is closed, and keep their buffer and addresses.\<close>

lemma wrapper_deadlines:
  assumes "f \<in> {net_SetDeadline, net_SetReadDeadline, net_SetWriteDeadline}"
  shows "on_sniffed (f t) s = (err, s') \<Longrightarrow> bf_rd s = Some c \<Longrightarrow>
      (err = Some ErrClosed \<longleftrightarrow> tc_closed c) \<and> (err \<noteq> None \<longrightarrow> s' = s) \<and> bf_buf s' = bf_buf s \<and>
      sniff_LocalAddr s' = sniff_LocalAddr s \<and> sniff_RemoteAddr s' = sniff_RemoteAddr s"
    and "on_bridged (f t) w = (err, w') \<Longrightarrow>
      (err = Some ErrClosed \<longleftrightarrow> tc_closed (tw_conn w)) \<and> (err \<noteq> None \<longrightarrow> w' = w) \<and> tw_buffered w' = tw_buffered w \<and>
      ws_LocalAddr w' = ws_LocalAddr w \<and> ws_RemoteAddr w' = ws_RemoteAddr w"
  using assms by (auto simp: on_sniffed_def on_bridged_def net_SetDeadline_def net_SetReadDeadline_def net_SetWriteDeadline_def
      sniff_LocalAddr_def sniff_RemoteAddr_def ws_LocalAddr_def ws_RemoteAddr_def split: if_splits)

section \<open>The code that sets deadlines\<close>

text \<open>The accept loop gives a new connection thirty seconds, and closes it when that fails.\<close>

definition accept_deadline :: "timed_conn \<Rightarrow> bool \<times> timed_conn" where
  "accept_deadline c =
     (case net_SetReadDeadline (Some (tc_clock c + 30 * second)) c of
        (Some err, c') \<Rightarrow> (False, c'\<lparr>tc_closed := True\<rparr>)
      | (None, c') \<Rightarrow> (True, c'))"

text \<open>
  \<open>Sniff\<close> with its deadline: half a second, cleared on the way out.  The timeout is that of the
  connection; a \<open>Peek\<close> for \<open>n\<close> bytes needs at most \<open>n\<close> reads.
\<close>

definition timed_Sniff :: "timed_sniff \<Rightarrow> (ProtocolType \<times> bytes) res \<times> timed_sniff" where
  "timed_Sniff b =
     (case Sniff timed_rd 4 512 (snd (on_sniffed (\<lambda>c. net_SetReadDeadline (Some (tc_clock c + 500 * millisecond)) c) b)) of
        (res, b') \<Rightarrow> (res, snd (on_sniffed (net_SetReadDeadline None) b')))"

text \<open>
  A round of the forwarding loop towards the client, up to the message it reads: one deadline for the two headers
  and the payload.  The buffer the payload is put in is that of \<open>Forward\<close>'s loop and does not bear on the time.
\<close>

definition read_reply :: "'r rd \<Rightarrow> 'r \<Rightarrow> (ServerMessageHeader \<times> bytes) res \<times> 'r" where
  "read_reply rd r =
     rs_bind (ReadServerMessageHeader rd r) (\<lambda>serverHeader r1.
       rs_bind (ReadGateMsgHeader rd r1) (\<lambda>gateHeader r2.
         let messageDataLen = sint (smh_Length serverHeader) - 9
         in if messageDataLen < 0 then (Err (Errorf ''invalid message length'' None), r2)
            else rs_bind (ReadFull rd r2 (nat messageDataLen)) (\<lambda>messageData r3. (Ok (serverHeader, messageData), r3))))"

definition timed_down_read :: "duration \<Rightarrow> timed_conn \<Rightarrow> (ServerMessageHeader \<times> bytes) res \<times> timed_conn option" where
  "timed_down_read readTimeout c =
     (case net_SetReadDeadline (Some (tc_clock c + readTimeout)) c of
        (Some err, c') \<Rightarrow> (Err err, Some c')
      | (None, c') \<Rightarrow> read_reply timed_rd (Some c'))"

text \<open>
  The loop towards the backend.  The ticker fires every half of the timeout; a tick that has not been
  taken yet stays in its channel, further ones are dropped.  The loop takes a tick that is there, and
  otherwise reads a packet, for as long as that takes.  It reads through a \<open>SniffConn\<close> of its own, over
  the sniffed connection of a TCP client, on which it sets the deadline.
\<close>

record timed_up =
  tu_reader :: "timed_sniff bufio"
  tu_nextTick :: time
  tu_packets :: "(ClientMessageHeader \<times> bytes) list"
  tu_buffers :: buffer_pool
  tu_left :: bool

definition next_tick :: "duration \<Rightarrow> time \<Rightarrow> time \<Rightarrow> time" where
  "next_tick period due t = due + period * ((t - due) div period + 1)"

definition timed_up_round :: "duration \<Rightarrow> int \<Rightarrow> nat \<Rightarrow> timed_up \<Rightarrow> timed_up" where
  "timed_up_round readTimeout maxMessageSize i s =
     (case bf_rd (bf_rd (tu_reader s)) of
        None \<Rightarrow> s
      | Some c \<Rightarrow>
          if tu_left s then s
          else if tu_nextTick s \<le> tc_clock c then
            (case sniff_SetReadDeadline (Some (tc_clock c + readTimeout)) (bf_rd (tu_reader s)) of
               (Some err, _) \<Rightarrow> s\<lparr>tu_left := True\<rparr>
             | (None, clientConn) \<Rightarrow> s\<lparr>tu_reader := (tu_reader s)\<lparr>bf_rd := clientConn\<rparr>,
                                       tu_nextTick := next_tick (readTimeout div 2) (tu_nextTick s) (tc_clock c)\<rparr>)
          else
            (case ReadFullPacket (bufio_Read (bufio_Read timed_rd)) (tu_reader s) maxMessageSize i (tu_buffers s) of
               (res, r, p) \<Rightarrow>
                 if bf_rd (bf_rd r) = None then s\<lparr>tu_reader := r\<rparr>
                 else case res of
                   Ok (h, d) \<Rightarrow> s\<lparr>tu_reader := r, tu_buffers := p, tu_packets := tu_packets s @ [(h, payload d)]\<rparr>
                 | _ \<Rightarrow> s\<lparr>tu_reader := r, tu_buffers := p, tu_left := True\<rparr>))"

definition timed_up_start :: "duration \<Rightarrow> time \<Rightarrow> timed_sniff \<Rightarrow> buffer_pool \<Rightarrow> timed_up" where
  "timed_up_start readTimeout begun clientConn p =
     \<lparr>tu_reader = bufio_NewReader clientConn, tu_nextTick = begun + readTimeout div 2, tu_packets = [], tu_buffers = p, tu_left = False\<rparr>"

section \<open>Reads under a deadline end in time\<close>

text \<open>What every read keeps: the deadline, and that its time is not overrun.\<close>

definition within :: "time \<Rightarrow> timed_conn option \<Rightarrow> bool" where
  "within d s \<longleftrightarrow> (\<exists>c. s = Some c \<and> tc_readDeadline c = Some d \<and> tc_clock c \<le> d \<and> \<not> tc_closed c)"

lemma take_takeWhile_split:
  assumes "g = take k (takeWhile P xs)"
  shows "map f xs = map f g @ map f (drop (length g) xs)"
proof -
  have "prefix g xs" using assms by (metis take_is_prefix takeWhile_eq_take prefix_order.trans)
  then have "g @ drop (length g) xs = xs" by (auto simp: prefix_def)
  then show ?thesis by (metis map_append)
qed

lemma timed_Read_within:
  assumes "tc_readDeadline c = Some d" and "tc_clock c \<le> d"
  shows "\<exists>r c'. timed_Read c n = Some (r, c') \<and> tc_readDeadline c' = Some d \<and> tc_clock c' \<le> d \<and> tc_closed c' = tc_closed c \<and> tc_final c' = tc_final c \<and>
    map snd (tc_arrivals c) = got_bytes r @ map snd (tc_arrivals c')"
proof (cases "tc_closed c \<or> overdue c (tc_clock c)")
  case True
  then show ?thesis using assms by (auto simp: timed_Read_def Let_def)
next
  case False
  show ?thesis
  proof (cases "tc_arrivals c")
    case Nil
    show ?thesis
    proof (cases "tc_final c")
      case None
      then show ?thesis using assms False Nil by (simp add: timed_Read_def Let_def)
    next
      case (Some f)
      then show ?thesis using assms False Nil by (cases f) (auto simp: timed_Read_def Let_def overdue_def)
    qed
  next
    case (Cons f rest)
    obtain a x where f: "f = (a, x)" by (cases f)
    define t where "t = max (tc_clock c) a"
    define got where "got = take (n - 1) (takeWhile (\<lambda>(a', _). a' \<le> t) rest)"
    have "timed_Read c n = (if overdue c t then Some (Failed ErrTimeout, c\<lparr>tc_clock := d\<rparr>)
        else Some (Got x (map snd got), c\<lparr>tc_clock := t, tc_arrivals := drop (length got) rest\<rparr>))"
      using assms False Cons f unfolding t_def got_def by (simp add: timed_Read_def Let_def)
    then show ?thesis using assms Cons f take_takeWhile_split [OF got_def, of snd] by (auto simp: overdue_def)
  qed
qed

lemma timed_rd_within:
  assumes "within d s"
  shows "within d (snd (timed_rd s n))"
proof -
  from assms obtain c where c: "s = Some c" "tc_readDeadline c = Some d" "tc_clock c \<le> d" "\<not> tc_closed c" by (auto simp: within_def)
  from timed_Read_within [OF c(2,3), of n] obtain r c' where "timed_Read c n = Some (r, c')" "tc_readDeadline c' = Some d" "tc_clock c' \<le> d"
    "tc_closed c' = tc_closed c" by blast
  then show ?thesis using c by (simp add: timed_rd_def within_def)
qed

text \<open>For the examples: a client whose bytes come one every two tenths of a second, and that stays.\<close>

definition slow_client :: "bytes \<Rightarrow> timed_conn" where
  "slow_client bs = \<lparr>tc_clock = 0, tc_arrivals = map (\<lambda>(k, x). (200 * millisecond * int k, x)) (enumerate 1 bs), tc_final = None,
     tc_readDeadline = None, tc_writeDeadline = None, tc_closed = False, tc_localAddr = ''gateway'', tc_remoteAddr = ''client''\<rparr>"

section \<open>Sniffing\<close>

text \<open>What filling the buffer under a deadline keeps: the time, and every byte of the peer.\<close>

definition sniffing :: "time \<Rightarrow> bytes \<Rightarrow> (time \<times> go_error) option \<Rightarrow> timed_conn option bufio \<Rightarrow> bool" where
  "sniffing d stream fin b \<longleftrightarrow> within d (bf_rd b) \<and> bf_buf b @ map snd (tc_arrivals (the (bf_rd b))) = stream \<and>
     tc_final (the (bf_rd b)) = fin"

lemma sniffing_fill: "fill_keeps (sniffing d stream fin) timed_rd"
  unfolding fill_keeps_def
proof (intro allI impI)
  fix b m res r'
  assume "sniffing d stream fin b" and rd: "timed_rd (bf_rd b) m = (res, r')"
  then obtain c where c: "bf_rd b = Some c" "tc_readDeadline c = Some d" "tc_clock c \<le> d" "\<not> tc_closed c"
      "bf_buf b @ map snd (tc_arrivals c) = stream" "tc_final c = fin" by (auto simp: sniffing_def within_def)
  from timed_Read_within [OF c(2,3), of m] obtain r c' where "timed_Read c m = Some (r, c')" "tc_readDeadline c' = Some d" "tc_clock c' \<le> d"
    "tc_closed c' = tc_closed c" "tc_final c' = tc_final c" "map snd (tc_arrivals c) = got_bytes r @ map snd (tc_arrivals c')" by blast
  then show "sniffing d stream fin (b\<lparr>bf_buf := bf_buf b @ got_bytes res, bf_rd := r'\<rparr>)"
    using rd c by (auto simp: timed_rd_def sniffing_def within_def)
qed

text \<open>What the sniffer leaves: no deadline, and the bytes of the peer.\<close>

lemma timed_Sniff_leaves:
  assumes "bf_rd b = Some c" and "\<not> tc_closed c" and "timed_Sniff b = (res, b')"
  shows "\<exists>c'. bf_rd b' = Some c' \<and> tc_clock c' \<le> tc_clock c + 500 * millisecond \<and> tc_readDeadline c' = None \<and>
    \<not> tc_closed c' \<and> tc_final c' = tc_final c \<and> bf_buf b' @ map snd (tc_arrivals c') = bf_buf b @ map snd (tc_arrivals c)"
proof -
  define d where "d = tc_clock c + 500 * millisecond"
  define b1 where "b1 = b\<lparr>bf_rd := Some (c\<lparr>tc_readDeadline := Some d\<rparr>)\<rparr>"
  obtain b2 where sn: "Sniff timed_rd 4 512 b1 = (res, b2)" and b': "b' = snd (on_sniffed (net_SetReadDeadline None) b2)"
    using assms by (auto simp: timed_Sniff_def on_sniffed_def net_SetReadDeadline_def b1_def d_def split: prod.splits)
  have "sniffing d (bf_buf b @ map snd (tc_arrivals c)) (tc_final c) b1"
    using assms(2) by (simp add: sniffing_def within_def b1_def d_def)
  from Sniff_keeps [OF sniffing_fill this sn] obtain c2 where "bf_rd b2 = Some c2" "tc_clock c2 \<le> d" "\<not> tc_closed c2" "tc_final c2 = tc_final c"
      "bf_buf b2 @ map snd (tc_arrivals c2) = bf_buf b @ map snd (tc_arrivals c)" by (auto simp: sniffing_def within_def)
  then show ?thesis by (simp add: b' on_sniffed_def net_SetReadDeadline_def d_def)
qed

text \<open>
  C15. Protocol detection takes at most half a second and looks at exactly the bytes that arrive in
  it.  Fewer than four such bytes make a TCP connection, unless the peer has ended the stream; with
  four or more, the first four and the first 512 decide.  No byte is lost.  Afterwards the
  connection has no read deadline at all: the thirty seconds of the accept loop are gone as well.
\<close>

theorem Sniff_timely:
  assumes "bf_rd b = Some c" and "\<not> tc_closed c" and "timed_Sniff b = (res, b')"
    and "seen = bf_buf b @ map snd (takeWhile (\<lambda>(a, _). a < tc_clock c + 500 * millisecond) (tc_arrivals c))"
  shows "(length seen < 4 \<longrightarrow> res = Ok (ProtocolTCP, []) \<or>
      (\<exists>a e. tc_final c = Some (a, e) \<and> a < tc_clock c + 500 * millisecond \<and> res = Err e)) \<and>
    (4 \<le> length seen \<and> \<not> http_start (take 4 seen) \<longrightarrow> res = Ok (ProtocolTCP, take 4 seen)) \<and>
    (4 \<le> length seen \<and> http_start (take 4 seen) \<longrightarrow>
      res = Ok (if websocket_words (take 512 seen) then ProtocolWebSocket else ProtocolHTTP, take 512 seen)) \<and>
    (\<exists>c'. bf_rd b' = Some c' \<and> tc_clock c' \<le> tc_clock c + 500 * millisecond \<and> tc_readDeadline c' = None \<and>
      \<not> tc_closed c' \<and> tc_final c' = tc_final c \<and> bf_buf b' @ map snd (tc_arrivals c') = bf_buf b @ map snd (tc_arrivals c))"
proof -
  define d where "d = tc_clock c + 500 * millisecond"
  define c1 where "c1 = c\<lparr>tc_readDeadline := Some d\<rparr>"
  define b1 where "b1 = b\<lparr>bf_rd := Some c1\<rparr>"
  have sn: "fst (Sniff timed_rd 4 512 b1) = res"
    using assms(1-3) by (auto simp: timed_Sniff_def on_sniffed_def net_SetReadDeadline_def b1_def c1_def d_def split: prod.splits)
  have od: "overdue c1 x = (d \<le> x)" for x by (simp add: overdue_def c1_def)
  have content: "bf_buf b1 @ timed_content (bf_rd b1) = seen"
    using assms(2,4) by (simp add: b1_def od not_le d_def) (simp add: c1_def)
  have c1: "tc_closed c1 = tc_closed c" "tc_final c1 = tc_final c" by (simp_all add: c1_def)
  obtain e where ending: "timed_ending (bf_rd b1) = Stops e" and
    e: "e = ErrTimeout \<or> (\<exists>a. tc_final c = Some (a, e) \<and> a < d)"
    using assms(2) by (cases "tc_final c") (auto simp: b1_def od c1 not_le)
  note exact = timed.Sniff_exact [OF ending, unfolded content sn]
  from timed_Sniff_leaves [OF assms(1-3)] exact e show ?thesis unfolding d_def by (auto simp: Let_def)
qed

theorem Sniff_timely_witness:
  "fst (timed_Sniff (bufio_NewReader (Some (slow_client [71, 69, 84, 32])))) = Ok (ProtocolTCP, [])"
  using Sniff_timely [where b = "bufio_NewReader (Some (slow_client [71, 69, 84, 32]))" and c = "slow_client [71, 69, 84, 32]" and seen = "[71, 69]",
      OF _ _ prod.collapse [symmetric]]
  by (simp add: slow_client_def bufio_NewReader_def)

section \<open>Reads without a deadline\<close>

text \<open>
  A peer that keeps the connection open for ever: with no deadline, a read either returns bytes or
  does not return.
\<close>

definition open_ended :: "timed_conn option \<Rightarrow> bool" where
  "open_ended s \<longleftrightarrow> (\<exists>c. s = Some c \<and> tc_readDeadline c = None \<and> tc_final c = None \<and> \<not> tc_closed c)"

lemma open_ended_stream:
  "open_ended s \<Longrightarrow> timed_content s = map snd (tc_arrivals (the s)) \<and> timed_ending s = Stops ErrTimeout"
  by (auto simp: open_ended_def overdue_def case_prod_beta list_all_iff takeWhile_eq_all_conv [THEN iffD2])

text \<open>A reader whose reads give bytes and keep \<open>P\<close>, or end in \<open>Q\<close>.\<close>

definition splits :: "('r \<Rightarrow> bool) \<Rightarrow> ('r \<Rightarrow> bool) \<Rightarrow> 'r rd \<Rightarrow> bool" where
  "splits P Q rd \<longleftrightarrow> (\<forall>r n x r'. P r \<longrightarrow> rd r n = (x, r') \<longrightarrow> (if got_bytes x = [] then Q r' else P r'))"

lemma ReadFull_splits:
  assumes "splits P Q rd" and "P r" and "ReadFull rd r n = (res, r')"
  shows "if is_ok res then P r' else Q r'"
proof -
  have "if is_ok res then P r' else Q r'" if "ReadFull_loop rd r n acc = (res, r')" for acc
    using assms(2) that
  proof (induction n arbitrary: r acc rule: less_induct)
    case (less n)
    obtain x r1 where x: "rd r n = (x, r1)" by fastforce
    then have r1: "if got_bytes x = [] then Q r1 else P r1" using assms(1) less.prems(1) unfolding splits_def by blast
    show ?case
    proof (cases "n = 0")
      case True
      then show ?thesis using less.prems by (auto simp: ReadFull_loop.simps)
    next
      case False
      note step = less.prems(2) [unfolded ReadFull_loop.simps [of rd r n]]
      show ?thesis
      proof (cases x)
        case (Got b bs)
        then show ?thesis using step False x r1 less.IH [of "n - Suc (length bs)" r1 "acc @ b # bs"] by simp
      qed (use step False x r1 in auto)
    qed
  qed
  from this [of "[]"] show ?thesis using assms(3) by (simp add: ReadFull_def)
qed

lemma read_into_splits:
  assumes "splits P Q rd" and "P r"
  shows "read_into rd r n pooled p = (Err e, r', p') \<Longrightarrow> Q r'" and "read_into rd r n pooled p = (Ok sl, r', p') \<Longrightarrow> P r'"
proof -
  obtain x r1 where x: "ReadFull rd r n = (x, r1)" by fastforce
  note r1 = ReadFull_splits [OF assms x]
  show "read_into rd r n pooled p = (Err e, r', p') \<Longrightarrow> Q r'" "read_into rd r n pooled p = (Ok sl, r', p') \<Longrightarrow> P r'"
    using x r1 by (cases x; auto simp: read_into_def split: option.splits if_splits)+
qed

lemma ReadFullPacket_splits:
  assumes "splits P Q rd" and "P r" and "ReadFullPacket rd r m i p = (Err e, r', p')" and "\<And>l. e \<noteq> tooLarge l m"
  shows "Q r'"
proof -
  obtain x r1 where x: "ReadFull rd r ClientMessageHeaderSize = (x, r1)" by fastforce
  note r1 = ReadFull_splits [OF assms(1,2) x]
  show ?thesis
  proof (cases x)
    case (Ok buf)
    then have "P r1" using r1 by simp
    from read_into_splits(1) [OF assms(1) this] show ?thesis
      using assms(3,4) x Ok by (auto simp: ReadFullPacket_def ParseClientMessageHeader_def Let_def split: prod.splits res.splits if_splits)
  qed (use r1 x assms(3) in \<open>auto simp: ReadFullPacket_def ParseClientMessageHeader_def\<close>)
qed

lemma ReadFullPacket_splits_ok:
  assumes "splits P Q rd" and "P r" and "ReadFullPacket rd r m i p = (Ok pk, r', p')"
  shows "P r'"
proof -
  obtain x r1 where x: "ReadFull rd r ClientMessageHeaderSize = (x, r1)" by fastforce
  with assms(3) obtain buf where "x = Ok buf" by (cases x) (auto simp: ReadFullPacket_def ParseClientMessageHeader_def)
  then have "P r1" using ReadFull_splits [OF assms(1,2) x] by simp
  from read_into_splits(2) [OF assms(1) this] \<open>P r1\<close> show ?thesis
    using assms(3) x \<open>x = Ok buf\<close> by (auto simp: ReadFullPacket_def ParseClientMessageHeader_def Let_def split: prod.splits res.splits if_splits)
qed

lemma bufio_splits:
  assumes "splits P Q rd"
  shows "splits (\<lambda>b. P (bf_rd b)) (\<lambda>b. Q (bf_rd b)) (bufio_Read rd)"
  unfolding splits_def
proof (intro allI impI)
  fix b n x b'
  assume P: "P (bf_rd b)" and read: "bufio_Read rd b n = (x, b')"
  show "if got_bytes x = [] then Q (bf_rd b') else P (bf_rd b')"
  proof (cases "bf_buf b = []")
    case True
    obtain y s where y: "rd (bf_rd b) (if bufio_size \<le> n then n else bufio_size) = (y, s)" by fastforce
    with assms P have "if got_bytes y = [] then Q s else P s" unfolding splits_def by blast
    then show ?thesis using read y True by (cases y) (auto simp: bufio_Read_def split: if_splits)
  qed (use read P in \<open>auto simp: bufio_Read_def split: list.splits\<close>)
qed

lemma open_ended_splits: "splits open_ended (\<lambda>s. s = None) timed_rd"
  unfolding splits_def
proof (intro allI impI)
  fix s n x s'
  assume "open_ended s" and read: "timed_rd s n = (x, s')"
  then obtain c where "s = Some c" "tc_readDeadline c = None" "tc_final c = None" "\<not> tc_closed c" by (auto simp: open_ended_def)
  with read show "if got_bytes x = [] then s' = None else open_ended s'"
    by (cases "tc_arrivals c") (auto simp: timed_rd_def timed_Read_def overdue_def open_ended_def Let_def)
qed

text \<open>
  A peer that stays: the packet is read when it is whole; when the peer sends less than a packet, the
  read ends in \<open>Q\<close>.
\<close>

context byte_reader
begin

lemma packet_splits:
  assumes "splits P Q rd" and "P r" and "pool_ok p" and "ending r = Stops ErrTimeout" and read: "ReadFullPacket rd r m i p = (res, r', p')"
  shows "case parse_packet m (content r) (Stops ErrTimeout) of
      Ok (h, body) \<Rightarrow> P r' \<and> (\<exists>d. res = Ok (h, d) \<and> payload d = body)
    | Err e \<Rightarrow> e = ErrTimeout \<longrightarrow> Q r'
    | Panic x \<Rightarrow> False"
proof -
  have res: "case parse_packet m (content r) (Stops ErrTimeout) of
      Ok (h, body) \<Rightarrow> \<exists>d. res = Ok (h, d) \<and> payload d = body | Err e \<Rightarrow> res = Err e | Panic x \<Rightarrow> res = Panic x"
    using ReadFullPacket_refines [OF assms(3), of r m i] read assms(4) by (auto split: res.splits)
  have "parse_packet m (content r) (Stops ErrTimeout) \<noteq> Panic x" for x by (simp add: parse_packet_def Let_def)
  moreover have "P r'" if "res = Ok pk" for pk using ReadFullPacket_splits_ok [OF assms(1,2) read [unfolded that]] .
  moreover have "Q r'" if "res = Err ErrTimeout"
    by (rule ReadFullPacket_splits [OF assms(1,2) read [unfolded that]]) (simp add: tooLarge_def)
  ultimately show ?thesis using res by (auto split: res.splits)
qed

end

interpretation timed_buf: byte_reader "bufio_Read timed_rd" "\<lambda>b. bf_buf b @ timed_content (bf_rd b)" "\<lambda>b. timed_ending (bf_rd b)"
  by (rule timed.bufio_is_reader)

interpretation timed_client: byte_reader "bufio_Read (bufio_Read timed_rd)"
  "\<lambda>b. bf_buf b @ bf_buf (bf_rd b) @ timed_content (bf_rd (bf_rd b))" "\<lambda>b. timed_ending (bf_rd (bf_rd b))"
  using timed_buf.bufio_is_reader by simp

text \<open>
  C18. The thirty seconds the accept loop gives a connection do not bound the first packet.  Once the
  sniffer has taken the connection for TCP, a packet that comes whole is read, whenever its bytes
  arrive; a client that sends less than a packet and keeps the connection open holds the goroutine,
  and with it the slot of the limiter, for ever.
\<close>

theorem first_packet_unbounded:
  assumes "accept_deadline c = (True, c1)" and "timed_Sniff (bufio_NewReader (Some c1)) = (Ok (ProtocolTCP, peeked), b)"
    and "tc_final c = None" and "pool_ok p" and "ReadFullPacket (bufio_Read timed_rd) b m i p = (res, b', p')"
  shows "case parse_packet m (map snd (tc_arrivals c)) (Stops ErrTimeout) of
      Ok (h, body) \<Rightarrow> bf_rd b' \<noteq> None \<and> (\<exists>d. res = Ok (h, d) \<and> payload d = body)
    | Err e \<Rightarrow> e = ErrTimeout \<longrightarrow> bf_rd b' = None
    | Panic x \<Rightarrow> False"
proof -
  have c1: "\<not> tc_closed c1" "tc_final c1 = None" "tc_arrivals c1 = tc_arrivals c"
    using assms(1,3) by (auto simp: accept_deadline_def net_SetReadDeadline_def split: if_splits)
  from timed_Sniff_leaves [OF _ c1(1) assms(2)] obtain c' where
    c': "bf_rd b = Some c'" "tc_readDeadline c' = None" "\<not> tc_closed c'" "tc_final c' = None"
      "bf_buf b @ map snd (tc_arrivals c') = map snd (tc_arrivals c)"
    using c1 by (auto simp: bufio_NewReader_def)
  then have b: "open_ended (bf_rd b)" by (simp add: open_ended_def)
  note stream = open_ended_stream [OF b]
  from timed_buf.packet_splits [OF bufio_splits [OF open_ended_splits] b assms(4) _ assms(5)] stream c'(1,5) show ?thesis
    by (auto simp: open_ended_def split: res.splits)
qed

theorem first_packet_unbounded_witness:
  "let b = snd (timed_Sniff (bufio_NewReader (Some (snd (accept_deadline (slow_client [0, 0]))))))
   in bf_rd (fst (snd (ReadFullPacket (bufio_Read timed_rd) b 1024 0 []))) = None"
proof -
  define c where "c = slow_client [0, 0]"
  define b where "b = snd (timed_Sniff (bufio_NewReader (Some (snd (accept_deadline c)))))"
  obtain res b' p' where read: "ReadFullPacket (bufio_Read timed_rd) b 1024 0 [] = (res, b', p')" by (metis prod_cases3)
  have accept: "accept_deadline c = (True, snd (accept_deadline c))" and rest: "tc_final c = None" "pool_ok []"
    "parse_packet 1024 (map snd (tc_arrivals c)) (Stops ErrTimeout) = Err ErrTimeout"
    by (simp_all add: c_def accept_deadline_def net_SetReadDeadline_def slow_client_def pool_ok_def parse_packet_def)
  have "fst (timed_Sniff (bufio_NewReader (Some (snd (accept_deadline c))))) = Ok (ProtocolTCP, [])"
    unfolding c_def by code_simp
  then have "timed_Sniff (bufio_NewReader (Some (snd (accept_deadline c)))) = (Ok (ProtocolTCP, []), b)" by (simp add: b_def prod_eq_iff)
  from first_packet_unbounded [OF accept this rest(1,2) read] rest(3) read show ?thesis by (simp add: b_def c_def Let_def)
qed

section \<open>The loop towards the backend\<close>

text \<open>Under a deadline the packet is read, or given up, by it.\<close>

lemma bufio_keeps:
  assumes "\<And>r n. P r \<Longrightarrow> P (snd (rd r n))" and "P (bf_rd b)"
  shows "P (bf_rd (snd (bufio_Read rd b n)))"
  using assms(1) [OF assms(2), of n] assms(1) [OF assms(2), of bufio_size] assms(2)
  by (auto simp: bufio_Read_def split: list.splits prod.splits rd_result.splits)

lemma bounded_packet:
  assumes "within d (bf_rd (bf_rd b))" and "ReadFullPacket (bufio_Read (bufio_Read timed_rd)) b m i p = (res, b', p')"
  shows "within d (bf_rd (bf_rd b'))"
  by (rule ReadFullPacket_keeps [of "\<lambda>q. within d (bf_rd (bf_rd q))", OF _ assms])
    (rule bufio_keeps [of "\<lambda>q. within d (bf_rd q)"], rule bufio_keeps [of "within d"], rule timed_rd_within)


text \<open>A round in which no tick is due: it reads a packet.\<close>

definition reading :: "timed_up \<Rightarrow> timed_conn \<Rightarrow> bool" where
  "reading s c \<longleftrightarrow> bf_rd (bf_rd (tu_reader s)) = Some c \<and> \<not> tc_closed c \<and> \<not> tu_left s \<and> pool_ok (tu_buffers s) \<and> tc_clock c < tu_nextTick s"

definition unread :: "timed_up \<Rightarrow> bytes" where
  "unread s = bf_buf (tu_reader s) @ bf_buf (bf_rd (tu_reader s))"

lemma reading_round:
  assumes "reading s c"
  obtains res r p where "ReadFullPacket (bufio_Read (bufio_Read timed_rd)) (tu_reader s) m i (tu_buffers s) = (res, r, p)"
    and "bf_rd (bf_rd r) = None \<Longrightarrow> timed_up_round readTimeout m i s = s\<lparr>tu_reader := r\<rparr>"
    and "\<And>h d. bf_rd (bf_rd r) \<noteq> None \<Longrightarrow> res = Ok (h, d) \<Longrightarrow>
      timed_up_round readTimeout m i s = s\<lparr>tu_reader := r, tu_buffers := p, tu_packets := tu_packets s @ [(h, payload d)]\<rparr>"
    and "bf_rd (bf_rd r) \<noteq> None \<Longrightarrow> \<not> is_ok res \<Longrightarrow> timed_up_round readTimeout m i s = s\<lparr>tu_reader := r, tu_buffers := p, tu_left := True\<rparr>"
proof -
  obtain res r p where "ReadFullPacket (bufio_Read (bufio_Read timed_rd)) (tu_reader s) m i (tu_buffers s) = (res, r, p)" by (metis prod_cases3)
  then show thesis using assms by (intro that) (auto simp: reading_def timed_up_round_def split: res.splits)
qed

lemma blocked_for_ever: "bf_rd (bf_rd (tu_reader s)) = None \<Longrightarrow> (timed_up_round readTimeout m i ^^ k) s = s"
  by (induction k) (simp_all add: timed_up_round_def)

lemma round_without_deadline:
  assumes "reading s c" and "tc_readDeadline c = None" and "tc_final c = None" and "s' = timed_up_round readTimeout m i s"
  shows "case parse_packet m (unread s @ map snd (tc_arrivals c)) (Stops ErrTimeout) of
      Ok pk \<Rightarrow> \<not> tu_left s' \<and> tu_packets s' = tu_packets s @ [pk]
    | Err e \<Rightarrow> e = ErrTimeout \<longrightarrow> \<not> tu_left s' \<and> bf_rd (bf_rd (tu_reader s')) = None \<and> (timed_up_round readTimeout m i ^^ k) s' = s'
    | Panic x \<Rightarrow> False"
proof (rule reading_round [OF assms(1), where m = m and i = i and readTimeout = readTimeout])
  fix res r p
  assume read: "ReadFullPacket (bufio_Read (bufio_Read timed_rd)) (tu_reader s) m i (tu_buffers s) = (res, r, p)"
    and round: "bf_rd (bf_rd r) = None \<Longrightarrow> timed_up_round readTimeout m i s = s\<lparr>tu_reader := r\<rparr>"
      "\<And>h d. bf_rd (bf_rd r) \<noteq> None \<Longrightarrow> res = Ok (h, d) \<Longrightarrow>
        timed_up_round readTimeout m i s = s\<lparr>tu_reader := r, tu_buffers := p, tu_packets := tu_packets s @ [(h, payload d)]\<rparr>"
  have s: "open_ended (bf_rd (bf_rd (tu_reader s)))" "pool_ok (tu_buffers s)" "\<not> tu_left s" "bf_rd (bf_rd (tu_reader s)) = Some c"
    using assms(1-3) by (simp_all add: open_ended_def reading_def)
  from timed_client.packet_splits [OF bufio_splits [OF bufio_splits [OF open_ended_splits]] s(1,2) _ read] open_ended_stream [OF s(1)] show ?thesis
    using s round assms(4) blocked_for_ever [where s = s' and m = m and i = i and k = k and readTimeout = readTimeout] by (auto simp: open_ended_def unread_def split: res.splits)
qed

lemma round_with_deadline:
  assumes "reading s c" and "tc_readDeadline c = Some d" and "tc_clock c < d" and "s' = timed_up_round readTimeout m i s"
  shows "(\<exists>c'. bf_rd (bf_rd (tu_reader s')) = Some c' \<and> tc_clock c' \<le> d) \<and>
    (case parse_packet m (unread s @ timed_content (Some c)) (timed_ending (Some c)) of
       Ok pk \<Rightarrow> \<not> tu_left s' \<and> tu_packets s' = tu_packets s @ [pk]
     | _ \<Rightarrow> tu_left s' \<and> tu_packets s' = tu_packets s)"
proof (rule reading_round [OF assms(1), where m = m and i = i and readTimeout = readTimeout])
  fix res r p
  assume read: "ReadFullPacket (bufio_Read (bufio_Read timed_rd)) (tu_reader s) m i (tu_buffers s) = (res, r, p)"
    and round: "\<And>h d. bf_rd (bf_rd r) \<noteq> None \<Longrightarrow> res = Ok (h, d) \<Longrightarrow>
        timed_up_round readTimeout m i s = s\<lparr>tu_reader := r, tu_buffers := p, tu_packets := tu_packets s @ [(h, payload d)]\<rparr>"
      "bf_rd (bf_rd r) \<noteq> None \<Longrightarrow> \<not> is_ok res \<Longrightarrow> timed_up_round readTimeout m i s = s\<lparr>tu_reader := r, tu_buffers := p, tu_left := True\<rparr>"
  have s: "within d (bf_rd (bf_rd (tu_reader s)))" "pool_ok (tu_buffers s)" "\<not> tu_left s" "bf_rd (bf_rd (tu_reader s)) = Some c"
    using assms(1-3) by (simp_all add: within_def reading_def)
  from bounded_packet [OF s(1) read] obtain c' where c': "bf_rd (bf_rd r) = Some c'" "tc_clock c' \<le> d" by (auto simp: within_def)
  note parse = timed_client.ReadFullPacket_refines [OF s(2), of "tu_reader s" m i, unfolded s(4) read append_assoc [symmetric] unread_def [symmetric]]
  show ?thesis
  proof (cases "parse_packet m (unread s @ timed_content (Some c)) (timed_ending (Some c))")
    case (Ok pk)
    with parse obtain h body sl where "pk = (h, body)" "res = Ok (h, sl)" "payload sl = body" by (cases pk) auto
    with Ok c' round(1) s(3) assms(4) show ?thesis by simp
  qed (use parse c' round(2) assms(4) in auto)
qed



section \<open>A message of the backend\<close>

context byte_reader
begin

text \<open>A whole message, or none: what the two headers and the payload make of a stream.\<close>

lemma read_reply_ok:
  assumes "whole_reply (h, g, d)" and "content r = reply_source (h, g, d) @ rest"
  shows "fst (read_reply rd r) = Ok (h, d)"
proof -
  have "content r = le_bytes 4 (smh_Length h) @ le_bytes 4 (smh_Type h) @ le_bytes 4 (smh_ServerID h) @ le_bytes 8 (smh_ObjectID h) @ g @ d @ rest"
    using assms(2) by (simp add: server_header_bytes_def)
  from ReadServerMessageHeader_bytes [OF this] obtain r1 where r1: "ReadServerMessageHeader rd r = (Ok h, r1)" "content r1 = g @ d @ rest" by auto
  from ReadFull_prefix [OF r1(2), of GateMsgHeaderSize] assms(1) obtain gh r2 where
    r2: "ReadGateMsgHeader rd r1 = (Ok gh, r2)" "content r2 = d @ rest" by (auto simp: ReadGateMsgHeader_def)
  from ReadFull_prefix [OF r2(2) refl] obtain r3 where "ReadFull rd r2 (length d) = (Ok d, r3)" by blast
  with r1 r2 assms(1) show ?thesis by (simp add: read_reply_def)
qed

lemma read_reply_inv:
  assumes "read_reply rd r = (Ok (h, d), r')"
  shows "\<exists>g. whole_reply (h, g, d) \<and> content r = reply_source (h, g, d) @ content r'"
proof -
  obtain x r1 where x: "ReadFull rd r 20 = (x, r1)" by fastforce
  with assms obtain buf where buf: "x = Ok buf" by (cases x) (simp_all add: read_reply_def ReadServerMessageHeader_def)
  obtain y r2 where y: "ReadFull rd r1 9 = (y, r2)" by fastforce
  with assms x buf obtain g where g: "y = Ok g" by (cases y) (simp_all add: read_reply_def ReadServerMessageHeader_def ReadGateMsgHeader_def)
  note b = ReadFull_inv [OF x [unfolded buf]] and gi = ReadFull_inv [OF y [unfolded g]]
  have h: "h = \<lparr>smh_Length = le_word (take 4 buf), smh_Type = le_word (take 4 (drop 4 buf)),
      smh_ServerID = le_word (take 4 (drop 8 buf)), smh_ObjectID = le_word (drop 12 buf)\<rparr>"
    and full: "9 \<le> sint (smh_Length h)" "ReadFull rd r2 (nat (sint (smh_Length h) - 9)) = (Ok d, r')"
    using assms x buf y g b(2) unfolding read_reply_def ReadServerMessageHeader_def ReadGateMsgHeader_def
    by (auto simp: Let_def rs_bind_def split: if_splits prod.splits res.splits)
  note d = ReadFull_inv [OF full(2)]
  have "server_header_bytes h = buf" using server_header_decode [OF b(2)] h by simp
  then have "whole_reply (h, g, d) \<and> content r = reply_source (h, g, d) @ content r'" using b(1) gi(1,2) d(1,2) full(1) by simp
  then show ?thesis by blast
qed

lemma read_reply_iff:
  "fst (read_reply rd r) = Ok (h, d) \<longleftrightarrow> (\<exists>g. whole_reply (h, g, d) \<and> prefix (reply_source (h, g, d)) (content r))"
proof
  assume "fst (read_reply rd r) = Ok (h, d)"
  then have "read_reply rd r = (Ok (h, d), snd (read_reply rd r))" by (metis prod.collapse)
  from read_reply_inv [OF this] show "\<exists>g. whole_reply (h, g, d) \<and> prefix (reply_source (h, g, d)) (content r)" by (auto simp: prefix_def)
qed (auto simp: prefix_def intro: read_reply_ok simp del: whole_reply.simps reply_source.simps)

end

lemma rs_bind_keeps:
  assumes "P (snd m)" and "\<And>a s. P s \<Longrightarrow> P (snd (f a s))"
  shows "P (snd (rs_bind m f))"
  using assms by (cases m; cases "fst m") auto

lemma read_reply_keeps:
  assumes "\<And>r n. P r \<Longrightarrow> P (snd (rd r n))" and "P r"
  shows "P (snd (read_reply rd r))"
proof -
  have full: "P (snd (ReadFull rd q n))" if "P q" for q n
    using ReadFull_keeps [of P rd, OF assms(1) that] by (metis prod.collapse)
  have server: "P (snd (ReadServerMessageHeader rd q))" if "P q" for q
    using full [OF that, of 20] by (auto simp: ReadServerMessageHeader_def split: prod.split res.split)
  have gate: "P (snd (ReadGateMsgHeader rd q))" if "P q" for q
    using full [OF that, of 9] by (auto simp: ReadGateMsgHeader_def split: prod.split res.split)
  show ?thesis unfolding read_reply_def Let_def
    by (rule rs_bind_keeps [where P = P], rule server, rule assms(2), rule rs_bind_keeps [where P = P], erule gate)
      (auto intro: rs_bind_keeps [where P = P] full)
qed

text \<open>
  C16. The loop towards the client waits at most the read timeout for a message of the backend, headers
  and payload together: it has the message by then exactly when the whole of it has arrived, and
  otherwise stops with an error.
\<close>

theorem backend_message_in_time:
  assumes "\<not> tc_closed c" and "0 \<le> readTimeout" and "timed_down_read readTimeout c = (res, s)"
  shows "(\<exists>c'. s = Some c' \<and> tc_clock c' \<le> tc_clock c + readTimeout) \<and>
    (res = Ok (h, d) \<longleftrightarrow> 0 < readTimeout \<and> (\<exists>g. whole_reply (h, g, d) \<and>
      prefix (reply_source (h, g, d)) (map snd (takeWhile (\<lambda>(a, _). a < tc_clock c + readTimeout) (tc_arrivals c)))))"
proof -
  define c1 where "c1 = c\<lparr>tc_readDeadline := Some (tc_clock c + readTimeout)\<rparr>"
  have read: "read_reply timed_rd (Some c1) = (res, s)" using assms(1,3) by (simp add: timed_down_read_def net_SetReadDeadline_def c1_def)
  have od: "overdue c1 x = (tc_clock c + readTimeout \<le> x)" for x by (simp add: overdue_def c1_def)
  have "within (tc_clock c + readTimeout) (Some c1)" using assms(1,2) by (simp add: within_def c1_def)
  from read_reply_keeps [of "within _" timed_rd, OF timed_rd_within this] read have time: "within (tc_clock c + readTimeout) s" by simp
  have "timed_content (Some c1) =
      (if 0 < readTimeout then map snd (takeWhile (\<lambda>(a, _). a < tc_clock c + readTimeout) (tc_arrivals c)) else [])"
    using assms(1) by (simp add: od not_le) (simp add: c1_def)
  moreover have "\<not> prefix (reply_source (h, g, d)) []" if "whole_reply (h, g, d)" for g using that by auto
  ultimately show ?thesis
    using time timed.read_reply_iff [of "Some c1" h d] read by (auto simp: within_def simp del: whole_reply.simps reply_source.simps)
qed

theorem backend_message_in_time_witness:
  "fst (timed_down_read (10 * second) (slow_client ([9, 0, 0, 0] @ replicate 25 7))) =
     Ok (\<lparr>smh_Length = 9, smh_Type = 0x07070707, smh_ServerID = 0x07070707, smh_ObjectID = 0x0707070707070707\<rparr>, [])"
proof -
  let ?h = "\<lparr>smh_Length = 9, smh_Type = 0x07070707, smh_ServerID = 0x07070707, smh_ObjectID = 0x0707070707070707\<rparr> :: ServerMessageHeader"
  have "whole_reply (?h, replicate 9 7, []) \<and> prefix (reply_source (?h, replicate 9 7, []))
      (map snd (takeWhile (\<lambda>(a, _). a < 10 * second) (tc_arrivals (slow_client ([9, 0, 0, 0] @ replicate 25 7)))))"
    by code_simp
  moreover have "\<not> tc_closed (slow_client ([9, 0, 0, 0] @ replicate 25 7))" "tc_clock (slow_client ([9, 0, 0, 0] @ replicate 25 7)) = 0"
    by (simp_all add: slow_client_def)
  ultimately show ?thesis
    using backend_message_in_time [of _ "10 * second", OF _ _ prod.collapse [symmetric], of "slow_client ([9, 0, 0, 0] @ replicate 25 7)" ?h "[]"]
    by (simp del: whole_reply.simps reply_source.simps) blast
qed

end
