(* ===== verification/Spec2Isabelle.thy ===== *)
theory Spec2Isabelle
  imports Packet WebSocket RateLimit CircuitBreaker Retry SessionStore SessionId Router ConnPool
    Config Sniffer Handshake Discovery GrpcTransport Forward AccessLog Gateway GrpcBridge Handler
    SessionFlow Lifecycle Logger RedisClient Process History Overlap Metrics LoadTest Deadlines
begin

text \<open>
  \<^bold>\<open>Verification of the game gateway.\<close>

  The program is a gateway between game clients and game servers, written in Go.  It accepts TCP
  and WebSocket connections, reads the first packet, finds a backend by the server ID in it, and
  forwards packets in both directions, over pooled TCP connections or over shared gRPC streams.
  Around this there are admission limits, a circuit breaker, retries, routing rules from Redis and
  Consul, session bookkeeping, configuration, logging, and an orderly start and shutdown.

  \<^bold>\<open>Theories and sources\<close> (paths under \<open>src/internal\<close> unless they begin with \<open>src\<close>).

  \<^item> \<open>GatewayPrelude\<close>: errors (\<open>go_error\<close>), results (\<open>'a res\<close> with \<open>Ok\<close>, \<open>Err\<close> and \<open>Panic\<close>),
    Go maps as association lists, decimal text, bytes of words; the simplification rules the other
    theories share.
  \<^item> \<open>Streams\<close>: connections as a list of arriving segments and an ending, buffered readers, and the
    locale \<open>byte_reader\<close> that says what a reader owes: it hands out the stream in order, whatever the
    segmentation.  It is interpreted on the socket, the buffered reader, the WebSocket adapter and
    the reader of the forwarding loops.
  \<^item> \<open>BufferPool\<close>: \<open>buffer/pool.go\<close>.  \<open>Packet\<close>: \<open>protocol/packet.go\<close>, \<open>protocol/server_packet.go\<close>.
    \<open>WebSocket\<close>: \<open>protocol/websocket_conn.go\<close>.  \<open>Sniffer\<close>: \<open>protocol/sniffer.go\<close>.
    \<open>Handshake\<close>: the HTTP and WebSocket part of \<open>gateway/gateway.go\<close>.
  \<^item> \<open>RateLimit\<close>: \<open>ratelimit\<close>.  \<open>CircuitBreaker\<close>: \<open>circuitbreaker/breaker.go\<close>, \<open>gateway/breaker.go\<close>.
    \<open>Retry\<close>: \<open>retry/retry.go\<close>.  \<open>SessionStore\<close>: \<open>session/session.go\<close>.  \<open>SessionId\<close>: the session IDs of
    \<open>gateway/gateway.go\<close>.  \<open>ConnPool\<close>: \<open>pool\<close>.  \<open>GrpcTransport\<close>: \<open>transport/grpc/manager.go\<close>.
  \<^item> \<open>Router\<close>: \<open>router/router.go\<close>.  \<open>Discovery\<close>: \<open>consul/discovery.go\<close> and the rule callbacks of
    \<open>gateway/gateway.go\<close>.  \<open>RedisClient\<close>: \<open>redis/client.go\<close>.  \<open>Config\<close>: \<open>config\<close>, \<open>gateway/config_reload.go\<close>.
  \<^item> \<open>AccessLog\<close>: \<open>middleware/accesslog.go\<close>.  \<open>Logger\<close>: \<open>logger/logger.go\<close>.
  \<^item> \<open>Gateway\<close>: the object \<open>Gateway\<close> and its construction, \<open>gateway/connection_notify.go\<close>.
    \<open>Forward\<close>: \<open>forwardConnection\<close>.  \<open>GrpcBridge\<close>: \<open>gateway/gateway_grpc.go\<close>.  \<open>Handler\<close>:
    \<open>handleConnection\<close> and \<open>handleTCPConnection\<close>.  \<open>Lifecycle\<close>: \<open>Start\<close>, \<open>acceptLoop\<close>,
    \<open>processConnectionQueue\<close>, \<open>Shutdown\<close> and the probes.  \<open>Process\<close>: \<open>src/cmd/gateway/main.go\<close> and
    \<open>tracing/tracing.go\<close>.
  \<^item> \<open>SessionFlow\<close> and \<open>History\<close> compose them: one session from the first packet to the last, and
    the gateway over any number of connections.  \<open>Overlap\<close> lets the handlers interleave at the operations
    on the books they share, and shows that these moves are those of \<open>handleConnection\<close>.
  \<^item> \<open>Deadlines\<close>: connections whose bytes have arrival times, the deadline and address methods of \<open>SniffConn\<close>
    and \<open>WebSocketConn\<close>, and the code that sets read deadlines: \<open>acceptLoop\<close>, \<open>Sniff\<close> and both loops
    of \<open>forwardConnection\<close>.  A timed connection is shown to be a \<open>steady_reader\<close> of the bytes that arrive in
    time, so that the theorems of \<open>Sniffer\<close> and \<open>Packet\<close> apply to it.
  \<^item> \<open>Metrics\<close>: \<open>metrics/metrics.go\<close>.  \<open>LoadTest\<close>: the load generator \<open>src/tools/loadtest/main.go\<close>, its
    messages read with the gateway's packet reader.

  \<^bold>\<open>State and interleaving.\<close>  A struct is a record, a pointer an index into a store that is part of
  the state (sessions, pooled connections, client connections).  Methods that hold their mutex for
  the whole body are functions of the state.  Where goroutines interleave on shared data without
  a common lock the code is split at its atomic operations into an inductive step relation: the
  global limiter, the handlers at their shared books, the session IDs, the pool, the gRPC clients, the two directions of a forwarded
  session, and the goroutines around the wait group.  A handler run gives the way it ended
  (returned, still running, panicked, process died) with the state, and deferred calls are a
  combinator on such runs.

  \<^bold>\<open>Interfaces.\<close>  Components meet at locales that the providers interpret: \<open>byte_reader\<close> and
  \<open>byte_writer\<close> for streams (\<open>steady_reader\<close> adds that a stream once at its end stays there, for the
  sniffer), \<open>admission\<close> for the limiters a handler brackets its work with, \<open>session_index\<close> for the
  store.  Inside \<open>byte_reader\<close> the relation \<open>refines\<close> connects a reading routine with a parser on the
  byte list, and is closed under sequencing, so that a frame reader is verified piece by piece.

  \<^bold>\<open>What is shown.\<close>
  \<^item> Streams and codecs: a packet is read exactly, whatever the segmentation, and consumes nothing
    after itself; headers and frames round-trip; the WebSocket adapter is transparent; which frames
    make the reader panic; which replies a client can read.
  \<^item> Forwarding: in all interleavings and for all failures both directions deliver a prefix of the
    messages in order, at most the last one cut short; one side leaving ends the other.  The gRPC
    bridge delivers in order, and to the named sessions only.
  \<^item> Connections: every path of the handler gives back limiter slots and session, closes the
    socket and logs once; over any history the gateway returns to the idle state; in any overlap
    of handlers the counts are exact and the limits hold.
  \<^item> Components: sliding-window and counting limits, the sharded store as one map, the rule table
    as one map with exact match before wildcard, fair round robin, increasing session IDs, breaker,
    retry, pool bounds, reload and merge of rules.
  \<^item> Time: protocol detection and messages of a backend are waited for no longer than their
    deadlines and decided by exactly the bytes that arrive in time; the first packet of a client
    and the packets before a tick has been taken are waited for without any bound.
  \<^item> Load generator: its counters add up, its lock-free extrema are exact in all interleavings, and
    how the gateway frames what it sends.
  \<^item> Process: when it comes up, what the wait group counts, where each connection is, how it stops.
  \<^item> Several theorems state where the code does something else than it means to: session IDs that can
    repeat, the pool's limit and its cleanup, closed connections in the pool, sessions that expire
    under traffic, a shutdown that always waits for its timeout, idle clients that are never timed out.

  \<^bold>\<open>Inputs, bounds and fuel.\<close>  Clock readings, random choices of \<open>select\<close>, the buffer a
  \<open>sync.Pool\<close> returns, dial outcomes and replies of services are arguments, so that a theorem holds for
  all of them.  Loops over such inputs recurse on the list of rounds, events or clock readings; a
  list that ends before the loop does is a run that has not finished, and theorems that promise a
  result say how long a list suffices (two clock readings for a session ID, as many rounds as bytes
  for the end of forwarding).  \<open>Peek\<close> of the sniffer is bounded by the arrivals of the stream, retry
  by the number of attempts left; the cleanup of the pool, which need not return, has fuel and a
  theorem that no fuel suffices.  Words have the widths of the source; Go's \<open>int\<close> is an integer,
  bounded where the source converts it.

  \<^bold>\<open>Not modelled.\<close>  The updates of Prometheus collectors in the handlers: the gateway writes them
  and never reads them.  The generated protocol code, what the load test prints.  Spans, beyond the trace context they give to
  packets.  Outside \<open>Deadlines\<close>, deadlines on connections appear as a read or write that fails with a
  timeout and as the failure to set one on a closed connection; when a write blocks is not modelled in
  time, and in the forwarding loops only their reads are.  Third-party code (zap, ants, go-redis, gRPC,
  OpenTelemetry, YAML) is present only as what it returns.  \<open>Sync\<close> and the log line of
  \<open>ShutdownAccessLogger\<close> have no effect on the state.
\<close>

end
